(* ===== verification/Prelude.thy ===== *)
theory Prelude
  imports Complex_Main "HOL-Library.Word"
begin

text \<open>
  Shared vocabulary of the development: the machine integers of the code as words, byte
  strings, the big-endian integer layouts used on the wire, the byte-wise comparison that two
  crates implement, saturating subtraction, and the interface of a transition system with an
  inductive invariant.
\<close>

unbundle bit_operations_syntax

section \<open>Types and fact collections\<close>

type_synonym u8 = "8 word"
type_synonym u16 = "16 word"
type_synonym u32 = "32 word"
type_synonym u64 = "64 word"
type_synonym bytes = "u8 list"

text \<open>Points in time and durations, in nanoseconds (Rust's \<^verbatim>\<open>Instant\<close> and \<^verbatim>\<open>Duration\<close>).\<close>

type_synonym instant = nat

abbreviation nanos_per_sec :: nat where
  "nanos_per_sec \<equiv> 1000000000"

named_theorems wire "byte layouts: lengths, prefixes and round trips"
named_theorems handlers "definitions of handlers, unfolded together"

lemma unat_bound: "unat (x :: 'a::len word) < 2 ^ LENGTH('a)"
  by (rule unsigned_less)

section \<open>Big-endian integers\<close>

text \<open>\<open>nat_to_be n v\<close> is the \<open>n\<close>-byte big-endian form of \<open>v\<close>; \<open>be_to_nat\<close> reads it back.\<close>

fun nat_to_be :: "nat \<Rightarrow> nat \<Rightarrow> bytes" where
  "nat_to_be 0 v = []"
| "nat_to_be (Suc n) v = nat_to_be n (v div 256) @ [of_nat (v mod 256)]"

lemma nat_to_be_numeral:
  "nat_to_be (numeral k) v = nat_to_be (pred_numeral k) (v div 256) @ [of_nat (v mod 256)]"
  by (simp only: numeral_eq_Suc nat_to_be.simps)

definition be_to_nat :: "bytes \<Rightarrow> nat" where
  "be_to_nat bs = foldl (\<lambda>acc b. acc * 256 + unat b) 0 bs"

lemma be_to_nat_Nil [simp]: "be_to_nat [] = 0"
  by (simp add: be_to_nat_def)

lemma be_to_nat_snoc [simp]: "be_to_nat (bs @ [b]) = be_to_nat bs * 256 + unat b"
  by (simp add: be_to_nat_def)

lemma length_nat_to_be [simp, wire]: "length (nat_to_be n v) = n"
  by (induction n arbitrary: v) auto

lemma unat_u8_of_mod [simp]: "unat (of_nat (v mod 256) :: u8) = v mod 256"
  by (simp add: unat_of_nat)

lemma be_to_nat_to_be [wire]: "be_to_nat (nat_to_be n v) = v mod 256 ^ n"
proof (induction n arbitrary: v)
  case 0
  then show ?case by simp
next
  case (Suc n)
  have "v mod 256 ^ Suc n = (v div 256 mod 256 ^ n) * 256 + v mod 256"
    using mod_mult2_eq [of v 256 "256 ^ n"] by (simp add: mult.commute)
  with Suc show ?case by simp
qed

lemma be_to_nat_bound: "be_to_nat bs < 256 ^ length bs"
proof (induction bs rule: rev_induct)
  case Nil
  then show ?case by simp
next
  case (snoc b bs)
  have "unat b < 256"
    using unat_bound [of b] by simp
  then have "be_to_nat bs * 256 + unat b < (be_to_nat bs + 1) * 256" by simp
  also have "\<dots> \<le> 256 ^ length bs * 256"
    using snoc by (intro mult_le_mono1) simp
  finally show ?case by (simp add: mult.commute)
qed

definition u16_to_be :: "u16 \<Rightarrow> bytes" where
  "u16_to_be x = nat_to_be 2 (unat x)"

definition u32_to_be :: "u32 \<Rightarrow> bytes" where
  "u32_to_be x = nat_to_be 4 (unat x)"

definition u64_to_be :: "u64 \<Rightarrow> bytes" where
  "u64_to_be x = nat_to_be 8 (unat x)"

definition u64_from_be :: "bytes \<Rightarrow> u64" where
  "u64_from_be bs = of_nat (be_to_nat bs)"

lemma length_u_to_be [simp, wire]:
  "length (u16_to_be a) = 2" "length (u32_to_be b) = 4" "length (u64_to_be c) = 8"
  by (simp_all add: u16_to_be_def u32_to_be_def u64_to_be_def)

lemma be_to_nat_u16 [simp, wire]: "be_to_nat (u16_to_be x) = unat x"
  using unat_bound [of x] by (simp add: u16_to_be_def be_to_nat_to_be)

lemma be_to_nat_u32 [simp, wire]: "be_to_nat (u32_to_be x) = unat x"
  using unat_bound [of x] by (simp add: u32_to_be_def be_to_nat_to_be)

lemma be_to_nat_u64 [simp, wire]: "be_to_nat (u64_to_be x) = unat x"
  using unat_bound [of x] by (simp add: u64_to_be_def be_to_nat_to_be)

lemma u64_from_be_to_be [simp, wire]: "u64_from_be (u64_to_be x) = x"
  by (simp add: u64_from_be_def)

section \<open>Saturating subtraction\<close>

text \<open>Rust's \<^verbatim>\<open>u64::saturating_sub\<close>.\<close>

definition saturating_sub :: "u64 \<Rightarrow> u64 \<Rightarrow> u64" where
  "saturating_sub a b = (if a < b then 0 else a - b)"

lemma unat_saturating_sub [simp]: "unat (saturating_sub a b) = unat a - unat b"
  by (simp add: saturating_sub_def unat_sub word_less_nat_alt not_less word_le_nat_alt)

section \<open>Accumulated byte differences\<close>

text \<open>
  The accumulator of the two constant-time comparisons of the code:
  \<^verbatim>\<open>for (x, y) in a.iter().zip(b.iter()) { result |= x ^ y; }\<close>
\<close>

definition xor_acc :: "u8 \<Rightarrow> bytes \<Rightarrow> bytes \<Rightarrow> u8" where
  "xor_acc r a b = foldl (\<lambda>acc (x, y). acc OR (x XOR y)) r (zip a b)"

lemma xor_acc_simps [simp]:
  "xor_acc r [] b = r" "xor_acc r a [] = r"
  "xor_acc r (x # a) (y # b) = xor_acc (r OR (x XOR y)) a b"
  by (simp_all add: xor_acc_def)

lemma or_eq_0_word: "(a OR b) = (0 :: u8) \<longleftrightarrow> a = 0 \<and> b = 0"
  by (auto simp: bit_eq_iff bit_or_iff)

lemma xor_eq_0_word: "(a XOR b) = (0 :: u8) \<longleftrightarrow> a = b"
  by (auto simp: bit_eq_iff bit_xor_iff)

lemma xor_acc_zero:
  "length a = length b \<Longrightarrow> xor_acc r a b = 0 \<longleftrightarrow> r = 0 \<and> a = b"
proof (induction a b arbitrary: r rule: list_induct2)
  case Nil
  then show ?case by simp
next
  case (Cons x xs y ys)
  then show ?case by (auto simp: or_eq_0_word xor_eq_0_word)
qed

section \<open>Transition systems with an inductive invariant\<close>

text \<open>
  The interface every stateful component below is proved against: initial states, steps and a
  predicate that holds initially and is kept by every step.
\<close>

locale transition_system =
  fixes init :: "'s \<Rightarrow> bool" and step :: "'s \<Rightarrow> 's \<Rightarrow> bool" and inv :: "'s \<Rightarrow> bool"
  assumes inv_init: "init s \<Longrightarrow> inv s"
    and inv_step: "inv s \<Longrightarrow> step s t \<Longrightarrow> inv t"
begin

lemma inv_steps: "step\<^sup>*\<^sup>* s t \<Longrightarrow> inv s \<Longrightarrow> inv t"
  by (induction rule: rtranclp_induct) (auto intro: inv_step)

lemma inv_reachable: "init s \<Longrightarrow> step\<^sup>*\<^sup>* s t \<Longrightarrow> inv t"
  using inv_init inv_steps by blast

end

lemma three_steps:
  assumes "r a b" "r b c" "r c d"
  shows "r\<^sup>*\<^sup>* a d"
proof -
  have "r\<^sup>*\<^sup>* a b" using assms(1) by (rule r_into_rtranclp)
  then have "r\<^sup>*\<^sup>* a c" using assms(2) by (rule rtranclp.rtrancl_into_rtrancl)
  then show ?thesis using assms(3) by (rule rtranclp.rtrancl_into_rtrancl)
qed

end
