(* ===== verification/Message.thy ===== *)
theory Message
  imports Prelude
begin

text \<open>
  \<^verbatim>\<open>crates/proto/src/message.rs\<close>: the messages between server and client, and the
  binary form of data messages. JSON is produced and read by \<^verbatim>\<open>serde_json\<close>, which is
  a third-party crate: its functions are the fields of the parameter record \<open>serde\<close>, and what
  the code relies on is the hypothesis \<open>serde_roundtrip\<close>.
\<close>

section \<open>Control messages\<close>

record auth_request =
  ar_client_id :: string
  ar_token :: string
  ar_version :: string

record auth_response =
  as_success :: bool
  as_message :: string
  as_server_version :: string

record server_assign_proxy_request =
  sap_name :: string
  sap_proxy_type :: string
  sap_local_ip :: string
  sap_local_port :: u16
  sap_remote_port :: u16
  sap_custom_domains :: "string list"
  sap_proxy_protocol :: string

record server_close_proxy_request =
  scp_name :: string

record new_work_conn_request =
  wcq_proxy_name :: string
  wcq_conn_id :: u64
  wcq_user_addr :: "string option"

record new_work_conn_response =
  wcr_proxy_name :: string
  wcr_conn_id :: u64
  wcr_success :: bool

datatype control_message =
    Auth auth_request
  | AuthResp auth_response
  | ServerAssignProxy server_assign_proxy_request
  | ServerCloseProxy server_close_proxy_request
  | NewWorkConn new_work_conn_request
  | NewWorkConnResp new_work_conn_response
  | Ping
  | Pong

record data_message =
  dm_conn_id :: u64
  dm_data :: bytes

datatype message = Control control_message | Data data_message

section \<open>Data messages\<close>

definition data_encode :: "data_message \<Rightarrow> bytes" where
  "data_encode m = u64_to_be (dm_conn_id m) @ dm_data m"

definition data_decode :: "bytes \<Rightarrow> data_message option" where
  "data_decode src =
     (if length src < 8 then None
      else Some \<lparr>dm_conn_id = u64_from_be (take 8 src), dm_data = drop 8 src\<rparr>)"

lemma length_data_encode [simp, wire]: "length (data_encode m) = 8 + length (dm_data m)"
  by (simp add: data_encode_def)

lemma data_decode_encode [simp, wire]: "data_decode (data_encode m) = Some m"
  by (simp add: data_decode_def data_encode_def)

lemma u64_to_from_be: "length bs = 8 \<Longrightarrow> u64_to_be (u64_from_be bs) = bs"
proof -
  have inj: "nat_to_be n (be_to_nat bs) = bs" if "length bs = n" for n bs
    using that
  proof (induction bs arbitrary: n rule: rev_induct)
    case Nil
    then show ?case by simp
  next
    case (snoc b bs)
    have "unat b < 256" using unat_bound [of b] by simp
    moreover from snoc.prems obtain m where "n = Suc m" "length bs = m" by (cases n) auto
    ultimately show ?case using snoc.IH [of m]
      by (simp add: of_nat_mod unat_of_nat)
  qed
  assume len: "length bs = 8"
  then have "be_to_nat bs < 2 ^ 64"
    using be_to_nat_bound [of bs] by simp
  then have "unat (u64_from_be bs) = be_to_nat bs"
    by (simp add: u64_from_be_def unat_of_nat)
  with len show ?thesis by (simp add: u64_to_be_def inj)
qed

lemma data_encode_decode: "data_decode src = Some m \<Longrightarrow> data_encode m = src"
  by (auto simp: data_decode_def data_encode_def u64_to_from_be split: if_splits)

section \<open>The JSON library as a parameter\<close>

text \<open>
  \<^verbatim>\<open>serde_json::to_vec\<close> and \<^verbatim>\<open>serde_json::from_slice\<close> at the six struct
  types, and \<^verbatim>\<open>to_string\<close> / \<^verbatim>\<open>from_str\<close> at \<^verbatim>\<open>ControlMessage\<close>. \<open>None\<close> is
  a serialisation or parse error.
\<close>

record serde =
  auth_to_vec :: "auth_request \<Rightarrow> bytes option"
  auth_from_slice :: "bytes \<Rightarrow> auth_request option"
  auth_resp_to_vec :: "auth_response \<Rightarrow> bytes option"
  auth_resp_from_slice :: "bytes \<Rightarrow> auth_response option"
  assign_to_vec :: "server_assign_proxy_request \<Rightarrow> bytes option"
  assign_from_slice :: "bytes \<Rightarrow> server_assign_proxy_request option"
  close_to_vec :: "server_close_proxy_request \<Rightarrow> bytes option"
  close_from_slice :: "bytes \<Rightarrow> server_close_proxy_request option"
  work_req_to_vec :: "new_work_conn_request \<Rightarrow> bytes option"
  work_req_from_slice :: "bytes \<Rightarrow> new_work_conn_request option"
  work_resp_to_vec :: "new_work_conn_response \<Rightarrow> bytes option"
  work_resp_from_slice :: "bytes \<Rightarrow> new_work_conn_response option"
  ctrl_to_string :: "control_message \<Rightarrow> string option"
  ctrl_from_str :: "string \<Rightarrow> control_message option"

text \<open>
  The documented behaviour the protocol relies on: parsing what was serialised gives the value
  back.
\<close>

definition serde_roundtrip :: "serde \<Rightarrow> bool" where
  "serde_roundtrip J \<longleftrightarrow>
     (\<forall>x b. auth_to_vec J x = Some b \<longrightarrow> auth_from_slice J b = Some x) \<and>
     (\<forall>x b. auth_resp_to_vec J x = Some b \<longrightarrow> auth_resp_from_slice J b = Some x) \<and>
     (\<forall>x b. assign_to_vec J x = Some b \<longrightarrow> assign_from_slice J b = Some x) \<and>
     (\<forall>x b. close_to_vec J x = Some b \<longrightarrow> close_from_slice J b = Some x) \<and>
     (\<forall>x b. work_req_to_vec J x = Some b \<longrightarrow> work_req_from_slice J b = Some x) \<and>
     (\<forall>x b. work_resp_to_vec J x = Some b \<longrightarrow> work_resp_from_slice J b = Some x) \<and>
     (\<forall>x s. ctrl_to_string J x = Some s \<longrightarrow> ctrl_from_str J s = Some x)"

lemma serde_roundtripD:
  assumes "serde_roundtrip J"
  shows "auth_to_vec J a = Some b \<Longrightarrow> auth_from_slice J b = Some a"
    and "auth_resp_to_vec J r = Some b \<Longrightarrow> auth_resp_from_slice J b = Some r"
    and "assign_to_vec J p = Some b \<Longrightarrow> assign_from_slice J b = Some p"
    and "close_to_vec J c = Some b \<Longrightarrow> close_from_slice J b = Some c"
    and "work_req_to_vec J w = Some b \<Longrightarrow> work_req_from_slice J b = Some w"
    and "work_resp_to_vec J v = Some b \<Longrightarrow> work_resp_from_slice J b = Some v"
    and "ctrl_to_string J m = Some s \<Longrightarrow> ctrl_from_str J s = Some m"
  using assms unfolding serde_roundtrip_def by blast+

end
