(* ===== verification/Text.thy ===== *)
theory Text
  imports Prelude "HOL-Library.Sublist"
begin

text \<open>
  The parts of Rust's \<^verbatim>\<open>str\<close> that the code uses. A \<^verbatim>\<open>String\<close> is the list of
  its UTF-8 bytes (HOL \<open>char\<close>s), a buffer a list of \<open>u8\<close>. Modelled here: the
  UTF-8 check of \<^verbatim>\<open>str::from_utf8\<close>, \<^verbatim>\<open>chars\<close>, \<^verbatim>\<open>trim\<close>, \<^verbatim>\<open>lines\<close>,
  \<^verbatim>\<open>strip_prefix\<close>, splitting at a character, decimal printing. The Unicode table behind
  \<^verbatim>\<open>char::is_alphanumeric\<close> for code points beyond ASCII is a parameter.
\<close>

section \<open>Bytes and characters\<close>

definition as_bytes :: "string \<Rightarrow> bytes" where
  "as_bytes s = map (\<lambda>c. of_nat (of_char c)) s"

definition chars_of_bytes :: "bytes \<Rightarrow> string" where
  "chars_of_bytes bs = map (\<lambda>b. char_of (unat b)) bs"

lemma length_as_bytes [simp]: "length (as_bytes s) = length s"
  by (simp add: as_bytes_def)

lemma as_bytes_append [simp]: "as_bytes (s @ t) = as_bytes s @ as_bytes t"
  by (simp add: as_bytes_def)

lemma as_bytes_Nil [simp]: "as_bytes [] = []"
  by (simp add: as_bytes_def)

lemma unat_of_char_u8: "unat (of_nat (of_char c) :: u8) = of_char c"
  using nat_of_char_less_256 [of c] by (simp add: unat_of_nat)

lemma chars_of_as_bytes [simp]: "chars_of_bytes (as_bytes s) = s"
  by (simp add: chars_of_bytes_def as_bytes_def unat_of_char_u8 comp_def)

lemma as_bytes_of_chars [simp]: "as_bytes (chars_of_bytes b) = b"
proof -
  have "(of_nat (of_char (char_of (unat x) :: char)) :: u8) = x" for x :: u8
    using unat_bound [of x] by simp
  then show ?thesis by (simp add: chars_of_bytes_def as_bytes_def comp_def)
qed

lemma as_bytes_inj [simp]: "as_bytes s = as_bytes t \<longleftrightarrow> s = t"
  by (metis chars_of_as_bytes)

section \<open>UTF-8\<close>

text \<open>
  One step of the validation of \<^verbatim>\<open>core::str::from_utf8\<close>: the scalar value at the front
  and its width, \<open>None\<close> for an invalid or truncated sequence.
\<close>

definition cont_byte :: "nat \<Rightarrow> bool" where
  "cont_byte b \<longleftrightarrow> 128 \<le> b \<and> b \<le> 191"

fun utf8_step :: "nat list \<Rightarrow> (nat \<times> nat) option" where
  "utf8_step [] = None"
| "utf8_step (b0 # r) =
     (if b0 < 128 then Some (b0, 1)
      else if 194 \<le> b0 \<and> b0 \<le> 223 then
        (case r of b1 # _ \<Rightarrow>
           if cont_byte b1 then Some ((b0 - 192) * 64 + (b1 - 128), 2) else None
         | _ \<Rightarrow> None)
      else if 224 \<le> b0 \<and> b0 \<le> 239 then
        (case r of b1 # b2 # _ \<Rightarrow>
           if (if b0 = 224 then 160 \<le> b1 \<and> b1 \<le> 191
               else if b0 = 237 then 128 \<le> b1 \<and> b1 \<le> 159
               else cont_byte b1) \<and> cont_byte b2
           then Some ((b0 - 224) * 4096 + (b1 - 128) * 64 + (b2 - 128), 3) else None
         | _ \<Rightarrow> None)
      else if 240 \<le> b0 \<and> b0 \<le> 244 then
        (case r of b1 # b2 # b3 # _ \<Rightarrow>
           if (if b0 = 240 then 144 \<le> b1 \<and> b1 \<le> 191
               else if b0 = 244 then 128 \<le> b1 \<and> b1 \<le> 143
               else cont_byte b1) \<and> cont_byte b2 \<and> cont_byte b3
           then Some ((b0 - 240) * 262144 + (b1 - 128) * 4096 + (b2 - 128) * 64 + (b3 - 128), 4)
           else None
         | _ \<Rightarrow> None)
      else None)"

lemma utf8_step_width: "utf8_step bs = Some (c, w) \<Longrightarrow> 0 < w \<and> w \<le> length bs"
  by (cases bs) (auto split: if_splits list.splits)

function utf8_decode :: "nat list \<Rightarrow> nat list option" where
  "utf8_decode bs =
     (if bs = [] then Some []
      else case utf8_step bs of
        None \<Rightarrow> None
      | Some (c, w) \<Rightarrow> map_option (\<lambda>cs. c # cs) (utf8_decode (drop w bs)))"
  by pat_completeness auto
termination
  by (relation "measure length") (auto dest: utf8_step_width)

declare utf8_decode.simps [simp del]

lemma utf8_decode_Nil [simp]: "utf8_decode [] = Some []"
  by (simp add: utf8_decode.simps)

lemma utf8_decode_ascii_Cons [simp]:
  "b < 128 \<Longrightarrow> utf8_decode (b # bs) = map_option (\<lambda>cs. b # cs) (utf8_decode bs)"
  by (subst utf8_decode.simps) simp

lemma utf8_decode_ascii: "\<forall>b \<in> set bs. b < 128 \<Longrightarrow> utf8_decode bs = Some bs"
  by (induction bs) auto

text \<open>A decoded ASCII character was that byte: multi-byte sequences never decode below 128.\<close>

lemma utf8_step_ascii: "utf8_step bs = Some (c, w) \<Longrightarrow> c < 128 \<Longrightarrow> w = 1 \<and> bs \<noteq> [] \<and> hd bs = c"
  by (cases bs) (auto simp: cont_byte_def split: if_splits list.splits)

lemma utf8_decode_all_ascii:
  "utf8_decode bs = Some cs \<Longrightarrow> \<forall>c \<in> set cs. c < 128 \<Longrightarrow> bs = cs"
proof (induction bs arbitrary: cs rule: utf8_decode.induct)
  case (1 bs)
  show ?case
  proof (cases "bs = []")
    case True
    with "1.prems" show ?thesis by simp
  next
    case False
    with "1.prems"(1) obtain c w cs' where st: "utf8_step bs = Some (c, w)"
      and d: "utf8_decode (drop w bs) = Some cs'" and cs: "cs = c # cs'"
      by (subst (asm) utf8_decode.simps) (auto split: option.splits)
    from "1.prems"(2) cs have "c < 128" by simp
    with st have w: "w = 1" "hd bs = c" using utf8_step_ascii by blast+
    from "1.IH" [OF False st refl d] "1.prems"(2) cs have "drop w bs = cs'" by simp
    with w cs False show ?thesis by (cases bs) auto
  qed
qed

text \<open>Bytes above \<open>0xF4\<close> occur in no valid sequence.\<close>

lemma utf8_step_byte_bound:
  "utf8_step bs = Some (c, w) \<Longrightarrow> \<forall>b \<in> set (take w bs). b \<le> 244"
  by (cases bs) (auto simp: cont_byte_def split: if_splits list.splits)

lemma utf8_decode_byte_bound: "utf8_decode bs = Some cs \<Longrightarrow> \<forall>b \<in> set bs. b \<le> 244"
proof (induction bs arbitrary: cs rule: utf8_decode.induct)
  case (1 bs)
  show ?case
  proof (cases "bs = []")
    case False
    with "1.prems" obtain c w cs' where st: "utf8_step bs = Some (c, w)"
      and d: "utf8_decode (drop w bs) = Some cs'"
      by (subst (asm) utf8_decode.simps) (auto split: option.splits)
    have "set bs = set (take w bs) \<union> set (drop w bs)"
      by (metis append_take_drop_id set_append)
    with "1.IH" [OF False st refl d] utf8_step_byte_bound [OF st] show ?thesis by blast
  qed simp
qed

text \<open>\<^verbatim>\<open>str::from_utf8\<close>: the same bytes as text, if they are valid.\<close>

definition from_utf8 :: "bytes \<Rightarrow> string option" where
  "from_utf8 bs =
     (case utf8_decode (map unat bs) of
        None \<Rightarrow> None
      | Some _ \<Rightarrow> Some (chars_of_bytes bs))"

definition ascii :: "string \<Rightarrow> bool" where
  "ascii s \<longleftrightarrow> list_all (\<lambda>c. of_char c < (128 :: nat)) s"

lemma from_utf8_ascii [simp]: "ascii s \<Longrightarrow> from_utf8 (as_bytes s) = Some s"
proof -
  assume "ascii s"
  moreover have "map unat (as_bytes s) = map of_char s"
    by (simp add: as_bytes_def unat_of_char_u8)
  ultimately have "utf8_decode (map unat (as_bytes s)) = Some (map of_char s)"
    by (simp add: utf8_decode_ascii ascii_def list_all_iff)
  then show ?thesis by (simp add: from_utf8_def)
qed

lemma from_utf8_Some: "from_utf8 bs = Some s \<Longrightarrow> as_bytes s = bs"
  by (auto simp: from_utf8_def split: option.splits)

section \<open>Characters of a string\<close>

text \<open>
  \<^verbatim>\<open>s.chars()\<close>. A Rust string is always valid UTF-8, so the second branch is not taken
  for the strings of the program; it reads the bytes one by one.
\<close>

definition chars :: "string \<Rightarrow> nat list" where
  "chars s =
     (case utf8_decode (map of_char s) of
        Some cs \<Rightarrow> cs
      | None \<Rightarrow> map of_char s)"

lemma chars_ascii: "ascii s \<Longrightarrow> chars s = map of_char s"
  by (simp add: chars_def utf8_decode_ascii ascii_def list_all_iff)

lemma chars_all_ascii: "\<forall>c \<in> set (chars s). c < 128 \<Longrightarrow> ascii s"
proof (cases "utf8_decode (map of_char s)")
  case None
  assume "\<forall>c \<in> set (chars s). c < 128"
  with None show ?thesis by (simp add: chars_def ascii_def list_all_iff)
next
  case (Some cs)
  assume "\<forall>c \<in> set (chars s). c < 128"
  with Some utf8_decode_all_ascii [OF Some] show ?thesis
    by (auto simp: chars_def ascii_def list_all_iff)
qed

definition ascii_alphanumeric :: "nat \<Rightarrow> bool" where
  "ascii_alphanumeric c \<longleftrightarrow>
     (48 \<le> c \<and> c \<le> 57) \<or> (65 \<le> c \<and> c \<le> 90) \<or> (97 \<le> c \<and> c \<le> 122)"

text \<open>\<open>U\<close> is the Unicode alphanumeric table, consulted beyond ASCII only.\<close>

definition is_alphanumeric :: "(nat \<Rightarrow> bool) \<Rightarrow> nat \<Rightarrow> bool" where
  "is_alphanumeric U c \<longleftrightarrow> (if c < 128 then ascii_alphanumeric c else U c)"

section \<open>Scanning\<close>

definition strip_prefix :: "string \<Rightarrow> string \<Rightarrow> string option" where
  "strip_prefix p s = (if prefix p s then Some (drop (length p) s) else None)"

lemma strip_prefix_append [simp]: "strip_prefix p (p @ s) = Some s"
  by (simp add: strip_prefix_def)

text \<open>
  \<^verbatim>\<open>str::lines\<close>: pieces ended by a line feed, without it and without a carriage return
  before it; a last piece with no line feed keeps its carriage return, and an empty one is not
  produced.
\<close>

abbreviation CR :: char where "CR \<equiv> CHR 0x0D"
abbreviation LF :: char where "LF \<equiv> CHR 0x0A"

definition strip_cr :: "string \<Rightarrow> string" where
  "strip_cr s = (if s \<noteq> [] \<and> last s = CR then butlast s else s)"

fun lines_from :: "string \<Rightarrow> string \<Rightarrow> string list" where
  "lines_from acc [] = (if acc = [] then [] else [acc])"
| "lines_from acc (c # cs) =
     (if c = LF then strip_cr acc # lines_from [] cs else lines_from (acc @ [c]) cs)"

definition str_lines :: "string \<Rightarrow> string list" where
  "str_lines s = lines_from [] s"

lemma lines_from_line:
  "LF \<notin> set l \<Longrightarrow> lines_from acc (l @ LF # s) = strip_cr (acc @ l) # lines_from [] s"
  by (induction l arbitrary: acc) auto

lemma str_lines_crlf [simp]:
  "LF \<notin> set l \<Longrightarrow> str_lines (l @ CR # LF # s) = l # str_lines s"
  using lines_from_line [of "l @ [CR]" "[]" s] by (simp add: str_lines_def strip_cr_def)

text \<open>
  \<^verbatim>\<open>str::trim\<close> removes Unicode white space at both ends; \<open>ws_width\<close> is the width of
  the white-space character at the front of a byte list, 0 if there is none.
\<close>

fun ws_width :: "nat list \<Rightarrow> nat" where
  "ws_width [] = 0"
| "ws_width (a # r) =
     (if (9 \<le> a \<and> a \<le> 13) \<or> a = 32 then 1
      else if a = 194 then
        (case r of b # _ \<Rightarrow> if b = 133 \<or> b = 160 then 2 else 0 | _ \<Rightarrow> 0)
      else case r of
        b # c # _ \<Rightarrow>
          if (a = 225 \<and> b = 154 \<and> c = 128)
             \<or> (a = 226 \<and> b = 128 \<and> (128 \<le> c \<and> c \<le> 138 \<or> c = 168 \<or> c = 169 \<or> c = 175))
             \<or> (a = 226 \<and> b = 129 \<and> c = 159)
             \<or> (a = 227 \<and> b = 128 \<and> c = 128)
          then 3 else 0
      | _ \<Rightarrow> 0)"

lemma ws_width_le: "ws_width bs \<le> length bs"
  by (cases bs) (auto split: list.splits)

function trim_start :: "string \<Rightarrow> string" where
  "trim_start s =
     (let w = ws_width (map of_char s) in if w = 0 then s else trim_start (drop w s))"
  by pat_completeness auto
termination
proof (relation "measure length", goal_cases)
  case 1
  show ?case by simp
next
  case (2 s w)
  then show ?case
    using ws_width_le [of "map of_char s"] by (cases s) auto
qed

declare trim_start.simps [simp del]

text \<open>The end of a string is scanned on the reversed list: a character of width \<open>w\<close> ends it.\<close>

definition ws_end_width :: "nat list \<Rightarrow> nat" where
  "ws_end_width rs =
     (if rs \<noteq> [] \<and> ws_width [hd rs] = 1 then 1
      else if 2 \<le> length rs \<and> ws_width (rev (take 2 rs)) = 2 then 2
      else if 3 \<le> length rs \<and> ws_width (rev (take 3 rs)) = 3 then 3
      else 0)"

lemma ws_end_width_le: "ws_end_width rs \<le> length rs"
  by (cases rs) (auto simp: ws_end_width_def)

function trim_end_rev :: "string \<Rightarrow> string" where
  "trim_end_rev r =
     (let w = ws_end_width (map of_char r) in if w = 0 then r else trim_end_rev (drop w r))"
  by pat_completeness auto
termination
proof (relation "measure length", goal_cases)
  case 1
  show ?case by simp
next
  case (2 r w)
  then show ?case
    using ws_end_width_le [of "map of_char r"] by (cases r) (auto simp: ws_end_width_def)
qed

declare trim_end_rev.simps [simp del]

definition trim :: "string \<Rightarrow> string" where
  "trim s = rev (trim_end_rev (rev (trim_start s)))"

lemma trim_start_space [simp]: "trim_start (CHR '' '' # s) = trim_start s"
  by (subst trim_start.simps) simp

lemma trim_start_ascii:
  "s = [] \<or> (of_char (hd s) < (128 :: nat) \<and> of_char (hd s) > (32 :: nat)) \<Longrightarrow> trim_start s = s"
  by (subst trim_start.simps; cases s) (auto split: list.splits)

lemma ws_width_high:
  "ws_width [b, c] = 2 \<Longrightarrow> 128 \<le> c"
  "ws_width [a, b, c] = 3 \<Longrightarrow> 128 \<le> c"
  by (auto split: if_splits)

lemma ws_end_width_ascii:
  assumes "32 < c" "c < 128"
  shows "ws_end_width (c # cs) = 0"
proof -
  have "\<not> (2 \<le> length (c # cs) \<and> ws_width (rev (take 2 (c # cs))) = 2)"
    using ws_width_high(1) assms(2) by (cases cs) (fastforce simp del: ws_width.simps)+
  moreover have "\<not> (3 \<le> length (c # cs) \<and> ws_width (rev (take 3 (c # cs))) = 3)"
  proof (cases cs)
    case (Cons b cs')
    then show ?thesis
      using ws_width_high(2) assms(2) by (cases cs') (fastforce simp del: ws_width.simps)+
  qed simp
  moreover have "ws_width [c] \<noteq> 1"
    using assms by simp
  ultimately show ?thesis by (simp add: ws_end_width_def del: ws_width.simps)
qed

lemma trim_end_rev_ascii:
  assumes "r = [] \<or> (of_char (hd r) < (128 :: nat) \<and> of_char (hd r) > (32 :: nat))"
  shows "trim_end_rev r = r"
proof (cases r)
  case Nil
  then show ?thesis by (subst trim_end_rev.simps) (simp add: ws_end_width_def)
next
  case (Cons c cs)
  with assms have "ws_end_width (map of_char r) = 0"
    by (simp add: ws_end_width_ascii)
  then show ?thesis by (subst trim_end_rev.simps) simp
qed

section \<open>Decimal numbers\<close>

fun digit :: "nat \<Rightarrow> char" where
  "digit d = char_of (48 + d)"

fun dec :: "nat \<Rightarrow> string" where
  "dec n = (if n < 10 then [digit n] else dec (n div 10) @ [digit (n mod 10)])"

declare dec.simps [simp del]

lemma dec_nonempty [simp]: "dec n \<noteq> []"
  by (subst dec.simps) simp

end
