(* ===== verification/Serde_Instance.thy ===== *)
theory Serde_Instance
  imports Message Text
begin

text \<open>
  A concrete instance of the JSON parameters, used only by witnesses: values are written as
  tagged field lists. It shows that the round-trip hypotheses on \<^verbatim>\<open>serde_json\<close> can be
  met by functions defined everywhere.
\<close>

section \<open>Field lists\<close>

fun put_field :: "bytes \<Rightarrow> bytes" where
  "put_field [] = [0]"
| "put_field (b # bs) = 1 # b # put_field bs"

fun get_fields :: "bytes \<Rightarrow> bytes \<Rightarrow> bytes list" where
  "get_fields acc [] = []"
| "get_fields acc [t] = [acc]"
| "get_fields acc (t # b # bs) =
     (if t = 0 then acc # get_fields [] (b # bs) else get_fields (acc @ [b]) bs)"

definition put_fields :: "bytes list \<Rightarrow> bytes" where
  "put_fields fs = concat (map put_field fs)"

lemma get_put_field: "get_fields acc (put_field f @ rest) = (acc @ f) # get_fields [] rest"
  by (induction f arbitrary: acc) (cases rest; simp)+

lemma get_put_fields [simp]: "get_fields [] (put_fields fs) = fs"
  by (induction fs) (simp_all add: put_fields_def get_put_field)

lemma get_put_fields_append [simp]: "get_fields [] (put_fields fs @ []) = fs"
  by simp

definition put_u16 :: "u16 \<Rightarrow> bytes" where "put_u16 x = u16_to_be x"
definition get_u16 :: "bytes \<Rightarrow> u16" where "get_u16 b = of_nat (be_to_nat b)"
definition put_bool :: "bool \<Rightarrow> bytes" where "put_bool b = [if b then 1 else 0]"
definition get_bool :: "bytes \<Rightarrow> bool" where "get_bool b = (b = [1])"
definition put_strings :: "string list \<Rightarrow> bytes" where
  "put_strings ss = put_fields (map as_bytes ss)"
definition get_strings :: "bytes \<Rightarrow> string list" where
  "get_strings b = map chars_of_bytes (get_fields [] b)"

lemma get_put_scalars [simp]:
  "get_u16 (put_u16 x) = x" "get_bool (put_bool b) = b" "get_strings (put_strings ss) = ss"
  by (simp_all add: get_u16_def put_u16_def get_bool_def put_bool_def get_strings_def
      put_strings_def comp_def)

section \<open>The instance\<close>


definition put_auth :: "auth_request \<Rightarrow> bytes" where
  "put_auth x = put_fields [as_bytes (ar_client_id x), as_bytes (ar_token x), as_bytes (ar_version x)]"
definition get_auth :: "bytes \<Rightarrow> auth_request option" where
  "get_auth b = (case get_fields [] b of
     [i, t, v] \<Rightarrow> Some \<lparr>ar_client_id = chars_of_bytes i, ar_token = chars_of_bytes t, ar_version = chars_of_bytes v\<rparr> | _ \<Rightarrow> None)"

definition put_auth_resp :: "auth_response \<Rightarrow> bytes" where
  "put_auth_resp x = put_fields [put_bool (as_success x), as_bytes (as_message x), as_bytes (as_server_version x)]"
definition get_auth_resp :: "bytes \<Rightarrow> auth_response option" where
  "get_auth_resp b = (case get_fields [] b of
     [s, m, v] \<Rightarrow> Some \<lparr>as_success = get_bool s, as_message = chars_of_bytes m, as_server_version = chars_of_bytes v\<rparr>
   | _ \<Rightarrow> None)"

definition put_assign :: "server_assign_proxy_request \<Rightarrow> bytes" where
  "put_assign x = put_fields
     [as_bytes (sap_name x), as_bytes (sap_proxy_type x), as_bytes (sap_local_ip x), put_u16 (sap_local_port x),
      put_u16 (sap_remote_port x), put_strings (sap_custom_domains x), as_bytes (sap_proxy_protocol x)]"
definition get_assign :: "bytes \<Rightarrow> server_assign_proxy_request option" where
  "get_assign b = (case get_fields [] b of
     [n, t, i, lp, rp, d, p] \<Rightarrow>
       Some \<lparr>sap_name = chars_of_bytes n, sap_proxy_type = chars_of_bytes t, sap_local_ip = chars_of_bytes i, sap_local_port = get_u16 lp,
         sap_remote_port = get_u16 rp, sap_custom_domains = get_strings d,
         sap_proxy_protocol = chars_of_bytes p\<rparr>
   | _ \<Rightarrow> None)"

definition put_close :: "server_close_proxy_request \<Rightarrow> bytes" where
  "put_close x = as_bytes (scp_name x)"
definition get_close :: "bytes \<Rightarrow> server_close_proxy_request option" where
  "get_close b = Some \<lparr>scp_name = chars_of_bytes b\<rparr>"

definition put_work_req :: "new_work_conn_request \<Rightarrow> bytes" where
  "put_work_req x = put_fields
     ([as_bytes (wcq_proxy_name x), u64_to_be (wcq_conn_id x)] @
      (case wcq_user_addr x of None \<Rightarrow> [] | Some a \<Rightarrow> [as_bytes a]))"
definition get_work_req :: "bytes \<Rightarrow> new_work_conn_request option" where
  "get_work_req b = (case get_fields [] b of
     [n, c] \<Rightarrow> Some \<lparr>wcq_proxy_name = chars_of_bytes n, wcq_conn_id = u64_from_be c, wcq_user_addr = None\<rparr>
   | [n, c, a] \<Rightarrow>
       Some \<lparr>wcq_proxy_name = chars_of_bytes n, wcq_conn_id = u64_from_be c, wcq_user_addr = Some (chars_of_bytes a)\<rparr>
   | _ \<Rightarrow> None)"

definition put_work_resp :: "new_work_conn_response \<Rightarrow> bytes" where
  "put_work_resp x = put_fields
     [as_bytes (wcr_proxy_name x), u64_to_be (wcr_conn_id x), put_bool (wcr_success x)]"
definition get_work_resp :: "bytes \<Rightarrow> new_work_conn_response option" where
  "get_work_resp b = (case get_fields [] b of
     [n, c, s] \<Rightarrow> Some \<lparr>wcr_proxy_name = chars_of_bytes n, wcr_conn_id = u64_from_be c, wcr_success = get_bool s\<rparr>
   | _ \<Rightarrow> None)"

fun put_ctrl :: "control_message \<Rightarrow> bytes" where
  "put_ctrl (Auth x) = 1 # put_auth x"
| "put_ctrl (AuthResp x) = 2 # put_auth_resp x"
| "put_ctrl (ServerAssignProxy x) = 3 # put_assign x"
| "put_ctrl (ServerCloseProxy x) = 4 # put_close x"
| "put_ctrl (NewWorkConn x) = 5 # put_work_req x"
| "put_ctrl (NewWorkConnResp x) = 6 # put_work_resp x"
| "put_ctrl Ping = [8]"
| "put_ctrl Pong = [9]"

definition get_ctrl :: "bytes \<Rightarrow> control_message option" where
  "get_ctrl b = (case b of [] \<Rightarrow> None | t # r \<Rightarrow>
     if t = 1 then map_option Auth (get_auth r)
     else if t = 2 then map_option AuthResp (get_auth_resp r)
     else if t = 3 then map_option ServerAssignProxy (get_assign r)
     else if t = 4 then map_option ServerCloseProxy (get_close r)
     else if t = 5 then map_option NewWorkConn (get_work_req r)
     else if t = 6 then map_option NewWorkConnResp (get_work_resp r)
     else if t = 8 then Some Ping
     else if t = 9 then Some Pong
     else None)"

definition sample_serde :: serde where
  "sample_serde =
     \<lparr>auth_to_vec = Some \<circ> put_auth, auth_from_slice = get_auth,
      auth_resp_to_vec = Some \<circ> put_auth_resp, auth_resp_from_slice = get_auth_resp,
      assign_to_vec = Some \<circ> put_assign, assign_from_slice = get_assign,
      close_to_vec = Some \<circ> put_close, close_from_slice = get_close,
      work_req_to_vec = Some \<circ> put_work_req, work_req_from_slice = get_work_req,
      work_resp_to_vec = Some \<circ> put_work_resp, work_resp_from_slice = get_work_resp,
      ctrl_to_string = Some \<circ> (chars_of_bytes \<circ> put_ctrl), ctrl_from_str = get_ctrl \<circ> as_bytes\<rparr>"

lemma get_put_structs [simp]:
  "get_auth (put_auth a) = Some a"
  "get_auth_resp (put_auth_resp r) = Some r"
  "get_assign (put_assign p) = Some p"
  "get_close (put_close c) = Some c"
  "get_work_req (put_work_req w) = Some w"
  "get_work_resp (put_work_resp v) = Some v"
  by (simp_all add: get_auth_def put_auth_def get_auth_resp_def put_auth_resp_def get_assign_def
      put_assign_def get_close_def put_close_def get_work_resp_def put_work_resp_def)
    (cases "wcq_user_addr w"; simp add: get_work_req_def put_work_req_def)

lemma get_put_ctrl [simp]: "get_ctrl (put_ctrl m) = Some m"
  by (cases m) (simp_all add: get_ctrl_def)

lemma sample_serde_roundtrip [simp]: "serde_roundtrip sample_serde"
  by (auto simp: serde_roundtrip_def sample_serde_def)

end
