(* ===== verification/Frame.thy ===== *)
theory Frame
  imports Message Serde_Instance
begin

text \<open>
  \<^verbatim>\<open>crates/proto/src/frame.rs\<close>: the length-delimited frame codec. A frame is a
  4-byte big-endian payload length, a type byte, two reserved zero bytes and the payload: JSON
  for control messages, binary for data messages. The encoder appends to its output buffer and
  the decoder returns its result together with what is left of the input buffer.
\<close>

section \<open>Message types and errors\<close>

datatype message_type =
    MtAuth | MtAuthResp | MtServerAssignProxy | MtServerCloseProxy
  | MtNewWorkConn | MtNewWorkConnResp | MtData | MtPing | MtPong

fun message_type_u8 :: "message_type \<Rightarrow> u8" where
  "message_type_u8 MtAuth = 1"
| "message_type_u8 MtAuthResp = 2"
| "message_type_u8 MtServerAssignProxy = 3"
| "message_type_u8 MtServerCloseProxy = 4"
| "message_type_u8 MtNewWorkConn = 5"
| "message_type_u8 MtNewWorkConnResp = 6"
| "message_type_u8 MtData = 7"
| "message_type_u8 MtPing = 8"
| "message_type_u8 MtPong = 9"

datatype frame_error = UnknownType u8 | SerializeError | FrameTooLarge nat

definition message_type_try_from :: "u8 \<Rightarrow> frame_error + message_type" where
  "message_type_try_from v =
     (if v = 1 then Inr MtAuth
      else if v = 2 then Inr MtAuthResp
      else if v = 3 then Inr MtServerAssignProxy
      else if v = 4 then Inr MtServerCloseProxy
      else if v = 5 then Inr MtNewWorkConn
      else if v = 6 then Inr MtNewWorkConnResp
      else if v = 7 then Inr MtData
      else if v = 8 then Inr MtPing
      else if v = 9 then Inr MtPong
      else Inl (UnknownType v))"

lemma try_from_u8 [simp, wire]: "message_type_try_from (message_type_u8 t) = Inr t"
  by (cases t) (simp_all add: message_type_try_from_def)

lemma try_from_Inr: "message_type_try_from v = Inr t \<Longrightarrow> v = message_type_u8 t"
  by (auto simp: message_type_try_from_def split: if_splits)

lemma try_from_Inl: "message_type_try_from v = Inl e \<Longrightarrow> e = UnknownType v"
  by (auto simp: message_type_try_from_def split: if_splits)

definition HEADER_SIZE :: nat where
  "HEADER_SIZE = 7"

definition MAX_FRAME_SIZE :: nat where
  "MAX_FRAME_SIZE = 64 * 1024 * 1024"

section \<open>Encoder\<close>

text \<open>
  The type and payload of a message. \<open>serde_json::to_vec\<close> may fail; \<^verbatim>\<open>Ping\<close> and
  \<^verbatim>\<open>Pong\<close> have no payload.
\<close>

fun message_payload :: "serde \<Rightarrow> message \<Rightarrow> frame_error + (message_type \<times> bytes)" where
  "message_payload J (Control (Auth req)) =
     (case auth_to_vec J req of None \<Rightarrow> Inl SerializeError | Some p \<Rightarrow> Inr (MtAuth, p))"
| "message_payload J (Control (AuthResp resp)) =
     (case auth_resp_to_vec J resp of None \<Rightarrow> Inl SerializeError | Some p \<Rightarrow> Inr (MtAuthResp, p))"
| "message_payload J (Control (ServerAssignProxy req)) =
     (case assign_to_vec J req of None \<Rightarrow> Inl SerializeError
      | Some p \<Rightarrow> Inr (MtServerAssignProxy, p))"
| "message_payload J (Control (ServerCloseProxy req)) =
     (case close_to_vec J req of None \<Rightarrow> Inl SerializeError
      | Some p \<Rightarrow> Inr (MtServerCloseProxy, p))"
| "message_payload J (Control (NewWorkConn req)) =
     (case work_req_to_vec J req of None \<Rightarrow> Inl SerializeError
      | Some p \<Rightarrow> Inr (MtNewWorkConn, p))"
| "message_payload J (Control (NewWorkConnResp resp)) =
     (case work_resp_to_vec J resp of None \<Rightarrow> Inl SerializeError
      | Some p \<Rightarrow> Inr (MtNewWorkConnResp, p))"
| "message_payload J (Control Ping) = Inr (MtPing, [])"
| "message_payload J (Control Pong) = Inr (MtPong, [])"
| "message_payload J (Data m) = Inr (MtData, data_encode m)"

text \<open>
  \<^verbatim>\<open>payload.len() as u32\<close> keeps the low 32 bits; the encoder makes no size check.
\<close>

definition put_frame :: "message_type \<Rightarrow> bytes \<Rightarrow> bytes \<Rightarrow> bytes" where
  "put_frame t payload dst =
     dst @ u32_to_be (of_nat (length payload)) @ [message_type_u8 t] @ [0, 0] @ payload"

definition encode :: "serde \<Rightarrow> message \<Rightarrow> bytes \<Rightarrow> frame_error + bytes" where
  "encode J item dst =
     (case message_payload J item of
        Inl e \<Rightarrow> Inl e
      | Inr (t, payload) \<Rightarrow> Inr (put_frame t payload dst))"

section \<open>Decoder\<close>

fun decode_payload :: "serde \<Rightarrow> message_type \<Rightarrow> bytes \<Rightarrow> frame_error + message option" where
  "decode_payload J MtAuth p =
     (case auth_from_slice J p of None \<Rightarrow> Inl SerializeError
      | Some x \<Rightarrow> Inr (Some (Control (Auth x))))"
| "decode_payload J MtAuthResp p =
     (case auth_resp_from_slice J p of None \<Rightarrow> Inl SerializeError
      | Some x \<Rightarrow> Inr (Some (Control (AuthResp x))))"
| "decode_payload J MtServerAssignProxy p =
     (case assign_from_slice J p of None \<Rightarrow> Inl SerializeError
      | Some x \<Rightarrow> Inr (Some (Control (ServerAssignProxy x))))"
| "decode_payload J MtServerCloseProxy p =
     (case close_from_slice J p of None \<Rightarrow> Inl SerializeError
      | Some x \<Rightarrow> Inr (Some (Control (ServerCloseProxy x))))"
| "decode_payload J MtNewWorkConn p =
     (case work_req_from_slice J p of None \<Rightarrow> Inl SerializeError
      | Some x \<Rightarrow> Inr (Some (Control (NewWorkConn x))))"
| "decode_payload J MtNewWorkConnResp p =
     (case work_resp_from_slice J p of None \<Rightarrow> Inl SerializeError
      | Some x \<Rightarrow> Inr (Some (Control (NewWorkConnResp x))))"
| "decode_payload J MtData p =
     (case data_decode p of Some m \<Rightarrow> Inr (Some (Data m)) | None \<Rightarrow> Inr None)"
| "decode_payload J MtPing p = Inr (Some (Control Ping))"
| "decode_payload J MtPong p = Inr (Some (Control Pong))"

text \<open>
  The result and the buffer after the call: untouched when more bytes are needed, on an oversized
  length and on an unknown type; advanced past the frame otherwise, also when the payload does
  not parse.
\<close>

definition decode :: "serde \<Rightarrow> bytes \<Rightarrow> (frame_error + message option) \<times> bytes" where
  "decode J src =
     (if length src < HEADER_SIZE then (Inr None, src)
      else
        let len = be_to_nat (take 4 src); msg_type_val = src ! 4
        in if len > MAX_FRAME_SIZE then (Inl (FrameTooLarge len), src)
           else if length src < HEADER_SIZE + len then (Inr None, src)
           else
             case message_type_try_from msg_type_val of
               Inl e \<Rightarrow> (Inl e, src)
             | Inr t \<Rightarrow>
                 (decode_payload J t (take len (drop HEADER_SIZE src)),
                  drop (HEADER_SIZE + len) src))"

section \<open>Lemmas\<close>

lemma put_frame_dst: "put_frame t p dst = dst @ put_frame t p []"
  by (simp add: put_frame_def)

lemma length_put_frame [simp, wire]: "length (put_frame t p []) = HEADER_SIZE + length p"
  by (simp add: put_frame_def HEADER_SIZE_def)

lemma unat_u32_length: "n \<le> MAX_FRAME_SIZE \<Longrightarrow> unat (of_nat n :: u32) = n"
  by (simp add: MAX_FRAME_SIZE_def unat_of_nat)

text \<open>The header of a frame as the decoder reads it.\<close>

lemma put_frame_take4: "take 4 (put_frame t p [] @ rest) = u32_to_be (of_nat (length p))"
  by (simp add: put_frame_def)

lemma put_frame_nth4: "(put_frame t p [] @ rest) ! 4 = message_type_u8 t"
  by (simp add: put_frame_def nth_append)

lemma put_frame_body: "drop HEADER_SIZE (put_frame t p [] @ rest) = p @ rest"
  by (simp add: put_frame_def HEADER_SIZE_def)

lemma decode_put_frame:
  assumes "length p \<le> MAX_FRAME_SIZE"
  shows "decode J (put_frame t p [] @ rest) = (decode_payload J t p, rest)"
proof -
  have "drop (HEADER_SIZE + length p) (put_frame t p [] @ rest) = rest"
    by (metis append_eq_conv_conj length_put_frame)
  moreover have "unat (of_nat (length p) :: u32) = length p"
    by (rule unat_u32_length) (fact assms)
  ultimately show ?thesis
    using assms
    unfolding decode_def put_frame_take4 put_frame_nth4 put_frame_body Let_def be_to_nat_u32
    by simp
qed

lemma decode_partial:
  "be_to_nat (take 4 src) \<le> MAX_FRAME_SIZE \<Longrightarrow>
   length src < HEADER_SIZE + be_to_nat (take 4 src) \<Longrightarrow> decode J src = (Inr None, src)"
  by (simp add: decode_def)

lemma decode_put_frame_partial:
  assumes "length p \<le> MAX_FRAME_SIZE" and "k < length (put_frame t p [])"
  shows "decode J (take k (put_frame t p [])) = (Inr None, take k (put_frame t p []))"
proof (cases "k < HEADER_SIZE")
  case True
  then show ?thesis by (simp add: decode_def)
next
  case False
  let ?b = "take k (put_frame t p [])"
  have len: "length ?b = k" using assms(2) by simp
  have "4 \<le> k" using False by (simp add: HEADER_SIZE_def)
  then have "take 4 ?b = u32_to_be (of_nat (length p))"
    using put_frame_take4 [of t p "[]"] by (simp add: min_def)
  then have "be_to_nat (take 4 ?b) = length p"
    by (simp add: unat_u32_length assms(1))
  moreover have "length ?b < HEADER_SIZE + length p"
    using assms(2) len by simp
  ultimately show ?thesis
    using assms(1) by (intro decode_partial) simp_all
qed

lemma decode_payload_message:
  assumes "serde_roundtrip J" and "message_payload J m = Inr (t, p)"
  shows "decode_payload J t p = Inr (Some m)"
  using assms(2) serde_roundtripD [OF assms(1)]
  by (cases "(J, m)" rule: message_payload.cases) (auto split: option.splits)

lemma encode_Inr:
  "encode J m dst = Inr out \<longleftrightarrow>
     (\<exists>t p. message_payload J m = Inr (t, p) \<and> out = dst @ put_frame t p [])"
  by (auto simp: encode_def put_frame_dst [of _ _ dst] split: sum.splits)

text \<open>What a call to the decoder does to the buffer.\<close>

lemma decode_cases:
  obtains (short) "length src < HEADER_SIZE" "decode J src = (Inr None, src)"
  | (large) "HEADER_SIZE \<le> length src" "be_to_nat (take 4 src) > MAX_FRAME_SIZE"
      "decode J src = (Inl (FrameTooLarge (be_to_nat (take 4 src))), src)"
  | (partial) "HEADER_SIZE \<le> length src" "be_to_nat (take 4 src) \<le> MAX_FRAME_SIZE"
      "length src < HEADER_SIZE + be_to_nat (take 4 src)" "decode J src = (Inr None, src)"
  | (unknown) "HEADER_SIZE + be_to_nat (take 4 src) \<le> length src"
      "be_to_nat (take 4 src) \<le> MAX_FRAME_SIZE"
      "message_type_try_from (src ! 4) = Inl (UnknownType (src ! 4))"
      "decode J src = (Inl (UnknownType (src ! 4)), src)"
  | (frame) t where "HEADER_SIZE + be_to_nat (take 4 src) \<le> length src"
      "be_to_nat (take 4 src) \<le> MAX_FRAME_SIZE"
      "message_type_try_from (src ! 4) = Inr t"
      "decode J src = (decode_payload J t (take (be_to_nat (take 4 src)) (drop HEADER_SIZE src)),
         drop (HEADER_SIZE + be_to_nat (take 4 src)) src)"
proof (cases "length src < HEADER_SIZE")
  case True
  then show ?thesis by (intro short) (simp_all add: decode_def)
next
  case False
  note hdr = False
  let ?len = "be_to_nat (take 4 src)"
  show ?thesis
  proof (cases "?len > MAX_FRAME_SIZE")
    case True
    with hdr show ?thesis by (intro large) (simp_all add: decode_def)
  next
    case False
    note fits = False
    show ?thesis
    proof (cases "length src < HEADER_SIZE + ?len")
      case True
      with hdr fits show ?thesis by (intro partial) (simp_all add: decode_def)
    next
      case False
      show ?thesis
      proof (cases "message_type_try_from (src ! 4)")
        case (Inl e)
        with hdr fits False try_from_Inl [OF Inl] show ?thesis
          by (intro unknown) (simp_all add: decode_def)
      next
        case (Inr t)
        with hdr fits False show ?thesis
          by (intro frame) (simp_all add: decode_def Let_def)
      qed
    qed
  qed
qed

section \<open>The framing interface\<close>

text \<open>
  What a reader of the byte stream relies on: the code of a valid message, followed by anything,
  decodes to that message and leaves the rest. A stream of such codes can then be read in one way
  only.
\<close>

locale framing =
  fixes enc :: "'m \<Rightarrow> bytes" and dec :: "bytes \<Rightarrow> 'r \<times> bytes"
    and item :: "'m \<Rightarrow> 'r" and valid :: "'m \<Rightarrow> bool"
  assumes dec_enc: "valid m \<Longrightarrow> dec (enc m @ rest) = (item m, rest)"
    and enc_nonempty: "valid m \<Longrightarrow> enc m \<noteq> []"
    and item_inj: "valid m \<Longrightarrow> valid m' \<Longrightarrow> item m = item m' \<Longrightarrow> m = m'"
begin

lemma front_unique:
  assumes "valid m" "valid m'" "enc m @ r = enc m' @ r'"
  shows "m = m' \<and> r = r'"
  using dec_enc [OF assms(1), of r] dec_enc [OF assms(2), of r'] assms item_inj by auto

lemma stream_unique:
  "\<forall>m \<in> set ms. valid m \<Longrightarrow> \<forall>m \<in> set ms'. valid m \<Longrightarrow>
   concat (map enc ms) = concat (map enc ms') \<Longrightarrow> ms = ms'"
proof (induction ms arbitrary: ms')
  case Nil
  then show ?case using enc_nonempty by (cases ms') auto
next
  case (Cons m ms)
  then show ?case
  proof (cases ms')
    case Nil
    with Cons.prems show ?thesis using enc_nonempty [of m] by simp
  next
    case (Cons m' tl')
    with Cons.prems have "enc m @ concat (map enc ms) = enc m' @ concat (map enc tl')"
      by simp
    moreover have "valid m" "valid m'" using Cons.prems Cons by simp_all
    ultimately have eq: "m = m'" "concat (map enc ms) = concat (map enc tl')"
      using front_unique by blast+
    have "ms = tl'" using Cons.prems Cons by (intro Cons.IH eq(2)) simp_all
    with eq(1) Cons show ?thesis by simp
  qed
qed

end

text \<open>The code of a message as one frame, and when the codec promises to carry it.\<close>

definition frame_of :: "serde \<Rightarrow> message \<Rightarrow> bytes" where
  "frame_of J m = (case encode J m [] of Inr f \<Rightarrow> f | Inl _ \<Rightarrow> [])"

definition sendable :: "serde \<Rightarrow> message \<Rightarrow> bool" where
  "sendable J m \<longleftrightarrow> serde_roundtrip J \<and>
     (case message_payload J m of Inl _ \<Rightarrow> False | Inr (t, p) \<Rightarrow> length p \<le> MAX_FRAME_SIZE)"

lemma sendableE:
  assumes "sendable J m"
  obtains t p where "message_payload J m = Inr (t, p)" "length p \<le> MAX_FRAME_SIZE"
    "frame_of J m = put_frame t p []" "decode_payload J t p = Inr (Some m)"
proof -
  from assms obtain t p where tp: "message_payload J m = Inr (t, p)" "length p \<le> MAX_FRAME_SIZE"
    by (auto simp: sendable_def split: sum.splits)
  moreover from assms tp(1) have "decode_payload J t p = Inr (Some m)"
    by (auto simp: sendable_def intro: decode_payload_message)
  ultimately show ?thesis
    by (intro that) (simp_all add: frame_of_def encode_def)
qed

interpretation codec: framing "frame_of J" "decode J" "\<lambda>m. Inr (Some m)" "sendable J" for J
proof
  fix m rest assume "sendable J m"
  then obtain t p where "length p \<le> MAX_FRAME_SIZE" "frame_of J m = put_frame t p []"
    "decode_payload J t p = Inr (Some m)" by (rule sendableE)
  then show "decode J (frame_of J m @ rest) = (Inr (Some m), rest)"
    by (simp add: decode_put_frame)
next
  fix m assume "sendable J m"
  then show "frame_of J m \<noteq> []"
    by (rule sendableE) (simp add: put_frame_def)
qed simp_all


section \<open>Properties\<close>

text \<open>
  C16. Round trip of the frame codec: a message that serialises into at most 64 MiB is appended to
  the output buffer as one frame, and the decoder, given that frame followed by any bytes, returns
  exactly that message and leaves exactly those bytes.
\<close>
theorem frame_roundtrip:
  assumes "serde_roundtrip J" and "message_payload J m = Inr (t, p)"
    and "length p \<le> MAX_FRAME_SIZE"
  shows "\<exists>f. encode J m dst = Inr (dst @ f) \<and> length f = HEADER_SIZE + length p \<and>
    (\<forall>rest. decode J (f @ rest) = (Inr (Some m), rest))"
proof (intro exI conjI allI)
  show "encode J m dst = Inr (dst @ put_frame t p [])"
    using assms(2) by (auto simp: encode_Inr)
  show "decode J (put_frame t p [] @ rest) = (Inr (Some m), rest)" for rest
    using assms by (simp add: decode_put_frame decode_payload_message)
qed simp

theorem frame_roundtrip_witness:
  "\<exists>f. encode sample_serde (Control (Auth \<lparr>ar_client_id = ''a'', ar_token = ''t'', ar_version = ''1''\<rparr>))
      [9] = Inr ([9] @ f) \<and>
    (\<forall>rest. decode sample_serde (f @ rest) =
      (Inr (Some (Control (Auth \<lparr>ar_client_id = ''a'', ar_token = ''t'', ar_version = ''1''\<rparr>))), rest))"
proof -
  let ?r = "\<lparr>ar_client_id = ''a'', ar_token = ''t'', ar_version = ''1''\<rparr>"
  have p: "message_payload sample_serde (Control (Auth ?r)) = Inr (MtAuth, put_auth ?r)"
    by (simp add: sample_serde_def)
  have l: "length (put_auth ?r) \<le> MAX_FRAME_SIZE"
    by (simp add: put_auth_def put_fields_def as_bytes_def MAX_FRAME_SIZE_def)
  show ?thesis
    using frame_roundtrip [OF sample_serde_roundtrip p l, of "[9]"] by blast
qed

text \<open>
  Incremental decoding: on any strict prefix of a frame of at most 64 MiB the decoder asks for
  more bytes and leaves the buffer as it was, so it does not matter how the network cuts a frame.
\<close>
theorem frame_incremental:
  assumes "encode J m [] = Inr f" and "length f \<le> HEADER_SIZE + MAX_FRAME_SIZE"
    and "k < length f"
  shows "decode J (take k f) = (Inr None, take k f)"
proof -
  from assms(1) obtain t p where "f = put_frame t p []" by (auto simp: encode_Inr)
  with assms(2,3) show ?thesis by (simp add: decode_put_frame_partial)
qed

theorem frame_incremental_witness:
  "decode sample_serde (take 5 [0, 0, 0, 0, 8, 0, 0]) = (Inr None, [0, 0, 0, 0, 8])"
proof -
  have e: "encode sample_serde (Control Ping) [] = Inr [0, 0, 0, 0, 8, 0, 0]"
    by (simp add: encode_def put_frame_def u32_to_be_def nat_to_be_numeral)
  show ?thesis
    using frame_incremental [OF e, of 5] by (simp add: HEADER_SIZE_def)
qed

text \<open>
  A byte stream has one reading: if two sequences of sendable messages have the same
  concatenated frames then they are the same sequence.
\<close>
theorem frame_stream_unique:
  assumes "\<forall>m \<in> set ms. sendable J m" and "\<forall>m \<in> set ms'. sendable J m"
  shows "concat (map (frame_of J) ms) = concat (map (frame_of J) ms') \<longleftrightarrow> ms = ms'"
  using codec.stream_unique [OF assms] by blast

theorem frame_stream_unique_witness:
  "concat (map (frame_of sample_serde) [Control Ping, Control Pong]) \<noteq>
   concat (map (frame_of sample_serde) [Control Pong, Control Ping])"
proof -
  have s: "\<forall>m \<in> set [Control Ping, Control Pong]. sendable sample_serde m"
    and s': "\<forall>m \<in> set [Control Pong, Control Ping]. sendable sample_serde m"
    by (simp_all add: sendable_def)
  show ?thesis
    unfolding frame_stream_unique [OF s s'] by simp
qed



text \<open>
  The encoder does not enforce the limit its peer enforces: a payload larger than 64 MiB (and
  below 4 GiB) is encoded without an error, and the decoder rejects exactly that frame as too
  large.
\<close>
theorem encode_oversized_rejected:
  assumes "MAX_FRAME_SIZE < 8 + length (dm_data d)" and "8 + length (dm_data d) < 2 ^ 32"
  shows "\<exists>f. encode J (Data d) dst = Inr (dst @ f) \<and>
    (\<forall>rest. decode J (f @ rest) = (Inl (FrameTooLarge (8 + length (dm_data d))), f @ rest))"
proof (intro exI conjI allI)
  let ?f = "put_frame MtData (data_encode d) []"
  show "encode J (Data d) dst = Inr (dst @ ?f)"
    by (auto simp: encode_Inr)
  fix rest
  have "be_to_nat (take 4 (?f @ rest)) = 8 + length (dm_data d)"
    using assms(2) unfolding put_frame_take4 be_to_nat_u32
    by (simp add: unat_of_nat mod_less del: of_nat_add of_nat_Suc)
  moreover have "\<not> length (?f @ rest) < HEADER_SIZE" by simp
  ultimately show "decode J (?f @ rest) = (Inl (FrameTooLarge (8 + length (dm_data d))), ?f @ rest)"
    using assms(1) unfolding decode_def Let_def by simp
qed

theorem encode_oversized_rejected_witness:
  "\<exists>f. encode sample_serde (Data \<lparr>dm_conn_id = 1, dm_data = replicate 67108864 0\<rparr>) [] = Inr ([] @ f) \<and>
    (\<forall>rest. decode sample_serde (f @ rest) = (Inl (FrameTooLarge 67108872), f @ rest))"
  using encode_oversized_rejected [of "\<lparr>dm_conn_id = 1, dm_data = replicate 67108864 0\<rparr>" sample_serde "[]"]
  by (simp add: MAX_FRAME_SIZE_def)

text \<open>
  A data frame whose payload is shorter than a connection id is consumed without a message and
  without an error: the decoder reports that it needs more bytes although it has advanced past the
  frame.
\<close>
theorem decode_short_data_swallowed:
  assumes "length p < 8"
  shows "decode J (put_frame MtData p [] @ rest) = (Inr None, rest)"
  using assms by (simp add: decode_put_frame MAX_FRAME_SIZE_def data_decode_def)

theorem decode_short_data_swallowed_witness:
  "decode sample_serde (put_frame MtData [1, 2] [] @ [3]) = (Inr None, [3])"
  by (rule decode_short_data_swallowed) simp

end
