(* ===== verification/Http_Host.thy ===== *)
theory Http_Host
  imports Text
begin

text \<open>
  \<^verbatim>\<open>extract_host_from_http\<close> of \<^verbatim>\<open>crates/server/src/proxy_listener.rs\<close>: the host
  name under which the shared HTTP port looks a rule up, read from the first bytes of a request.
\<close>

section \<open>Model\<close>

text \<open>The port is cut off: up to the closing bracket of an IPv6 literal, else before a colon.\<close>

definition host_without_port :: "string \<Rightarrow> string" where
  "host_without_port host =
     (if host \<noteq> [] \<and> hd host = CHR ''['' then
        (if CHR '']'' \<in> set host then takeWhile (\<lambda>c. c \<noteq> CHR '']'') host @ [CHR '']''] else host)
      else takeWhile (\<lambda>c. c \<noteq> CHR '':'') host)"

fun host_in_lines :: "string list \<Rightarrow> string option" where
  "host_in_lines [] = None"
| "host_in_lines (line # ls) =
     (case strip_prefix ''Host:'' line of
        Some host_value \<Rightarrow> Some (host_without_port (trim host_value))
      | None \<Rightarrow> if line = [] then None else host_in_lines ls)"

definition extract_host_from_http :: "bytes \<Rightarrow> string option" where
  "extract_host_from_http data =
     (case from_utf8 data of
        None \<Rightarrow> None
      | Some header \<Rightarrow> host_in_lines (str_lines header))"

section \<open>Lemmas\<close>

text \<open>A header line the scan passes over: not the blank line and not a \<^verbatim>\<open>Host:\<close> line.\<close>

definition passed_over :: "string \<Rightarrow> bool" where
  "passed_over l \<longleftrightarrow> l \<noteq> [] \<and> LF \<notin> set l \<and> \<not> prefix ''Host:'' l"

definition crlf :: "string \<Rightarrow> string" where
  "crlf l = l @ [CR, LF]"

lemma passed_over_step [simp]:
  "passed_over l \<Longrightarrow> host_in_lines (l # ls) = host_in_lines ls"
  by (simp add: passed_over_def strip_prefix_def)

lemma str_lines_crlf_append: "LF \<notin> set l \<Longrightarrow> str_lines (crlf l @ s) = l # str_lines s"
  by (simp add: crlf_def)

lemma passed_over_lines:
  "\<forall>l \<in> set ls. passed_over l \<Longrightarrow>
   host_in_lines (str_lines (concat (map crlf ls) @ s)) = host_in_lines (str_lines s)"
proof (induction ls)
  case (Cons l ls)
  then have "LF \<notin> set l" by (simp add: passed_over_def)
  with Cons show ?case by (simp add: str_lines_crlf_append del: host_in_lines.simps)
qed simp

text \<open>A host name as browsers send it: printable ASCII with no white space, colon or bracket.\<close>

definition plain_host :: "string \<Rightarrow> bool" where
  "plain_host h \<longleftrightarrow> h \<noteq> [] \<and>
     list_all (\<lambda>c. (32 :: nat) < of_char c \<and> of_char c < (127 :: nat) \<and> c \<noteq> CHR '':'' \<and> c \<noteq> CHR ''['') h"

text \<open>What may follow it: nothing, or a colon and a port.\<close>

definition port_suffix :: "string \<Rightarrow> bool" where
  "port_suffix p \<longleftrightarrow> p = [] \<or>
     (\<exists>ds. p = CHR '':'' # ds \<and> list_all (\<lambda>c. (48 :: nat) \<le> of_char c \<and> of_char c \<le> (57 :: nat)) ds)"

lemma plain_host_char:
  "plain_host h \<Longrightarrow> c \<in> set h \<Longrightarrow>
   (32 :: nat) < of_char c \<and> of_char c < (127 :: nat) \<and> c \<noteq> CHR '':'' \<and> c \<noteq> CHR ''[''"
  unfolding plain_host_def list_all_iff by blast

lemma port_suffix_char:
  assumes "port_suffix p" "c \<in> set p"
  shows "(32 :: nat) < of_char c \<and> of_char c < (127 :: nat)"
proof -
  from assms obtain ds where p: "p = CHR '':'' # ds"
    and ds: "\<forall>c \<in> set ds. (48 :: nat) \<le> of_char c \<and> of_char c \<le> (57 :: nat)"
    unfolding port_suffix_def list_all_iff by auto
  show ?thesis
  proof (cases "c = CHR '':''")
    case True
    then show ?thesis by simp
  next
    case False
    with p assms(2) have "c \<in> set ds" by simp
    with ds have "(48 :: nat) \<le> of_char c \<and> of_char c \<le> (57 :: nat)" by blast
    then show ?thesis by linarith
  qed
qed

lemma plain_host_chars:
  assumes "plain_host h" "port_suffix p" "c \<in> set (h @ p)"
  shows "(32 :: nat) < of_char c \<and> of_char c < (127 :: nat)"
  using assms plain_host_char port_suffix_char unfolding set_append by blast

lemma trim_plain:
  assumes "plain_host h" "port_suffix p"
  shows "trim (h @ p) = h @ p"
proof -
  have ne: "h @ p \<noteq> []" using assms(1) by (simp add: plain_host_def)
  then have "hd (h @ p) \<in> set (h @ p)" "hd (rev (h @ p)) \<in> set (h @ p)"
    using hd_in_set [of "h @ p"] hd_in_set [of "rev (h @ p)"] by auto
  then have "(32 :: nat) < of_char (hd (h @ p)) \<and> of_char (hd (h @ p)) < (127 :: nat)"
    and "(32 :: nat) < of_char (hd (rev (h @ p))) \<and> of_char (hd (rev (h @ p))) < (127 :: nat)"
    using plain_host_chars [OF assms] by blast+
  then have "trim_start (h @ p) = h @ p" "trim_end_rev (rev (h @ p)) = rev (h @ p)"
    by (intro trim_start_ascii trim_end_rev_ascii; linarith)+
  then show ?thesis by (simp add: trim_def)
qed

lemma host_without_port_plain:
  assumes "plain_host h" "port_suffix p"
  shows "host_without_port (h @ p) = h"
proof -
  have "h \<noteq> []" using assms(1) by (simp add: plain_host_def)
  moreover have "CHR '':'' \<notin> set h" using plain_host_char [OF assms(1)] by blast
  moreover have "hd h \<noteq> CHR ''[''"
    using plain_host_char [OF assms(1)] hd_in_set [OF \<open>h \<noteq> []\<close>] by blast
  moreover have "takeWhile (\<lambda>c. c \<noteq> CHR '':'') (h @ p) = h"
  proof -
    have "\<forall>c \<in> set h. c \<noteq> CHR '':''" using \<open>CHR '':'' \<notin> set h\<close> by blast
    moreover have "takeWhile (\<lambda>c. c \<noteq> CHR '':'') p = []"
      using assms(2) unfolding port_suffix_def by auto
    ultimately show ?thesis by (simp add: takeWhile_append2)
  qed
  ultimately show ?thesis by (simp add: host_without_port_def)
qed

section \<open>Properties\<close>

text \<open>
  Host routing finds the host: in a request of valid UTF-8 whose lines before the
  \<^verbatim>\<open>Host: \<close> line are neither blank nor \<^verbatim>\<open>Host:\<close> lines, the result is the host name
  without the port, whatever follows.
\<close>
theorem extract_host_finds_host:
  assumes "\<forall>l \<in> set ls. passed_over l" and "plain_host h" and "port_suffix p"
    and "from_utf8 data = Some (concat (map crlf ls) @ crlf (''Host: '' @ h @ p) @ rest)"
  shows "extract_host_from_http data = Some h"
proof -
  have lf: "LF \<notin> set (''Host: '' @ h @ p)"
    using plain_host_chars [OF assms(2,3), of LF] by auto
  have "host_in_lines (str_lines (concat (map crlf ls) @ crlf (''Host: '' @ h @ p) @ rest))
      = host_in_lines ((''Host: '' @ h @ p) # str_lines rest)"
    by (simp only: passed_over_lines [OF assms(1)] str_lines_crlf_append [OF lf])
  also have "\<dots> = Some (host_without_port (trim ('' '' @ h @ p)))"
    using strip_prefix_append [of "''Host:''" "'' '' @ h @ p"] by simp
  also have "trim ('' '' @ h @ p) = h @ p"
    using trim_plain [OF assms(2,3)] by (simp add: trim_def)
  finally show ?thesis
    using assms by (simp add: extract_host_from_http_def host_without_port_plain)
qed

definition sample_request :: string where
  "sample_request = crlf ''GET / HTTP/1.1'' @ crlf ''Host: example.com:8080'' @ crlf ''''"

theorem extract_host_finds_host_witness:
  "extract_host_from_http (as_bytes sample_request) = Some ''example.com''"
proof (rule extract_host_finds_host [of "[''GET / HTTP/1.1'']" _ "'':8080''" _ "crlf ''''"])
  show "\<forall>l \<in> set [''GET / HTTP/1.1'']. passed_over l"
    by (simp add: passed_over_def)
  show "plain_host ''example.com''"
    by (simp add: plain_host_def)
  show "port_suffix '':8080''"
    by (simp add: port_suffix_def)
  have "ascii sample_request"
    by (simp add: sample_request_def crlf_def ascii_def)
  then show "from_utf8 (as_bytes sample_request) =
      Some (concat (map crlf [''GET / HTTP/1.1'']) @ crlf (''Host: '' @ ''example.com'' @ '':8080'') @ crlf '''')"
    by (simp only: from_utf8_ascii) (simp add: sample_request_def)
qed

text \<open>
  The header name is matched by its exact spelling: a request all of whose header lines avoid
  the prefix \<^verbatim>\<open>Host:\<close>, for instance one that spells it \<^verbatim>\<open>host:\<close>, yields no
  host, although HTTP header names are case-insensitive.
\<close>
theorem extract_host_case_sensitive:
  assumes "passed_over req" and "LF \<notin> set v"
    and "from_utf8 data = Some (crlf req @ crlf (''host:'' @ v) @ crlf '''' @ rest)"
  shows "extract_host_from_http data = None"
proof -
  have l1: "LF \<notin> set req" using assms(1) by (simp add: passed_over_def)
  have l2: "LF \<notin> set (''host:'' @ v)" using assms(2) by simp
  have "str_lines (crlf req @ crlf (''host:'' @ v) @ crlf '''' @ rest)
      = req # (''host:'' @ v) # '''' # str_lines rest"
    by (simp only: str_lines_crlf_append [OF l1] str_lines_crlf_append [OF l2])
      (simp add: str_lines_crlf_append)
  then show ?thesis
    using assms by (simp add: extract_host_from_http_def strip_prefix_def passed_over_def)
qed

theorem extract_host_case_sensitive_witness:
  "extract_host_from_http
     (as_bytes (crlf ''GET / HTTP/1.1'' @ crlf ''host: example.com'' @ crlf '''')) = None"
proof (rule extract_host_case_sensitive [of "''GET / HTTP/1.1''" "'' example.com''" _ "[]"])
  have "ascii (crlf ''GET / HTTP/1.1'' @ crlf ''host: example.com'' @ crlf '''')"
    by (simp add: crlf_def ascii_def)
  then show "from_utf8 (as_bytes (crlf ''GET / HTTP/1.1'' @ crlf ''host: example.com'' @ crlf '''')) =
      Some (crlf ''GET / HTTP/1.1'' @ crlf (''host:'' @ '' example.com'') @ crlf '''' @ [])"
    by (simp only: from_utf8_ascii) simp
qed (simp_all add: passed_over_def)

text \<open>
  The whole peeked buffer must be UTF-8, not only the header: one byte above \<open>0xF4\<close>
  anywhere in it, for instance in a binary request body after a complete header with a host,
  makes the result empty and the connection is dropped.
\<close>
theorem extract_host_binary_body:
  assumes "244 < unat b"
  shows "extract_host_from_http (as_bytes header @ b # body) = None"
proof -
  have "utf8_decode (map unat (as_bytes header @ b # body)) = None"
    using utf8_decode_byte_bound [of "map unat (as_bytes header @ b # body)"] assms
    by (cases "utf8_decode (map unat (as_bytes header @ b # body))") auto
  then show ?thesis
    by (simp add: extract_host_from_http_def from_utf8_def)
qed

theorem extract_host_binary_body_witness:
  "extract_host_from_http (as_bytes sample_request) = Some ''example.com'' \<and>
   extract_host_from_http (as_bytes sample_request @ 255 # []) = None"
proof
  have "ascii sample_request"
    by (simp add: sample_request_def crlf_def ascii_def)
  then show "extract_host_from_http (as_bytes sample_request) = Some ''example.com''"
    by (simp only: extract_host_from_http_def from_utf8_ascii)
      (simp add: sample_request_def str_lines_crlf_append strip_prefix_def trim_def
        host_without_port_def trim_start_ascii trim_end_rev_ascii)
  show "extract_host_from_http (as_bytes sample_request @ 255 # []) = None"
    by (rule extract_host_binary_body) simp
qed

end
