(* ===== verification/Sni.thy ===== *)
theory Sni
  imports Text "HOL-Library.Monad_Syntax"
begin

text \<open>
  \<^verbatim>\<open>extract_sni_from_client_hello\<close> of \<^verbatim>\<open>crates/server/src/proxy_listener.rs\<close>: the
  server name under which the shared HTTPS port looks a rule up, read from the peeked bytes of a
  TLS ClientHello. Reading a buffer out of range panics in Rust, so the model runs in the option
  monad: \<open>None\<close> is a panic, \<open>Some None\<close> is the code's \<^verbatim>\<open>None\<close> and
  \<open>Some (Some h)\<close> its \<^verbatim>\<open>Some(h)\<close>.
\<close>

section \<open>Model\<close>

definition idx :: "bytes \<Rightarrow> nat \<Rightarrow> u8 option" where
  "idx data i = (if i < length data then Some (data ! i) else None)"

text \<open>\<^verbatim>\<open>u16::from_be_bytes([data[i], data[i + 1]]) as usize\<close>\<close>

definition read_u16 :: "bytes \<Rightarrow> nat \<Rightarrow> nat option" where
  "read_u16 data i =
     do { a \<leftarrow> idx data i; b \<leftarrow> idx data (i + 1); Some (be_to_nat [a, b]) }"

definition subslice :: "bytes \<Rightarrow> nat \<Rightarrow> nat \<Rightarrow> bytes option" where
  "subslice data i j = (if i \<le> j \<and> j \<le> length data then Some (take (j - i) (drop i data)) else None)"

text \<open>The body of the \<^verbatim>\<open>ext_type == 0x0000\<close> branch, at \<^verbatim>\<open>sni_list_offset\<close>.\<close>

definition sni_name :: "bytes \<Rightarrow> nat \<Rightarrow> string option option" where
  "sni_name data sni_list_offset =
     (if sni_list_offset + 3 > length data then Some None
      else do {
        _ \<leftarrow> read_u16 data sni_list_offset;
        name_type \<leftarrow> idx data (sni_list_offset + 2);
        if name_type \<noteq> 0 then Some None
        else
          let name_len_offset = sni_list_offset + 3 in
          if name_len_offset + 2 > length data then Some None
          else do {
            name_len \<leftarrow> read_u16 data name_len_offset;
            let name_start = name_len_offset + 2;
            if name_start + name_len > length data then Some None
            else do {
              bs \<leftarrow> subslice data name_start (name_start + name_len);
              Some (from_utf8 bs)
            }
          }
      })"

text \<open>The loop over the extensions; \<^verbatim>\<open>offset\<close> grows by at least four in each round.\<close>

function sni_scan :: "bytes \<Rightarrow> nat \<Rightarrow> nat \<Rightarrow> string option option" where
  "sni_scan data extensions_end offset =
     (if offset + 4 \<le> min extensions_end (length data) then
        (case (read_u16 data offset, read_u16 data (offset + 2)) of
           (Some ext_type, Some ext_len) \<Rightarrow>
             if ext_type = 0 then sni_name data (offset + 4)
             else sni_scan data extensions_end (offset + (4 + ext_len))
         | _ \<Rightarrow> None)
      else Some None)"
  by pat_completeness auto
termination
  by (relation "measure (\<lambda>(data, e, offset). length data - offset)") auto

declare sni_scan.simps [simp del]

definition extract_sni_from_client_hello :: "bytes \<Rightarrow> string option option" where
  "extract_sni_from_client_hello data =
     (if length data < 44 then Some None
      else do {
        content_type \<leftarrow> idx data 0;
        if content_type \<noteq> 22 then Some None
        else do {
          handshake_type \<leftarrow> idx data 5;
          if handshake_type \<noteq> 1 then Some None
          else
            case idx data 43 of
              None \<Rightarrow> Some None
            | Some sid \<Rightarrow>
                let session_id_len = unat sid; cipher_suites_offset = 44 + session_id_len in
                if cipher_suites_offset + 2 > length data then Some None
                else do {
                  cipher_suites_len \<leftarrow> read_u16 data cipher_suites_offset;
                  let compression_offset = cipher_suites_offset + 2 + cipher_suites_len;
                  if compression_offset + 2 > length data then Some None
                  else do {
                    comp \<leftarrow> idx data compression_offset;
                    let extensions_offset = compression_offset + 1 + unat comp;
                    if extensions_offset + 2 > length data then Some None
                    else do {
                      extensions_total_len \<leftarrow> read_u16 data extensions_offset;
                      let offset = extensions_offset + 2;
                      sni_scan data (offset + extensions_total_len) offset
                    }
                  }
                }
        }
      })"

lemma sni_scan_stop:
  "\<not> offset + 4 \<le> min e (length data) \<Longrightarrow> sni_scan data e offset = Some None"
  by (simp only: sni_scan.simps [of data e offset] if_False)

section \<open>Reading at a known position\<close>

named_theorems reads "reads of a buffer split at the position read"

lemma idx_in_range: "i < length data \<Longrightarrow> idx data i = Some (data ! i)"
  by (simp add: idx_def)

lemma idx_append [reads]: "length pre = n \<Longrightarrow> idx (pre @ x # r) n = Some x"
  by (auto simp: idx_def)

lemma read_u16_in_range: "i + 1 < length data \<Longrightarrow> \<exists>v. read_u16 data i = Some v"
  by (simp add: read_u16_def idx_in_range)

definition be16 :: "nat \<Rightarrow> bytes" where
  "be16 n = nat_to_be 2 n"

lemma length_be16 [simp]: "length (be16 n) = 2"
  by (simp add: be16_def)

lemma read_u16_be16 [reads]:
  assumes "length pre = n" "v < 65536"
  shows "read_u16 (pre @ be16 v @ r) n = Some v"
proof -
  obtain a b where ab: "be16 v = [a, b]"
    by (simp add: be16_def nat_to_be_numeral)
  have "be_to_nat [a, b] = v"
    using assms(2) be_to_nat_to_be [of 2 v] ab by (simp add: be16_def)
  moreover have "idx (pre @ [a, b] @ r) n = Some a" "idx (pre @ [a, b] @ r) (n + 1) = Some b"
    using idx_append [of pre n a "b # r"] idx_append [of "pre @ [a]" "n + 1" b r] assms(1)
    by simp_all
  ultimately show ?thesis by (simp add: read_u16_def ab)
qed

lemma subslice_append [reads]:
  "length pre = n \<Longrightarrow> length xs = k \<Longrightarrow> subslice (pre @ xs @ r) n (n + k) = Some xs"
  by (auto simp: subslice_def)

section \<open>No panic\<close>

lemma sni_name_total: "sni_name data i \<noteq> None"
proof (cases "i + 3 > length data")
  case True
  then show ?thesis by (simp add: sni_name_def)
next
  case False
  then obtain v w where "read_u16 data i = Some v" "idx data (i + 2) = Some w"
    using read_u16_in_range [of i data] idx_in_range [of "i + 2" data] by auto
  moreover have "i + 3 + 2 \<le> length data \<Longrightarrow> \<exists>n. read_u16 data (i + 3) = Some n"
    by (rule read_u16_in_range) simp
  ultimately show ?thesis
    using False by (auto simp: sni_name_def Let_def subslice_def not_less)
qed

lemma sni_scan_total: "sni_scan data e offset \<noteq> None"
proof (induction data e offset rule: sni_scan.induct)
  case (1 data e offset)
  show ?case
  proof (cases "offset + 4 \<le> min e (length data)")
    case True
    then obtain t l where "read_u16 data offset = Some t" "read_u16 data (offset + 2) = Some l"
      using read_u16_in_range [of offset data] read_u16_in_range [of "offset + 2" data] by auto
    with "1.IH" True sni_name_total show ?thesis
      by (subst sni_scan.simps) simp
  next
    case False
    then show ?thesis using sni_scan_stop by blast
  qed
qed

section \<open>ClientHello messages\<close>

text \<open>
  The layout of RFC 8446: record header, handshake header, version, random, session id, cipher
  suites, compression methods, extensions. Only the lengths matter to the scan.
\<close>

record client_hello =
  ch_record_header :: bytes
  ch_handshake_length :: bytes
  ch_version_random :: bytes
  ch_session_id :: bytes
  ch_cipher_suites :: bytes
  ch_compression :: bytes

definition wf_client_hello :: "client_hello \<Rightarrow> bool" where
  "wf_client_hello h \<longleftrightarrow>
     length (ch_record_header h) = 4 \<and> length (ch_handshake_length h) = 3 \<and>
     length (ch_version_random h) = 34 \<and> length (ch_session_id h) < 256 \<and>
     length (ch_cipher_suites h) < 65536 \<and> length (ch_compression h) < 256"

definition hello_bytes :: "client_hello \<Rightarrow> bytes" where
  "hello_bytes h =
     [22] @ ch_record_header h @ [1] @ ch_handshake_length h @ ch_version_random h @
     [of_nat (length (ch_session_id h))] @ ch_session_id h @
     be16 (length (ch_cipher_suites h)) @ ch_cipher_suites h @
     [of_nat (length (ch_compression h))] @ ch_compression h"

type_synonym extension = "nat \<times> bytes"

fun ext_bytes :: "extension \<Rightarrow> bytes" where
  "ext_bytes (t, b) = be16 t @ be16 (length b) @ b"

definition wf_ext :: "extension \<Rightarrow> bool" where
  "wf_ext e \<longleftrightarrow> fst e < 65536 \<and> length (snd e) < 65536"

text \<open>The body of a server_name extension with one host name.\<close>

definition sni_body :: "bytes \<Rightarrow> bytes" where
  "sni_body name = be16 (length name + 3) @ [0] @ be16 (length name) @ name"

section \<open>Scanning well-formed extensions\<close>

lemma sni_name_found:
  assumes "length pre = n" "length name < 65531"
  shows "sni_name (pre @ sni_body name @ r) n = Some (from_utf8 name)"
proof -
  let ?d = "pre @ sni_body name @ r"
  let ?l = "be16 (length name + 3)" and ?k = "be16 (length name)"
  have d1: "?d = pre @ ?l @ ([0] @ ?k @ name @ r)"
    and d2: "?d = (pre @ ?l) @ 0 # (?k @ name @ r)"
    and d3: "?d = (pre @ ?l @ [0]) @ ?k @ (name @ r)"
    and d4: "?d = (pre @ ?l @ [0] @ ?k) @ name @ r"
    by (simp_all add: sni_body_def)
  have "read_u16 ?d n = Some (length name + 3)"
    unfolding d1 by (rule read_u16_be16) (use assms in simp_all)
  moreover have "idx ?d (n + 2) = Some 0"
    unfolding d2 by (rule idx_append) (use assms in simp)
  moreover have "read_u16 ?d (n + 3) = Some (length name)"
    unfolding d3 by (rule read_u16_be16) (use assms in simp_all)
  moreover have "subslice ?d (n + 5) (n + 5 + length name) = Some name"
    unfolding d4 by (rule subslice_append) (use assms in simp_all)
  moreover have "length ?d = n + 5 + length name + length r"
    using assms by (simp add: sni_body_def)
  ultimately show ?thesis by (simp add: sni_name_def Let_def add.commute)
qed

text \<open>One extension header at a known position.\<close>

lemma ext_header:
  assumes "length pre = n" "wf_ext e"
  shows "read_u16 (pre @ ext_bytes e @ r) n = Some (fst e)"
    and "read_u16 (pre @ ext_bytes e @ r) (n + 2) = Some (length (snd e))"
proof -
  obtain t b where e: "e = (t, b)" by (cases e)
  have d1: "pre @ ext_bytes e @ r = pre @ be16 t @ (be16 (length b) @ b @ r)"
    and d2: "pre @ ext_bytes e @ r = (pre @ be16 t) @ be16 (length b) @ (b @ r)"
    by (simp_all add: e)
  show "read_u16 (pre @ ext_bytes e @ r) n = Some (fst e)"
    unfolding d1 by (rule read_u16_be16 [THEN trans]) (use assms in \<open>simp_all add: wf_ext_def e\<close>)
  show "read_u16 (pre @ ext_bytes e @ r) (n + 2) = Some (length (snd e))"
    unfolding d2 by (rule read_u16_be16 [THEN trans]) (use assms in \<open>simp_all add: wf_ext_def e\<close>)
qed

lemma length_ext_bytes [simp]: "length (ext_bytes e) = 4 + length (snd e)"
  by (cases e) simp

lemma sni_scan_skip:
  assumes "length pre = n" "wf_ext e" "fst e \<noteq> 0" "n + 4 \<le> en"
  shows "sni_scan (pre @ ext_bytes e @ r) en n =
    sni_scan (pre @ ext_bytes e @ r) en (n + length (ext_bytes e))"
  using ext_header [OF assms(1,2), of r] assms by (subst sni_scan.simps) simp

lemma sni_scan_skips:
  assumes "\<forall>e \<in> set es. wf_ext e \<and> fst e \<noteq> 0"
    and "length pre = n" and "n + length (concat (map ext_bytes es)) \<le> en"
  shows "sni_scan (pre @ concat (map ext_bytes es) @ r) en n =
    sni_scan (pre @ concat (map ext_bytes es) @ r) en (n + length (concat (map ext_bytes es)))"
  using assms
proof (induction es arbitrary: pre n)
  case Nil
  then show ?case by simp
next
  case (Cons e es)
  let ?tl = "concat (map ext_bytes es)"
  have "sni_scan (pre @ ext_bytes e @ (?tl @ r)) en n =
      sni_scan (pre @ ext_bytes e @ (?tl @ r)) en (n + length (ext_bytes e))"
    by (rule sni_scan_skip) (use Cons.prems in simp_all)
  also have "\<dots> = sni_scan ((pre @ ext_bytes e) @ ?tl @ r) en
      (n + length (ext_bytes e) + length ?tl)"
    using Cons.IH [of "pre @ ext_bytes e" "n + length (ext_bytes e)"] Cons.prems by simp
  finally show ?case by (simp add: add.assoc)
qed

lemma sni_scan_found:
  assumes "length pre = n" "length name < 65531" "n + 4 \<le> en"
  shows "sni_scan (pre @ ext_bytes (0, sni_body name) @ r) en n = Some (from_utf8 name)"
proof -
  have wf: "wf_ext (0, sni_body name)"
    using assms(2) by (simp add: wf_ext_def sni_body_def)
  have "sni_name ((pre @ be16 0 @ be16 (length (sni_body name))) @ sni_body name @ r) (n + 4) =
      Some (from_utf8 name)"
    by (rule sni_name_found) (use assms in simp_all)
  with ext_header [OF assms(1) wf, of r] assms show ?thesis
    by (subst sni_scan.simps) simp
qed

text \<open>The fixed part of the message, up to the extensions.\<close>

lemma extract_sni_steps:
  assumes "44 \<le> length d" "idx d 0 = Some 22" "idx d 5 = Some 1" "idx d 43 = Some sid"
    and "n2 = 44 + unat sid" "n2 + 2 \<le> length d" "read_u16 d n2 = Some cl"
    and "n3 = n2 + 2 + cl" "n3 + 2 \<le> length d" "idx d n3 = Some cm"
    and "n4 = n3 + 1 + unat cm" "n4 + 2 \<le> length d" "read_u16 d n4 = Some el"
  shows "extract_sni_from_client_hello d = sni_scan d (n4 + 2 + el) (n4 + 2)"
  using assms by (simp add: extract_sni_from_client_hello_def Let_def not_less)

lemma extract_sni_hello:
  assumes "wf_client_hello h" "extlen < 65536"
  shows "extract_sni_from_client_hello (hello_bytes h @ be16 extlen @ body) =
    (let n = length (hello_bytes h) + 2
     in sni_scan (hello_bytes h @ be16 extlen @ body) (n + extlen) n)"
proof -
  let ?d = "hello_bytes h @ be16 extlen @ body"
  define p0 where "p0 = [22] @ ch_record_header h"
  define p1 where "p1 = p0 @ [1] @ ch_handshake_length h @ ch_version_random h"
  define p2 where "p2 = p1 @ [of_nat (length (ch_session_id h))] @ ch_session_id h"
  define p3 where "p3 = p2 @ be16 (length (ch_cipher_suites h)) @ ch_cipher_suites h"
  define c where "c = [of_nat (length (ch_compression h))] @ ch_compression h"
  note defs = p0_def p1_def p2_def p3_def c_def
  have hb: "hello_bytes h = p3 @ c"
    by (simp add: hello_bytes_def defs)
  have wf: "length (ch_record_header h) = 4" "length (ch_handshake_length h) = 3"
      "length (ch_version_random h) = 34" "length (ch_session_id h) < 256"
      "length (ch_cipher_suites h) < 65536" "length (ch_compression h) < 256"
    using assms(1) by (simp_all add: wf_client_hello_def)
  have u8: "unat (of_nat k :: u8) = k" if "k < 256" for k
    using that by (simp add: unat_of_nat)
  have l0: "length p0 = 5" and l1: "length p1 = 43"
    and l2: "length p2 = 44 + length (ch_session_id h)"
    and l3: "length p3 = length p2 + 2 + length (ch_cipher_suites h)"
    and lh: "length (hello_bytes h) = length p3 + 1 + length (ch_compression h)"
    unfolding hb by (simp_all add: defs wf)
  have i0: "idx ?d 0 = Some 22"
    using idx_append [of "[]" 0 22] by (simp add: hb defs)
  have i5: "idx ?d 5 = Some 1"
    using idx_append [OF l0, of 1] by (simp add: hb p1_def p2_def p3_def)
  have i43: "idx ?d 43 = Some (of_nat (length (ch_session_id h)))"
    using idx_append [OF l1] by (simp add: hb p2_def p3_def)
  have rc: "read_u16 ?d (length p2) = Some (length (ch_cipher_suites h))"
    using read_u16_be16 [of p2, OF refl wf(5)] by (simp add: hb p3_def)
  have ic: "idx ?d (length p3) = Some (of_nat (length (ch_compression h)))"
    using idx_append [of p3, OF refl] by (simp add: hb c_def)
  have rt: "read_u16 ?d (length (hello_bytes h)) = Some extlen"
    by (rule read_u16_be16 [OF refl assms(2)])
  have ld: "length ?d = length (hello_bytes h) + 2 + length body" by simp
  have "extract_sni_from_client_hello ?d =
      sni_scan ?d (length (hello_bytes h) + 2 + extlen) (length (hello_bytes h) + 2)"
  proof (rule extract_sni_steps [OF _ i0 i5 i43 _ _ rc _ _ ic _ _ rt])
    show "length p2 = 44 + unat (of_nat (length (ch_session_id h)) :: u8)"
      using l2 u8 [OF wf(4)] by simp
    show "length (hello_bytes h) =
        length p3 + 1 + unat (of_nat (length (ch_compression h)) :: u8)"
      using lh u8 [OF wf(6)] by simp
  qed (use l2 l3 lh ld in linarith)+
  then show ?thesis by (simp only: Let_def)
qed

section \<open>Properties\<close>

text \<open>
  C22. The parser never panics: for every buffer, whatever its lengths claim, no read is out of
  range and a name or the absence of one is returned.
\<close>
theorem sni_never_panics: "\<exists>r. extract_sni_from_client_hello data = Some r"
proof (rule ccontr)
  assume panic: "\<nexists>r. extract_sni_from_client_hello data = Some r"
  have len: "44 \<le> length data"
    using panic by (auto simp: extract_sni_from_client_hello_def not_less [symmetric])
  then obtain sid where i43: "idx data 43 = Some sid" by (simp add: idx_def)
  have i0: "idx data 0 = Some 22"
    using panic len by (auto simp: extract_sni_from_client_hello_def idx_def split: if_splits)
  have i5: "idx data 5 = Some 1"
    using panic len i0 by (auto simp: extract_sni_from_client_hello_def idx_def split: if_splits)
  define n2 where "n2 = 44 + unat sid"
  note known = extract_sni_from_client_hello_def i0 i5 i43 Let_def
  have n2: "n2 + 2 \<le> length data"
  proof (rule ccontr)
    assume "\<not> n2 + 2 \<le> length data"
    then have "extract_sni_from_client_hello data = Some None"
      using len unfolding known n2_def by simp
    with panic show False by blast
  qed
  then obtain cl where cl: "read_u16 data n2 = Some cl"
    using read_u16_in_range [of n2 data] by auto
  define n3 where "n3 = n2 + 2 + cl"
  have n3: "n3 + 2 \<le> length data"
  proof (rule ccontr)
    assume "\<not> n3 + 2 \<le> length data"
    then have "extract_sni_from_client_hello data = Some None"
      using len n2 cl unfolding known n2_def n3_def by simp
    with panic show False by blast
  qed
  then obtain cm where cm: "idx data n3 = Some cm" by (simp add: idx_def)
  define n4 where "n4 = n3 + 1 + unat cm"
  have n4: "n4 + 2 \<le> length data"
  proof (rule ccontr)
    assume "\<not> n4 + 2 \<le> length data"
    then have "extract_sni_from_client_hello data = Some None"
      using len n2 n3 cl cm unfolding known n4_def n3_def n2_def by simp
    with panic show False by blast
  qed
  then obtain el where el: "read_u16 data n4 = Some el"
    using read_u16_in_range [of n4 data] by auto
  have "extract_sni_from_client_hello data = sni_scan data (n4 + 2 + el) (n4 + 2)"
    by (rule extract_sni_steps [OF len i0 i5 i43 n2_def n2 cl n3_def n3 cm n4_def n4 el])
  with panic sni_scan_total show False by fastforce
qed

text \<open>
  C21. The parser finds the server name of every well-formed ClientHello: with the extensions
  \<open>before\<close> (none of type 0), a server_name extension for \<open>name\<close>, and any bytes after it (more
  extensions, or a message cut off by the 4096-byte peek), the result is \<open>name\<close> read as UTF-8.
\<close>
theorem sni_finds_name:
  assumes "wf_client_hello h" and "\<forall>e \<in> set before. wf_ext e \<and> fst e \<noteq> 0"
    and "length name < 65531" and "extlen < 65536"
    and "length (concat (map ext_bytes before)) + 4 \<le> extlen"
  shows "extract_sni_from_client_hello
      (hello_bytes h @ be16 extlen @ concat (map ext_bytes before) @
       ext_bytes (0, sni_body name) @ rest) = Some (from_utf8 name)"
proof -
  let ?pre = "hello_bytes h @ be16 extlen" and ?mid = "concat (map ext_bytes before)"
  let ?n = "length ?pre"
  have "extract_sni_from_client_hello (?pre @ ?mid @ ext_bytes (0, sni_body name) @ rest)
      = sni_scan (?pre @ ?mid @ ext_bytes (0, sni_body name) @ rest) (?n + extlen) ?n"
    using extract_sni_hello [OF assms(1,4)] by (simp only: append_assoc Let_def length_append length_be16)
  also have "\<dots> = sni_scan (?pre @ ?mid @ ext_bytes (0, sni_body name) @ rest) (?n + extlen)
      (?n + length ?mid)"
    by (rule sni_scan_skips [OF assms(2) refl]) (use assms(5) in linarith)
  also have "\<dots> = Some (from_utf8 name)"
    using sni_scan_found [of "?pre @ ?mid" "?n + length ?mid" name "?n + extlen" rest] assms(3,5)
    by (simp add: append_assoc del: ext_bytes.simps)
  finally show ?thesis by (simp only: append_assoc)
qed

definition sample_hello :: client_hello where
  "sample_hello = \<lparr>ch_record_header = [3, 1, 0, 99], ch_handshake_length = [0, 0, 95],
     ch_version_random = replicate 34 7, ch_session_id = [], ch_cipher_suites = [19, 1],
     ch_compression = [0]\<rparr>"

theorem sni_finds_name_witness:
  "extract_sni_from_client_hello
     (hello_bytes sample_hello @ be16 24 @ concat (map ext_bytes [(43, [3, 4])]) @
      ext_bytes (0, sni_body (as_bytes ''a.example'')) @ []) = Some (Some ''a.example'')"
proof -
  have h: "wf_client_hello sample_hello"
    by (simp add: wf_client_hello_def sample_hello_def)
  have e: "\<forall>e \<in> set [(43, [3, 4]) :: extension]. wf_ext e \<and> fst e \<noteq> 0"
    by (simp add: wf_ext_def)
  have n: "length (as_bytes ''a.example'') < 65531" by simp
  have l: "length (concat (map ext_bytes [(43, [3, 4])])) + 4 \<le> 24" by simp
  have "from_utf8 (as_bytes ''a.example'') = Some ''a.example''"
    by (rule from_utf8_ascii) (simp add: ascii_def)
  moreover have k: "(24 :: nat) < 65536" by simp
  ultimately show ?thesis using sni_finds_name [OF h e n k l, of "[]"] by metis
qed

text \<open>
  A well-formed ClientHello with no server_name extension has no name, so the HTTPS listener
  closes the connection.
\<close>
theorem sni_absent:
  assumes "wf_client_hello h" and "\<forall>e \<in> set es. wf_ext e \<and> fst e \<noteq> 0"
    and "length (concat (map ext_bytes es)) < 65536"
  shows "extract_sni_from_client_hello
      (hello_bytes h @ be16 (length (concat (map ext_bytes es))) @ concat (map ext_bytes es)) =
    Some None"
proof -
  let ?mid = "concat (map ext_bytes es)"
  let ?pre = "hello_bytes h @ be16 (length ?mid)"
  let ?n = "length ?pre"
  have "extract_sni_from_client_hello (?pre @ ?mid) = sni_scan (?pre @ ?mid) (?n + length ?mid) ?n"
    using extract_sni_hello [OF assms(1,3)] by (simp only: append_assoc Let_def length_append length_be16)
  also have "\<dots> = sni_scan (?pre @ ?mid) (?n + length ?mid) (?n + length ?mid)"
    using sni_scan_skips [OF assms(2) refl, of ?pre "?n + length ?mid" "[]"] by simp
  also have "\<dots> = Some None"
    by (rule sni_scan_stop) simp
  finally show ?thesis by (simp only: append_assoc)
qed

theorem sni_absent_witness:
  "extract_sni_from_client_hello (hello_bytes sample_hello @ be16 6 @ ext_bytes (43, [3, 4])) =
    Some None"
proof -
  have "wf_client_hello sample_hello"
    by (simp add: wf_client_hello_def sample_hello_def)
  moreover have "\<forall>e \<in> set [(43, [3, 4]) :: extension]. wf_ext e \<and> fst e \<noteq> 0"
    by (simp add: wf_ext_def)
  ultimately show ?thesis
    using sni_absent [of sample_hello "[(43, [3, 4])]"] by simp
qed

end
