(* ===== verification/Config.thy ===== *)
theory Config
  imports Prelude
begin

text \<open>
  \<^verbatim>\<open>crates/core/src/config.rs\<close>: the configuration sections, the proxy rule and
  the proxy types. Rust's \<^verbatim>\<open>String\<close> is the list of its UTF-8 bytes, so a HOL
  \<open>string\<close> whose length is what \<^verbatim>\<open>len()\<close> returns. What the sections are read
  from is in \<^verbatim>\<open>Config_File\<close>.
\<close>

section \<open>Server and client configuration\<close>

record server_section =
  bind_addr :: string
  bind_port :: u16
  srv_token :: string
  http_port :: u16
  https_port :: u16

record web_section =
  web_enable :: bool
  web_bind_addr :: string
  web_bind_port :: u16
  web_user :: string
  web_password :: string
  jwt_secret :: string
  token_expire_hours :: u64
  cors_origins :: "string list"

record tls_section =
  auto_cert :: bool
  cert_file :: string
  key_file :: string

record server_config =
  cfg_server :: server_section
  cfg_web :: web_section
  cfg_tls :: tls_section

record client_section =
  cl_id :: string
  cl_server_addr :: string
  cl_server_port :: u16
  cl_token :: string
  cl_ca_cert :: string
  cl_server_name :: string

definition default_token_expire_hours :: u64 where
  "default_token_expire_hours = 24"

section \<open>Proxy rules\<close>

datatype proxy_type = Tcp | Udp | Http | Https

record proxy_rule =
  r_name :: string
  r_type :: proxy_type
  r_client_id :: string
  r_local_ip :: string
  r_local_port :: u16
  r_remote_port :: u16
  r_custom_domains :: "string list"
  r_proxy_protocol :: string

fun as_str :: "proxy_type \<Rightarrow> string" where
  "as_str Tcp = ''tcp''"
| "as_str Udp = ''udp''"
| "as_str Http = ''http''"
| "as_str Https = ''https''"

text \<open>
  \<^verbatim>\<open>parse_proxy_type\<close> of \<^verbatim>\<open>crates/core/src/proxy_manager.rs\<close>, which reads the
  database column: anything unknown is \<^verbatim>\<open>Tcp\<close>.
\<close>

definition parse_proxy_type :: "string \<Rightarrow> proxy_type" where
  "parse_proxy_type s =
     (if s = ''tcp'' then Tcp
      else if s = ''udp'' then Udp
      else if s = ''http'' then Http
      else if s = ''https'' then Https
      else Tcp)"

text \<open>
  The partial reading that the Web API uses
  (\<^verbatim>\<open>match payload.proxy_type.as_str()\<close> in \<^verbatim>\<open>create_proxy\<close>, and the closure in
  \<^verbatim>\<open>update_proxy\<close>).
\<close>

definition api_proxy_type :: "string \<Rightarrow> proxy_type option" where
  "api_proxy_type s =
     (if s = ''tcp'' then Some Tcp
      else if s = ''udp'' then Some Udp
      else if s = ''http'' then Some Http
      else if s = ''https'' then Some Https
      else None)"

fun stream_type :: "proxy_type \<Rightarrow> bool" where
  "stream_type Tcp = True"
| "stream_type Udp = True"
| "stream_type Http = False"
| "stream_type Https = False"

lemma parse_as_str [simp]: "parse_proxy_type (as_str t) = t"
  by (cases t) (simp_all add: parse_proxy_type_def)

lemma api_as_str [simp]: "api_proxy_type (as_str t) = Some t"
  by (cases t) (simp_all add: api_proxy_type_def)

lemma as_str_inj [simp]: "as_str t = as_str u \<longleftrightarrow> t = u"
  by (metis parse_as_str)

lemma api_proxy_type_Some: "api_proxy_type s = Some t \<longleftrightarrow> s = as_str t"
  by (cases t) (auto simp: api_proxy_type_def split: if_splits)

lemma api_parse_agree: "api_proxy_type s = Some t \<Longrightarrow> parse_proxy_type s = t"
  by (simp add: api_proxy_type_Some)

text \<open>
  The test \<^verbatim>\<open>t == "tcp" || t == "udp"\<close> of the API picks out the stream types.
\<close>

lemma tcp_udp_iff:
  "api_proxy_type s = Some t \<Longrightarrow> (s = ''tcp'' \<or> s = ''udp'') \<longleftrightarrow> stream_type t"
  by (cases t) (auto simp: api_proxy_type_Some)

end
