(* ===== verification/Rule_Store.thy ===== *)
theory Rule_Store
  imports Config
begin

text \<open>
  The contract of the rule table as its users see it: a finite-map specification of the three
  updates and the interface \<open>rule_store\<close> that an implementation is checked against. The user's
  theorems (a run of updates acts as the specification does, failed updates change nothing) are
  proved once in the interface.
\<close>

section \<open>Specification\<close>

datatype store_op = AddRule proxy_rule | UpdateRule string proxy_rule | RemoveRule string

type_synonym rule_map = "string \<Rightarrow> proxy_rule option"

text \<open>\<open>None\<close>: the update is refused. An update keeps the name it was addressed to.\<close>

fun spec_op :: "store_op \<Rightarrow> rule_map \<Rightarrow> rule_map option" where
  "spec_op (AddRule r) m = (if m (r_name r) = None then Some (m(r_name r \<mapsto> r)) else None)"
| "spec_op (UpdateRule n r) m = (if m n = None then None else Some (m(n \<mapsto> r\<lparr>r_name := n\<rparr>)))"
| "spec_op (RemoveRule n) m = (if m n = None then None else Some (m(n := None)))"

fun spec_run :: "store_op list \<Rightarrow> rule_map \<Rightarrow> bool list \<times> rule_map" where
  "spec_run [] m = ([], m)"
| "spec_run (x # xs) m =
     (case spec_op x m of
        None \<Rightarrow> let (bs, m') = spec_run xs m in (False # bs, m')
      | Some m1 \<Rightarrow> let (bs, m') = spec_run xs m1 in (True # bs, m'))"

text \<open>The same run over an implementation: a fault flag per update, success flags out.\<close>

fun exec_run ::
  "(bool \<Rightarrow> store_op \<Rightarrow> 's \<Rightarrow> bool \<times> 's) \<Rightarrow> (bool \<times> store_op) list \<Rightarrow> 's \<Rightarrow> bool list \<times> 's" where
  "exec_run ex [] s = ([], s)"
| "exec_run ex ((f, x) # xs) s =
     (let (b, s1) = ex f x s; (bs, s') = exec_run ex xs s1 in (b # bs, s'))"

text \<open>The names a stored rule is found under are the rule's own.\<close>

definition well_named :: "rule_map \<Rightarrow> bool" where
  "well_named m \<longleftrightarrow> (\<forall>n r. m n = Some r \<longrightarrow> r_name r = n)"

lemma spec_op_well_named: "well_named m \<Longrightarrow> spec_op x m = Some m' \<Longrightarrow> well_named m'"
  by (cases x) (auto simp: well_named_def split: if_splits)

section \<open>Interface\<close>

locale rule_store =
  fixes view :: "'s \<Rightarrow> rule_map"
    and ex :: "bool \<Rightarrow> store_op \<Rightarrow> 's \<Rightarrow> bool \<times> 's"
    and wf :: "'s \<Rightarrow> bool"
  assumes exec_ok: "wf s \<Longrightarrow> ex f x s = (True, t) \<Longrightarrow> spec_op x (view s) = Some (view t)"
    and exec_wf: "wf s \<Longrightarrow> ex f x s = (b, t) \<Longrightarrow> wf t"
    and exec_failed: "wf s \<Longrightarrow> ex f x s = (False, t) \<Longrightarrow> t = s"
    and exec_refused: "wf s \<Longrightarrow> ex False x s = (False, t) \<Longrightarrow> spec_op x (view s) = None"
begin

lemma run_refines:
  "wf s \<Longrightarrow> exec_run ex (map (Pair False) xs) s = (bs, t) \<Longrightarrow>
   wf t \<and> spec_run xs (view s) = (bs, view t)"
proof (induction xs arbitrary: s bs)
  case Nil
  then show ?case by simp
next
  case (Cons x xs)
  obtain b s1 where e: "ex False x s = (b, s1)" by (cases "ex False x s")
  with Cons.prems obtain bs1 where r: "exec_run ex (map (Pair False) xs) s1 = (bs1, t)"
    and bs: "bs = b # bs1"
    by (auto split: prod.splits)
  have "wf s1" using e Cons.prems(1) by (rule exec_wf [rotated])
  with r have ih: "wf t \<and> spec_run xs (view s1) = (bs1, view t)" by (intro Cons.IH)
  show ?case
  proof (cases b)
    case True
    with e Cons.prems(1) have "spec_op x (view s) = Some (view s1)" by (auto intro: exec_ok)
    with ih bs True show ?thesis by simp
  next
    case False
    with e have e: "ex False x s = (False, s1)" by simp
    have "s1 = s" by (rule exec_failed [OF Cons.prems(1) e])
    moreover have "spec_op x (view s) = None" by (rule exec_refused [OF Cons.prems(1) e])
    ultimately have "s1 = s" "spec_op x (view s) = None" .
    with ih bs False show ?thesis by simp
  qed
qed

lemma run_wf: "wf s \<Longrightarrow> exec_run ex xs s = (bs, t) \<Longrightarrow> wf t"
proof (induction xs arbitrary: s bs)
  case (Cons y xs)
  obtain f x where y: "y = (f, x)" by (cases y)
  obtain b s1 where e: "ex f x s = (b, s1)" by (cases "ex f x s")
  have "wf s1" using Cons.prems(1) e by (rule exec_wf)
  moreover obtain bs1 where "exec_run ex xs s1 = (bs1, t)"
    using Cons.prems(2) y e by (auto split: prod.splits)
  ultimately show ?case by (rule Cons.IH)
qed simp

text \<open>Adding a rule and removing it again gives the old view back.\<close>

lemma add_remove_view:
  assumes "wf s" "ex f (AddRule r) s = (True, s1)" "ex g (RemoveRule (r_name r)) s1 = (True, s2)"
  shows "view s2 = view s"
proof -
  have w: "wf s1" using assms(1,2) by (rule exec_wf)
  have "spec_op (AddRule r) (view s) = Some (view s1)"
    using assms(1,2) by (rule exec_ok)
  moreover have "spec_op (RemoveRule (r_name r)) (view s1) = Some (view s2)"
    using w assms(3) by (rule exec_ok)
  ultimately have "view s (r_name r) = None" "view s1 = (view s)(r_name r \<mapsto> r)"
    "view s2 = (view s1)(r_name r := None)"
    by (auto split: if_splits)
  then show ?thesis by (auto simp: fun_eq_iff)
qed

end

end
