(* ===== verification/Proxy_Manager.thy ===== *)
theory Proxy_Manager
  imports Rule_Store Serde_Instance
begin

text \<open>
  \<^verbatim>\<open>crates/core/src/proxy_manager.rs\<close>: the rule table in SQLite and the runtime state
  in memory. SQLite is a third-party engine; the statements the code sends it are modelled on a
  list of rows (in row order, \<^verbatim>\<open>name\<close> the primary key), and every call takes a flag
  that says whether the engine reports an error for it, so each \<^verbatim>\<open>map_err\<close> and
  \<^verbatim>\<open>unwrap_or_default\<close> branch is a branch here. The JSON text of a domain list is a
  parameter. Counters are \<^verbatim>\<open>u64\<close> and wrap as they do in a release build; bandwidths are
  \<^verbatim>\<open>f64\<close>, modelled as the exact quotient in \<open>real\<close> (rounding is not modelled).
\<close>

section \<open>Types\<close>

datatype proxy_status = Starting | Running | Stopping | Stopped | Error

fun status_string :: "proxy_status \<Rightarrow> string" where
  "status_string Starting = ''starting''"
| "status_string Running = ''running''"
| "status_string Stopping = ''stopping''"
| "status_string Stopped = ''stopped''"
| "status_string Error = ''error''"

record runtime_state =
  rs_status :: proxy_status
  rs_connections :: u64
  rs_bytes_in :: u64
  rs_bytes_out :: u64
  rs_last_sample_instant :: "instant option"
  rs_last_sample_bytes_in :: u64
  rs_last_sample_bytes_out :: u64
  rs_bandwidth_in :: real
  rs_bandwidth_out :: real

definition runtime_new :: runtime_state where
  "runtime_new =
     \<lparr>rs_status = Stopped, rs_connections = 0, rs_bytes_in = 0, rs_bytes_out = 0,
      rs_last_sample_instant = None, rs_last_sample_bytes_in = 0, rs_last_sample_bytes_out = 0,
      rs_bandwidth_in = 0, rs_bandwidth_out = 0\<rparr>"

record proxy_entry =
  pe_rule :: proxy_rule
  pe_status :: proxy_status
  pe_connections :: u64
  pe_bandwidth_in :: real
  pe_bandwidth_out :: real

record proxy_rule_row =
  row_name :: string
  row_proxy_type :: string
  row_client_id :: string
  row_local_ip :: string
  row_local_port :: u16
  row_remote_port :: u16
  row_custom_domains :: string
  row_proxy_protocol :: string

record proxy_manager =
  pool :: "proxy_rule_row list"
  runtime :: "string \<Rightarrow> runtime_state option"

text \<open>\<^verbatim>\<open>serde_json\<close> at \<^verbatim>\<open>Vec<String>\<close>, and what the table relies on.\<close>

record vec_json =
  vj_to_string :: "string list \<Rightarrow> string option"
  vj_from_str :: "string \<Rightarrow> string list option"

definition vec_json_ok :: "vec_json \<Rightarrow> bool" where
  "vec_json_ok V \<longleftrightarrow>
     (\<forall>ds. \<exists>s. vj_to_string V ds = Some s \<and> vj_from_str V s = Some ds)"

datatype pm_error =
    NameExists string
  | DbWriteFailed
  | DbDeleteFailed
  | DbUpdateFailed
  | RuleMissing
  | RuleNotFound string

section \<open>Rows and rules\<close>

definition domains_json :: "vec_json \<Rightarrow> string list \<Rightarrow> string" where
  "domains_json V ds = (case vj_to_string V ds of Some s \<Rightarrow> s | None \<Rightarrow> ''[]'')"

definition rule_of_row :: "vec_json \<Rightarrow> proxy_rule_row \<Rightarrow> proxy_rule" where
  "rule_of_row V row =
     \<lparr>r_name = row_name row,
      r_type = parse_proxy_type (row_proxy_type row),
      r_client_id = row_client_id row,
      r_local_ip = row_local_ip row,
      r_local_port = row_local_port row,
      r_remote_port = row_remote_port row,
      r_custom_domains =
        (case vj_from_str V (row_custom_domains row) of Some ds \<Rightarrow> ds | None \<Rightarrow> []),
      r_proxy_protocol = row_proxy_protocol row\<rparr>"

text \<open>The values bound to the \<^verbatim>\<open>INSERT\<close> statement.\<close>

definition row_of_rule :: "vec_json \<Rightarrow> proxy_rule \<Rightarrow> proxy_rule_row" where
  "row_of_rule V rule =
     \<lparr>row_name = r_name rule,
      row_proxy_type = as_str (r_type rule),
      row_client_id = r_client_id rule,
      row_local_ip = r_local_ip rule,
      row_local_port = r_local_port rule,
      row_remote_port = r_remote_port rule,
      row_custom_domains = domains_json V (r_custom_domains rule),
      row_proxy_protocol = r_proxy_protocol rule\<rparr>"

definition row_names :: "proxy_manager \<Rightarrow> string list" where
  "row_names pm = map row_name (pool pm)"

section \<open>Queries\<close>

definition query_rule :: "vec_json \<Rightarrow> bool \<Rightarrow> string \<Rightarrow> proxy_manager \<Rightarrow> proxy_rule option" where
  "query_rule V fault name pm =
     (if fault then None
      else map_option (rule_of_row V) (find (\<lambda>r. row_name r = name) (pool pm)))"

definition query_all_rules :: "vec_json \<Rightarrow> bool \<Rightarrow> proxy_manager \<Rightarrow> proxy_rule list" where
  "query_all_rules V fault pm = (if fault then [] else map (rule_of_row V) (pool pm))"

definition query_rules_by_client ::
  "vec_json \<Rightarrow> bool \<Rightarrow> string \<Rightarrow> proxy_manager \<Rightarrow> proxy_rule list" where
  "query_rules_by_client V fault client_id pm =
     (if fault then []
      else map (rule_of_row V) (filter (\<lambda>r. row_client_id r = client_id) (pool pm)))"

definition runtime_of :: "proxy_manager \<Rightarrow> string \<Rightarrow> runtime_state" where
  "runtime_of pm name = (case runtime pm name of Some rt \<Rightarrow> rt | None \<Rightarrow> runtime_new)"

definition entry_of :: "proxy_manager \<Rightarrow> proxy_rule \<Rightarrow> string \<Rightarrow> proxy_entry" where
  "entry_of pm rule name =
     (let rt = runtime_of pm name in
      \<lparr>pe_rule = rule, pe_status = rs_status rt, pe_connections = rs_connections rt,
       pe_bandwidth_in = rs_bandwidth_in rt, pe_bandwidth_out = rs_bandwidth_out rt\<rparr>)"

definition get_proxy :: "vec_json \<Rightarrow> bool \<Rightarrow> string \<Rightarrow> proxy_manager \<Rightarrow> proxy_entry option" where
  "get_proxy V fault name pm =
     map_option (\<lambda>rule. entry_of pm rule name) (query_rule V fault name pm)"

definition list_proxies :: "vec_json \<Rightarrow> bool \<Rightarrow> proxy_manager \<Rightarrow> proxy_entry list" where
  "list_proxies V fault pm =
     map (\<lambda>rule. entry_of pm rule (r_name rule)) (query_all_rules V fault pm)"

definition list_proxies_by_client ::
  "vec_json \<Rightarrow> bool \<Rightarrow> string \<Rightarrow> proxy_manager \<Rightarrow> proxy_entry list" where
  "list_proxies_by_client V fault client_id pm =
     map (\<lambda>rule. entry_of pm rule (r_name rule)) (query_rules_by_client V fault client_id pm)"

text \<open>\<^verbatim>\<open>SELECT DISTINCT\<close> promises no order; first occurrences in row order are taken.\<close>

definition list_client_ids :: "bool \<Rightarrow> proxy_manager \<Rightarrow> string list" where
  "list_client_ids fault pm = (if fault then [] else remdups (map row_client_id (pool pm)))"

section \<open>Updates of the table\<close>

definition add_proxy ::
  "vec_json \<Rightarrow> bool \<Rightarrow> proxy_rule \<Rightarrow> proxy_manager \<Rightarrow> (pm_error + unit) \<times> proxy_manager" where
  "add_proxy V fault rule pm =
     (if runtime pm (r_name rule) \<noteq> None then (Inl (NameExists (r_name rule)), pm)
      else if fault \<or> r_name rule \<in> set (row_names pm) then (Inl DbWriteFailed, pm)
      else (Inr (),
        pm\<lparr>pool := pool pm @ [row_of_rule V rule],
           runtime := (runtime pm)(r_name rule \<mapsto> runtime_new)\<rparr>))"

definition remove_proxy ::
  "vec_json \<Rightarrow> bool \<Rightarrow> bool \<Rightarrow> string \<Rightarrow> proxy_manager \<Rightarrow>
   (pm_error + proxy_rule) \<times> proxy_manager" where
  "remove_proxy V fault_query fault_delete name pm =
     (case query_rule V fault_query name pm of
        None \<Rightarrow> (Inl RuleMissing, pm)
      | Some rule \<Rightarrow>
          if fault_delete then (Inl DbDeleteFailed, pm)
          else (Inr rule,
            pm\<lparr>pool := filter (\<lambda>r. row_name r \<noteq> name) (pool pm),
               runtime := (runtime pm)(name := None)\<rparr>))"

text \<open>\<^verbatim>\<open>UPDATE ... SET\<close> every column but the name \<^verbatim>\<open>WHERE name = ?1\<close>.\<close>

definition update_row :: "vec_json \<Rightarrow> string \<Rightarrow> proxy_rule \<Rightarrow> proxy_rule_row \<Rightarrow> proxy_rule_row" where
  "update_row V name new_rule r =
     (if row_name r = name then (row_of_rule V new_rule)\<lparr>row_name := name\<rparr> else r)"

definition update_proxy ::
  "vec_json \<Rightarrow> bool \<Rightarrow> string \<Rightarrow> proxy_rule \<Rightarrow> proxy_manager \<Rightarrow>
   (pm_error + unit) \<times> proxy_manager" where
  "update_proxy V fault name new_rule pm =
     (if fault then (Inl DbUpdateFailed, pm)
      else
        let rows_affected = length (filter (\<lambda>r. row_name r = name) (pool pm)) in
        if rows_affected = 0 then (Inl (RuleNotFound name), pm)
        else (Inr (), pm\<lparr>pool := map (update_row V name new_rule) (pool pm)\<rparr>))"

section \<open>Updates of the runtime state\<close>

text \<open>\<^verbatim>\<open>if let Some(rt) = inner.get_mut(name)\<close>: an absent entry is left absent.\<close>

definition with_runtime ::
  "string \<Rightarrow> (runtime_state \<Rightarrow> runtime_state) \<Rightarrow> proxy_manager \<Rightarrow> proxy_manager" where
  "with_runtime name f pm =
     (case runtime pm name of
        Some rt \<Rightarrow> pm\<lparr>runtime := (runtime pm)(name \<mapsto> f rt)\<rparr>
      | None \<Rightarrow> pm)"

definition update_status :: "string \<Rightarrow> proxy_status \<Rightarrow> proxy_manager \<Rightarrow> proxy_manager" where
  "update_status name status = with_runtime name (\<lambda>rt. rt\<lparr>rs_status := status\<rparr>)"

definition inc_connections :: "string \<Rightarrow> proxy_manager \<Rightarrow> proxy_manager" where
  "inc_connections name = with_runtime name (\<lambda>rt. rt\<lparr>rs_connections := rs_connections rt + 1\<rparr>)"

definition dec_connections :: "string \<Rightarrow> proxy_manager \<Rightarrow> proxy_manager" where
  "dec_connections name =
     with_runtime name (\<lambda>rt. rt\<lparr>rs_connections := saturating_sub (rs_connections rt) 1\<rparr>)"

definition add_traffic :: "string \<Rightarrow> u64 \<Rightarrow> u64 \<Rightarrow> proxy_manager \<Rightarrow> proxy_manager" where
  "add_traffic name bytes_in bytes_out =
     with_runtime name (\<lambda>rt. rt\<lparr>rs_bytes_in := rs_bytes_in rt + bytes_in,
                                rs_bytes_out := rs_bytes_out rt + bytes_out\<rparr>)"

text \<open>\<^verbatim>\<open>delta as f64 / elapsed\<close>, the elapsed time given in nanoseconds.\<close>

definition rate :: "u64 \<Rightarrow> nat \<Rightarrow> real" where
  "rate delta elapsed = real (unat delta) / (real elapsed / real nanos_per_sec)"

definition sample_runtime :: "instant \<Rightarrow> runtime_state \<Rightarrow> runtime_state" where
  "sample_runtime now rt =
     (let rt' =
        (case rs_last_sample_instant rt of
           None \<Rightarrow> rt
         | Some last_instant \<Rightarrow>
             let elapsed = now - last_instant in
             if elapsed > 0 then
               let delta_in = saturating_sub (rs_bytes_in rt) (rs_last_sample_bytes_in rt);
                   delta_out = saturating_sub (rs_bytes_out rt) (rs_last_sample_bytes_out rt)
               in rt\<lparr>rs_bandwidth_in := rate delta_in elapsed,
                     rs_bandwidth_out := rate delta_out elapsed\<rparr>
             else rt)
      in rt'\<lparr>rs_last_sample_instant := Some now,
             rs_last_sample_bytes_in := rs_bytes_in rt',
             rs_last_sample_bytes_out := rs_bytes_out rt'\<rparr>)"

definition update_bandwidth :: "instant \<Rightarrow> proxy_manager \<Rightarrow> proxy_manager" where
  "update_bandwidth now pm =
     pm\<lparr>runtime := (\<lambda>n. map_option (sample_runtime now) (runtime pm n))\<rparr>"

definition load_rule :: "proxy_rule \<Rightarrow> proxy_manager \<Rightarrow> proxy_manager" where
  "load_rule rule pm =
     (if runtime pm (r_name rule) = None
      then pm\<lparr>runtime := (runtime pm)(r_name rule \<mapsto> runtime_new)\<rparr> else pm)"

definition load_from_db :: "vec_json \<Rightarrow> bool \<Rightarrow> proxy_manager \<Rightarrow> proxy_manager" where
  "load_from_db V fault pm = fold load_rule (query_all_rules V fault pm) pm"

text \<open>\<^verbatim>\<open>ProxyManager::open\<close> on a file that holds the given rows.\<close>

definition open_manager :: "proxy_rule_row list \<Rightarrow> proxy_manager" where
  "open_manager rows = \<lparr>pool = rows, runtime = (\<lambda>_. None)\<rparr>"

section \<open>Invariant and basic lemmas\<close>

text \<open>Names are unique in the table, and exactly the stored rules have a runtime state.\<close>

definition pm_inv :: "proxy_manager \<Rightarrow> bool" where
  "pm_inv pm \<longleftrightarrow> distinct (row_names pm) \<and> dom (runtime pm) = set (row_names pm)"

definition lookup_rule :: "vec_json \<Rightarrow> proxy_manager \<Rightarrow> string \<Rightarrow> proxy_rule option" where
  "lookup_rule V pm name = query_rule V False name pm"

lemma rule_of_row_of_rule [simp]:
  assumes "vec_json_ok V"
  shows "rule_of_row V (row_of_rule V rule) = rule"
proof -
  from assms obtain s where "vj_to_string V (r_custom_domains rule) = Some s"
    "vj_from_str V s = Some (r_custom_domains rule)"
    unfolding vec_json_ok_def by blast
  then show ?thesis
    by (cases rule) (simp add: rule_of_row_def row_of_rule_def domains_json_def)
qed

lemma names_of_rows [simp]: "row_name (row_of_rule V r) = r_name r" "r_name (rule_of_row V w) = row_name w"
  by (simp_all add: row_of_rule_def rule_of_row_def)

lemma find_append_none: "find P (xs @ ys) = (case find P xs of None \<Rightarrow> find P ys | Some x \<Rightarrow> Some x)"
  by (induction xs) auto

lemma find_filter_other: "find P (filter Q xs) = find (\<lambda>x. Q x \<and> P x) xs"
  by (induction xs) auto

lemma find_name_None: "find (\<lambda>r. row_name r = n) rows = None \<longleftrightarrow> n \<notin> row_name ` set rows"
  by (auto simp: find_None_iff)

lemma set_row_names: "set (row_names pm) = row_name ` set (pool pm)"
  by (simp add: row_names_def)

lemma lookup_rule_None: "lookup_rule V pm n = None \<longleftrightarrow> n \<notin> set (row_names pm)"
  by (simp add: lookup_rule_def query_rule_def find_name_None set_row_names)

lemma lookup_rule_name: "lookup_rule V pm n = Some r \<Longrightarrow> r_name r = n"
  by (auto simp: lookup_rule_def query_rule_def find_Some_iff)

lemma query_rule_lookup: "query_rule V fault n pm = (if fault then None else lookup_rule V pm n)"
  by (simp add: lookup_rule_def query_rule_def)

text \<open>The runtime updates leave the table and the set of registered names alone.\<close>

lemma with_runtime_frame [simp]:
  "pool (with_runtime n f pm) = pool pm" "dom (runtime (with_runtime n f pm)) = dom (runtime pm)"
  by (auto simp: with_runtime_def split: option.splits)

lemma runtime_updates_pool [simp]:
  "pool (update_status n s pm) = pool pm" "pool (inc_connections n pm) = pool pm"
  "pool (dec_connections n pm) = pool pm" "pool (add_traffic n i j pm) = pool pm"
  "pool (update_bandwidth t pm) = pool pm"
  by (simp_all add: update_status_def inc_connections_def dec_connections_def add_traffic_def
      update_bandwidth_def)

lemma runtime_updates_dom [simp]:
  "dom (runtime (update_status n s pm)) = dom (runtime pm)"
  "dom (runtime (inc_connections n pm)) = dom (runtime pm)"
  "dom (runtime (dec_connections n pm)) = dom (runtime pm)"
  "dom (runtime (add_traffic n i j pm)) = dom (runtime pm)"
  "dom (runtime (update_bandwidth t pm)) = dom (runtime pm)"
  by (simp_all only: update_status_def inc_connections_def dec_connections_def add_traffic_def
      with_runtime_frame)
    (auto simp: update_bandwidth_def dom_def)

lemma runtime_update_status:
  "runtime (update_status n s pm) m =
     (if m = n then map_option (\<lambda>rt. rt\<lparr>rs_status := s\<rparr>) (runtime pm n) else runtime pm m)"
  by (simp add: update_status_def with_runtime_def split: option.splits)

lemma row_names_pool: "pool pm = pool pm' \<Longrightarrow> row_names pm = row_names pm'"
  by (simp add: row_names_def)

lemma lookup_rule_pool: "pool pm = pool pm' \<Longrightarrow> lookup_rule V pm = lookup_rule V pm'"
  by (rule ext) (simp add: lookup_rule_def query_rule_def)

lemma pm_inv_runtime:
  "pool pm' = pool pm \<Longrightarrow> dom (runtime pm') = dom (runtime pm) \<Longrightarrow> pm_inv pm' \<longleftrightarrow> pm_inv pm"
  by (simp add: pm_inv_def row_names_def)

section \<open>Each table operation on the lookup function\<close>

lemma add_proxy_Inr:
  assumes "vec_json_ok V" "add_proxy V fault rule pm = (Inr u, pm')"
  shows "lookup_rule V pm' = (lookup_rule V pm)(r_name rule \<mapsto> rule)"
    and "pm_inv pm \<Longrightarrow> pm_inv pm'"
    and "runtime pm' = (runtime pm)(r_name rule \<mapsto> runtime_new)"
    and "lookup_rule V pm (r_name rule) = None"
proof -
  from assms(2) have new: "r_name rule \<notin> set (row_names pm)"
    and pm': "pm' = pm\<lparr>pool := pool pm @ [row_of_rule V rule],
           runtime := (runtime pm)(r_name rule \<mapsto> runtime_new)\<rparr>"
    by (auto simp: add_proxy_def split: if_splits)
  from new show none: "lookup_rule V pm (r_name rule) = None" by (simp add: lookup_rule_None)
  show "lookup_rule V pm' = (lookup_rule V pm)(r_name rule \<mapsto> rule)"
  proof (rule ext)
    fix n
    show "lookup_rule V pm' n = ((lookup_rule V pm)(r_name rule \<mapsto> rule)) n"
      using none assms(1)
      by (auto simp: pm' lookup_rule_def query_rule_def find_append_none split: option.splits)
  qed
  show "pm_inv pm \<Longrightarrow> pm_inv pm'"
    using new by (auto simp: pm_inv_def pm' row_names_def)
  show "runtime pm' = (runtime pm)(r_name rule \<mapsto> runtime_new)" by (simp add: pm')
qed

lemma add_proxy_Inl: "add_proxy V fault rule pm = (Inl e, pm') \<Longrightarrow> pm' = pm"
  by (auto simp: add_proxy_def split: if_splits)

lemma add_proxy_succeeds:
  "pm_inv pm \<Longrightarrow> lookup_rule V pm (r_name rule) = None \<Longrightarrow>
   \<exists>pm'. add_proxy V False rule pm = (Inr (), pm')"
  by (auto simp: add_proxy_def lookup_rule_None pm_inv_def dom_def)

lemma remove_proxy_Inr:
  assumes "remove_proxy V fq fd name pm = (Inr rule, pm')"
  shows "lookup_rule V pm' = (lookup_rule V pm)(name := None)"
    and "pm_inv pm \<Longrightarrow> pm_inv pm'"
    and "runtime pm' = (runtime pm)(name := None)"
    and "lookup_rule V pm name = Some rule"
proof -
  from assms show rule: "lookup_rule V pm name = Some rule"
    by (auto simp: remove_proxy_def query_rule_lookup split: option.splits if_splits)
  from assms have pm': "pm' = pm\<lparr>pool := filter (\<lambda>r. row_name r \<noteq> name) (pool pm),
               runtime := (runtime pm)(name := None)\<rparr>"
    by (auto simp: remove_proxy_def split: option.splits if_splits)
  show "lookup_rule V pm' = (lookup_rule V pm)(name := None)"
  proof (rule ext)
    fix n
    show "lookup_rule V pm' n = ((lookup_rule V pm)(name := None)) n"
      by (cases "n = name")
        (auto simp: pm' lookup_rule_def query_rule_def find_filter_other find_None_iff
          intro!: arg_cong [of _ _ "map_option _"] find_cong)
  qed
  show "pm_inv pm \<Longrightarrow> pm_inv pm'"
    by (auto simp: pm_inv_def pm' row_names_def distinct_map_filter)
  show "runtime pm' = (runtime pm)(name := None)" by (simp add: pm')
qed

lemma remove_proxy_Inl: "remove_proxy V fq fd name pm = (Inl e, pm') \<Longrightarrow> pm' = pm"
  by (auto simp: remove_proxy_def split: option.splits if_splits)

lemma remove_proxy_succeeds:
  "lookup_rule V pm name = Some rule \<Longrightarrow> \<exists>pm'. remove_proxy V False False name pm = (Inr rule, pm')"
  by (simp add: remove_proxy_def query_rule_lookup)

lemma update_row_name [simp]: "row_name (update_row V name r row) = row_name row"
  by (simp add: update_row_def)

lemma find_map_update_row:
  "find (\<lambda>r. row_name r = n) (map (update_row V name r) rows) =
     map_option (update_row V name r) (find (\<lambda>r. row_name r = n) rows)"
  by (induction rows) auto

lemma update_proxy_Inr:
  assumes "vec_json_ok V" "update_proxy V fault name rule pm = (Inr u, pm')"
  shows "lookup_rule V pm' = (lookup_rule V pm)(name \<mapsto> rule\<lparr>r_name := name\<rparr>)"
    and "pm_inv pm \<Longrightarrow> pm_inv pm'"
    and "runtime pm' = runtime pm"
    and "lookup_rule V pm name \<noteq> None"
proof -
  from assms(2) have pm': "pm' = pm\<lparr>pool := map (update_row V name rule) (pool pm)\<rparr>"
    and ne: "filter (\<lambda>r. row_name r = name) (pool pm) \<noteq> []"
    by (auto simp: update_proxy_def Let_def split: if_splits)
  from ne have "name \<in> set (row_names pm)"
    by (auto simp: set_row_names filter_empty_conv)
  then obtain row where row: "find (\<lambda>r. row_name r = name) (pool pm) = Some row"
    using find_name_None [of name "pool pm"] by (auto simp: set_row_names)
  then show "lookup_rule V pm name \<noteq> None"
    by (simp add: lookup_rule_def query_rule_def)
  have same: "rule_of_row V (update_row V name rule w) = rule\<lparr>r_name := name\<rparr>"
    if "row_name w = name" for w
  proof -
    have "row_of_rule V (rule\<lparr>r_name := name\<rparr>) = (row_of_rule V rule)\<lparr>row_name := name\<rparr>"
      by (simp add: row_of_rule_def)
    then show ?thesis
      using that rule_of_row_of_rule [OF assms(1), of "rule\<lparr>r_name := name\<rparr>"]
      by (simp add: update_row_def)
  qed
  show "lookup_rule V pm' = (lookup_rule V pm)(name \<mapsto> rule\<lparr>r_name := name\<rparr>)"
  proof (rule ext)
    fix n
    show "lookup_rule V pm' n = ((lookup_rule V pm)(name \<mapsto> rule\<lparr>r_name := name\<rparr>)) n"
    proof (cases "n = name")
      case True
      with row same show ?thesis
        by (auto simp: pm' lookup_rule_def query_rule_def find_map_update_row find_Some_iff)
    next
      case False
      have "update_row V name rule w = w" if "find (\<lambda>r. row_name r = n) (pool pm) = Some w" for w
        using that False by (auto simp: update_row_def find_Some_iff)
      with False show ?thesis
        by (cases "find (\<lambda>r. row_name r = n) (pool pm)")
          (simp_all add: pm' lookup_rule_def query_rule_def find_map_update_row)
    qed
  qed
  show "pm_inv pm \<Longrightarrow> pm_inv pm'"
    by (simp add: pm_inv_def pm' row_names_def comp_def)
  show "runtime pm' = runtime pm" by (simp add: pm')
qed

lemma update_proxy_Inl: "update_proxy V fault name rule pm = (Inl e, pm') \<Longrightarrow> pm' = pm"
  by (auto simp: update_proxy_def Let_def split: if_splits)

lemma update_proxy_succeeds:
  "lookup_rule V pm name \<noteq> None \<Longrightarrow> \<exists>pm'. update_proxy V False name rule pm = (Inr (), pm')"
  by (auto simp: update_proxy_def Let_def lookup_rule_None set_row_names filter_empty_conv)

section \<open>The manager implements the rule store\<close>

fun pm_exec :: "vec_json \<Rightarrow> bool \<Rightarrow> store_op \<Rightarrow> proxy_manager \<Rightarrow> bool \<times> proxy_manager" where
  "pm_exec V fault (AddRule rule) pm =
     (case add_proxy V fault rule pm of (Inr _, pm') \<Rightarrow> (True, pm') | (Inl _, pm') \<Rightarrow> (False, pm'))"
| "pm_exec V fault (UpdateRule name rule) pm =
     (case update_proxy V fault name rule pm of
        (Inr _, pm') \<Rightarrow> (True, pm') | (Inl _, pm') \<Rightarrow> (False, pm'))"
| "pm_exec V fault (RemoveRule name) pm =
     (case remove_proxy V fault fault name pm of
        (Inr _, pm') \<Rightarrow> (True, pm') | (Inl _, pm') \<Rightarrow> (False, pm'))"

interpretation pmstore: rule_store "lookup_rule V" "pm_exec V" "\<lambda>pm. vec_json_ok V \<and> pm_inv pm" for V
proof
  fix pm pm' x f
  assume wf: "vec_json_ok V \<and> pm_inv pm"
  then have V: "vec_json_ok V" and inv: "pm_inv pm" by blast+
  note Inr = add_proxy_Inr [OF V] update_proxy_Inr [OF V] remove_proxy_Inr
  show "pm_exec V f x pm = (True, pm') \<Longrightarrow> spec_op x (lookup_rule V pm) = Some (lookup_rule V pm')"
    by (cases x) (auto dest: Inr split: prod.splits sum.splits)
  show "pm_exec V f x pm = (b, pm') \<Longrightarrow> vec_json_ok V \<and> pm_inv pm'" for b
    using V inv
    by (cases x) (auto dest: Inr(2,6,10) add_proxy_Inl update_proxy_Inl remove_proxy_Inl
        split: prod.splits sum.splits)
  show "pm_exec V f x pm = (False, pm') \<Longrightarrow> pm' = pm"
    by (cases x) (auto dest: add_proxy_Inl update_proxy_Inl remove_proxy_Inl
        split: prod.splits sum.splits)
  show "pm_exec V False x pm = (False, pm') \<Longrightarrow> spec_op x (lookup_rule V pm) = None"
  proof (cases x)
    case (AddRule r)
    then show "pm_exec V False x pm = (False, pm') \<Longrightarrow> ?thesis"
      using add_proxy_succeeds [OF inv, of V r] by (auto split: prod.splits sum.splits)
  next
    case (UpdateRule n r)
    then show "pm_exec V False x pm = (False, pm') \<Longrightarrow> ?thesis"
      using update_proxy_succeeds [of V pm n r] by (cases "lookup_rule V pm n") auto
  next
    case (RemoveRule n)
    then show "pm_exec V False x pm = (False, pm') \<Longrightarrow> ?thesis"
      using remove_proxy_succeeds [of V pm n] by (cases "lookup_rule V pm n") auto
  qed
qed

section \<open>Restart\<close>

lemma load_rules:
  "pool (fold load_rule rules pm) = pool pm"
  "dom (runtime (fold load_rule rules pm)) = dom (runtime pm) \<union> r_name ` set rules"
  by (induction rules arbitrary: pm) (auto simp: load_rule_def)

lemma load_rules_fresh:
  assumes "\<forall>n rt. runtime pm n = Some rt \<longrightarrow> rt = runtime_new"
  shows "\<forall>n rt. runtime (fold load_rule rules pm) n = Some rt \<longrightarrow> rt = runtime_new"
  using assms
proof (induction rules arbitrary: pm)
  case (Cons r rules)
  then have "\<forall>n rt. runtime (load_rule r pm) n = Some rt \<longrightarrow> rt = runtime_new"
    by (simp add: load_rule_def)
  then show ?case using Cons.IH by simp
qed simp

lemma load_from_db_inv:
  assumes "distinct (row_names pm)" "dom (runtime pm) \<subseteq> set (row_names pm)"
  shows "pm_inv (load_from_db V False pm)"
  using assms
  by (auto simp: pm_inv_def load_from_db_def load_rules query_all_rules_def row_names_def image_image)

section \<open>Traffic and bandwidth\<close>

definition traffic_run :: "string \<Rightarrow> (u64 \<times> u64) list \<Rightarrow> proxy_manager \<Rightarrow> proxy_manager" where
  "traffic_run name xs = fold (\<lambda>(i, j). add_traffic name i j) xs"

abbreviation bytes_total :: "u64 list \<Rightarrow> nat" where
  "bytes_total xs \<equiv> sum_list (map unat xs)"

lemma unat_add_no_wrap: "unat (a :: u64) + unat b < 2 ^ 64 \<Longrightarrow> unat (a + b) = unat a + unat b"
  by (simp add: unat_word_ariths)

lemma traffic_run_runtime:
  "runtime pm name = Some rt \<Longrightarrow>
   unat (rs_bytes_in rt) + bytes_total (map fst xs) < 2 ^ 64 \<Longrightarrow>
   unat (rs_bytes_out rt) + bytes_total (map snd xs) < 2 ^ 64 \<Longrightarrow>
   \<exists>rt'. runtime (traffic_run name xs pm) name = Some rt' \<and>
     unat (rs_bytes_in rt') = unat (rs_bytes_in rt) + bytes_total (map fst xs) \<and>
     unat (rs_bytes_out rt') = unat (rs_bytes_out rt) + bytes_total (map snd xs) \<and>
     rs_last_sample_instant rt' = rs_last_sample_instant rt \<and>
     rs_last_sample_bytes_in rt' = rs_last_sample_bytes_in rt \<and>
     rs_last_sample_bytes_out rt' = rs_last_sample_bytes_out rt"
proof (induction xs arbitrary: pm rt)
  case Nil
  then show ?case by (simp add: traffic_run_def)
next
  case (Cons x xs)
  obtain i j where x: "x = (i, j)" by (cases x)
  let ?rt = "rt\<lparr>rs_bytes_in := rs_bytes_in rt + i, rs_bytes_out := rs_bytes_out rt + j\<rparr>"
  have r1: "runtime (add_traffic name i j pm) name = Some ?rt"
    using Cons.prems(1) by (simp add: add_traffic_def with_runtime_def)
  have b: "unat (rs_bytes_in ?rt) = unat (rs_bytes_in rt) + unat i"
    "unat (rs_bytes_out ?rt) = unat (rs_bytes_out rt) + unat j"
    using Cons.prems(2,3) x by (simp_all add: unat_add_no_wrap)
  have step: "traffic_run name (x # xs) pm = traffic_run name xs (add_traffic name i j pm)"
    by (simp add: traffic_run_def x)
  show ?case
    unfolding step using Cons.IH [OF r1] Cons.prems(2,3) b x by (simp add: add.assoc)
qed

section \<open>Properties\<close>

definition sample_vec_json :: vec_json where
  "sample_vec_json =
     \<lparr>vj_to_string = Some \<circ> (chars_of_bytes \<circ> put_strings),
      vj_from_str = Some \<circ> (get_strings \<circ> as_bytes)\<rparr>"

lemma sample_vec_json_ok [simp]: "vec_json_ok sample_vec_json"
  by (simp add: vec_json_ok_def sample_vec_json_def)

definition sample_rule :: "string \<Rightarrow> proxy_rule" where
  "sample_rule n =
     \<lparr>r_name = n, r_type = Tcp, r_client_id = ''c1'', r_local_ip = ''127.0.0.1'',
      r_local_port = 22, r_remote_port = 6000, r_custom_domains = [], r_proxy_protocol = []\<rparr>"

lemma pm_inv_open_empty [simp]: "pm_inv (open_manager [])"
  by (simp add: pm_inv_def open_manager_def row_names_def)

text \<open>
  The proxy manager refines a finite map: a sequence of add, update and remove calls on which
  the database reports no error answers success and failure exactly as the map specification
  does, and afterwards every name looks up to the rule the specification holds.
\<close>
theorem manager_refines_map:
  assumes "vec_json_ok V" and "pm_inv pm"
    and "exec_run (pm_exec V) (map (Pair False) ops) pm = (flags, pm')"
  shows "pm_inv pm' \<and> spec_run ops (lookup_rule V pm) = (flags, lookup_rule V pm')"
  using pmstore.run_refines [of V pm ops flags pm'] assms by simp

theorem manager_refines_map_witness:
  "\<exists>flags pm'. exec_run (pm_exec sample_vec_json)
       (map (Pair False) [AddRule (sample_rule ''a''), AddRule (sample_rule ''a'')])
       (open_manager []) = (flags, pm') \<and>
     pm_inv pm' \<and> flags = [True, False] \<and>
     lookup_rule sample_vec_json pm' ''a'' = Some (sample_rule ''a'')"
proof -
  let ?ops = "[AddRule (sample_rule ''a''), AddRule (sample_rule ''a'')]"
  obtain flags pm' where r: "exec_run (pm_exec sample_vec_json) (map (Pair False) ?ops)
      (open_manager []) = (flags, pm')"
    by fastforce
  have l: "lookup_rule sample_vec_json (open_manager []) = (\<lambda>_. None)"
    by (rule ext) (simp add: lookup_rule_None open_manager_def row_names_def)
  have sp: "spec_run ?ops (\<lambda>_. None) = ([True, False], [''a'' \<mapsto> sample_rule ''a''])"
    by (simp add: sample_rule_def)
  have "pm_inv pm' \<and> ([True, False], [''a'' \<mapsto> sample_rule ''a'']) =
      (flags, lookup_rule sample_vec_json pm')"
    using manager_refines_map [OF sample_vec_json_ok pm_inv_open_empty r] unfolding l sp .
  then have "pm_inv pm'" "flags = [True, False]"
    "lookup_rule sample_vec_json pm' ''a'' = Some (sample_rule ''a'')"
    by (simp, simp, metis prod.inject fun_upd_same)
  with r show ?thesis by blast
qed



text \<open>
  A restart loses no rule: reopening the database file of a running manager and loading it
  gives a manager with the same rules, the invariant, and every rule stopped with zero
  connections.
\<close>
theorem restart_keeps_rules:
  assumes "pm_inv pm"
  shows "lookup_rule V (load_from_db V False (open_manager (pool pm))) = lookup_rule V pm \<and>
    pm_inv (load_from_db V False (open_manager (pool pm))) \<and>
    (\<forall>name entry. get_proxy V False name (load_from_db V False (open_manager (pool pm))) = Some entry \<longrightarrow>
       pe_status entry = Stopped \<and> pe_connections entry = 0)"
proof (intro conjI allI impI)
  let ?pm = "load_from_db V False (open_manager (pool pm))"
  have pool: "pool ?pm = pool pm"
    by (simp add: load_from_db_def load_rules open_manager_def)
  then show "lookup_rule V ?pm = lookup_rule V pm" by (rule lookup_rule_pool)
  show "pm_inv ?pm"
    by (rule load_from_db_inv) (use assms in \<open>auto simp: pm_inv_def row_names_def open_manager_def\<close>)
  have "\<forall>n rt. runtime ?pm n = Some rt \<longrightarrow> rt = runtime_new"
    unfolding load_from_db_def by (rule load_rules_fresh) (simp add: open_manager_def)
  then have "runtime_of ?pm n = runtime_new" for n
    by (simp add: runtime_of_def split: option.splits)
  moreover fix name entry assume "get_proxy V False name ?pm = Some entry"
  ultimately show "pe_status entry = Stopped" "pe_connections entry = 0"
    by (auto simp: get_proxy_def entry_of_def runtime_new_def)
qed

theorem restart_keeps_rules_witness:
  "\<exists>pm. pm_inv pm \<and> lookup_rule sample_vec_json pm ''a'' = Some (sample_rule ''a'') \<and>
     lookup_rule sample_vec_json (load_from_db sample_vec_json False (open_manager (pool pm))) ''a''
       = Some (sample_rule ''a'')"
proof -
  let ?add = "add_proxy sample_vec_json False (sample_rule ''a'') (open_manager [])"
  have none: "lookup_rule sample_vec_json (open_manager []) (r_name (sample_rule ''a'')) = None"
    by (simp add: lookup_rule_None open_manager_def row_names_def)
  obtain pm where pm: "?add = (Inr (), pm)"
    using add_proxy_succeeds [OF pm_inv_open_empty none] by blast
  have inv: "pm_inv pm"
    using add_proxy_Inr(2) [OF sample_vec_json_ok pm] by simp
  have "lookup_rule sample_vec_json pm ''a'' = Some (sample_rule ''a'')"
    using add_proxy_Inr(1) [OF sample_vec_json_ok pm] by (simp add: sample_rule_def)
  with restart_keeps_rules [OF inv, of sample_vec_json] inv show ?thesis by metis
qed

text \<open>
  The bandwidth shown is the traffic divided by the time: after a sample at \<open>t0\<close>, traffic
  reports \<open>xs\<close> and a sample at \<open>t1\<close>, the rule shows the reported bytes per second between the two
  samples, as long as the 64-bit byte counters do not wrap.
\<close>
theorem bandwidth_is_rate:
  assumes "runtime pm name = Some rt" and "t0 < t1"
    and "unat (rs_bytes_in rt) + bytes_total (map fst xs) < 2 ^ 64"
    and "unat (rs_bytes_out rt) + bytes_total (map snd xs) < 2 ^ 64"
    and "pm' = update_bandwidth t1 (traffic_run name xs (update_bandwidth t0 pm))"
  shows "rs_bandwidth_in (runtime_of pm' name) =
      real (bytes_total (map fst xs)) * real nanos_per_sec / real (t1 - t0) \<and>
    rs_bandwidth_out (runtime_of pm' name) =
      real (bytes_total (map snd xs)) * real nanos_per_sec / real (t1 - t0)"
proof -
  let ?rt0 = "sample_runtime t0 rt"
  have r0: "runtime (update_bandwidth t0 pm) name = Some ?rt0"
    using assms(1) by (simp add: update_bandwidth_def)
  have s0: "rs_bytes_in ?rt0 = rs_bytes_in rt" "rs_bytes_out ?rt0 = rs_bytes_out rt"
    "rs_last_sample_instant ?rt0 = Some t0"
    "rs_last_sample_bytes_in ?rt0 = rs_bytes_in rt" "rs_last_sample_bytes_out ?rt0 = rs_bytes_out rt"
    by (simp_all add: sample_runtime_def Let_def split: option.splits)
  obtain rt1 where r1: "runtime (traffic_run name xs (update_bandwidth t0 pm)) name = Some rt1"
    and s1: "unat (rs_bytes_in rt1) = unat (rs_bytes_in rt) + bytes_total (map fst xs)"
      "unat (rs_bytes_out rt1) = unat (rs_bytes_out rt) + bytes_total (map snd xs)"
      "rs_last_sample_instant rt1 = Some t0"
      "rs_last_sample_bytes_in rt1 = rs_bytes_in rt" "rs_last_sample_bytes_out rt1 = rs_bytes_out rt"
    using traffic_run_runtime [OF r0, of xs] s0 assms(3,4) by auto
  have "runtime_of pm' name = sample_runtime t1 rt1"
    using r1 assms(5) by (simp add: runtime_of_def update_bandwidth_def)
  then have b: "rs_bandwidth_in (runtime_of pm' name) =
      rate (saturating_sub (rs_bytes_in rt1) (rs_bytes_in rt)) (t1 - t0)"
    "rs_bandwidth_out (runtime_of pm' name) =
      rate (saturating_sub (rs_bytes_out rt1) (rs_bytes_out rt)) (t1 - t0)"
    using s1 assms(2) by (simp_all add: sample_runtime_def Let_def)
  have "unat (saturating_sub (rs_bytes_in rt1) (rs_bytes_in rt)) = bytes_total (map fst xs)"
    "unat (saturating_sub (rs_bytes_out rt1) (rs_bytes_out rt)) = bytes_total (map snd xs)"
    using s1 by simp_all
  then show ?thesis
    unfolding b by (simp only: rate_def) simp
qed

theorem bandwidth_is_rate_witness:
  "rs_bandwidth_in (runtime_of (update_bandwidth 2000000005
     (traffic_run ''a'' [(100, 1), (300, 2)] (update_bandwidth 5
       \<lparr>pool = [], runtime = [''a'' \<mapsto> runtime_new]\<rparr>))) ''a'') = 200"
proof -
  have "runtime \<lparr>pool = [], runtime = [''a'' \<mapsto> runtime_new]\<rparr> ''a'' = Some runtime_new" by simp
  from bandwidth_is_rate [OF this, of 5 2000000005 "[(100, 1), (300, 2)]", OF _ _ _ refl]
  show ?thesis by (simp add: runtime_new_def)
qed

end
