(* ===== verification/App_State.thy ===== *)
theory App_State
  imports Proxy_Manager
begin

text \<open>
  \<^verbatim>\<open>crates/web/src/state.rs\<close>: the state the Web handlers share, the callbacks the server
  installs, and the login rate limiter. The callbacks are functions on the application state
  paired with an environment \<open>'e\<close> of the server (its sessions and listeners), \<open>None\<close> until
  they are set.
\<close>

section \<open>State\<close>

definition MAX_LOGIN_ATTEMPTS :: u32 where
  "MAX_LOGIN_ATTEMPTS = 5"

definition LOGIN_LOCKOUT_SECS :: nat where
  "LOGIN_LOCKOUT_SECS = 300"

record login_attempt =
  la_count :: u32
  la_window_start :: instant

type_synonym attempts = "string \<Rightarrow> login_attempt option"

record app_state =
  app_config :: server_config
  app_pm :: proxy_manager
  app_connected :: "string list"
  app_changes :: "string list"
  app_login_attempts :: attempts

text \<open>
  \<open>app_changes\<close> is what was sent on the broadcast channel. \<^verbatim>\<open>AppState::with_db\<close>
  on the rows of the database file.
\<close>

definition app_with_db :: "server_config \<Rightarrow> proxy_rule_row list \<Rightarrow> app_state" where
  "app_with_db cfg rows =
     \<lparr>app_config = cfg, app_pm = open_manager rows, app_connected = [], app_changes = [],
      app_login_attempts = (\<lambda>_. None)\<rparr>"

definition map_pm :: "(proxy_manager \<Rightarrow> proxy_manager) \<Rightarrow> app_state \<Rightarrow> app_state" where
  "map_pm f st = st\<lparr>app_pm := f (app_pm st)\<rparr>"

lemma map_pm_simps [simp]:
  "app_pm (map_pm f st) = f (app_pm st)" "app_config (map_pm f st) = app_config st"
  "app_connected (map_pm f st) = app_connected st"
  "app_login_attempts (map_pm f st) = app_login_attempts st"
  by (simp_all add: map_pm_def)

definition set_connected_clients :: "string list \<Rightarrow> app_state \<Rightarrow> app_state" where
  "set_connected_clients clients st =
     st\<lparr>app_connected := clients, app_changes := app_changes st @ [''change'']\<rparr>"

lemma set_connected_clients_simps [simp]:
  "app_pm (set_connected_clients c st) = app_pm st"
  "app_connected (set_connected_clients c st) = c"
  "app_config (set_connected_clients c st) = app_config st"
  "app_login_attempts (set_connected_clients c st) = app_login_attempts st"
  by (simp_all add: set_connected_clients_def)

section \<open>Callbacks\<close>

type_synonym 'e world = "app_state \<times> 'e"

record 'e callbacks =
  cb_notify_client :: "(string \<Rightarrow> string \<Rightarrow> 'e world \<Rightarrow> bool \<times> 'e world) option"
  cb_on_proxy_create :: "(proxy_rule \<Rightarrow> 'e world \<Rightarrow> 'e world) option"
  cb_on_proxy_delete :: "(proxy_rule \<Rightarrow> 'e world \<Rightarrow> 'e world) option"

definition notify_client ::
  "'e callbacks \<Rightarrow> string \<Rightarrow> string \<Rightarrow> 'e world \<Rightarrow> bool \<times> 'e world" where
  "notify_client C client_id message_json w =
     (case cb_notify_client C of
        Some f \<Rightarrow> f client_id message_json w
      | None \<Rightarrow> (False, w))"

definition on_proxy_create :: "'e callbacks \<Rightarrow> proxy_rule \<Rightarrow> 'e world \<Rightarrow> 'e world" where
  "on_proxy_create C rule w =
     (case cb_on_proxy_create C of Some f \<Rightarrow> f rule w | None \<Rightarrow> w)"

definition on_proxy_delete :: "'e callbacks \<Rightarrow> proxy_rule \<Rightarrow> 'e world \<Rightarrow> 'e world" where
  "on_proxy_delete C rule w =
     (case cb_on_proxy_delete C of Some f \<Rightarrow> f rule w | None \<Rightarrow> w)"

text \<open>
  The message that hands a rule to a client, and its JSON text; built in the same way by the two
  handlers that change a rule and after a client has logged in.
\<close>

definition assign_of_rule :: "proxy_rule \<Rightarrow> server_assign_proxy_request" where
  "assign_of_rule rule =
     \<lparr>sap_name = r_name rule, sap_proxy_type = as_str (r_type rule),
      sap_local_ip = r_local_ip rule, sap_local_port = r_local_port rule,
      sap_remote_port = r_remote_port rule, sap_custom_domains = r_custom_domains rule,
      sap_proxy_protocol = r_proxy_protocol rule\<rparr>"

definition to_string_or_default :: "serde \<Rightarrow> control_message \<Rightarrow> string" where
  "to_string_or_default J m = (case ctrl_to_string J m of Some s \<Rightarrow> s | None \<Rightarrow> [])"

section \<open>Login rate limit\<close>

text \<open>\<^verbatim>\<open>now\<close> is the clock read inside each call; \<open>as_secs\<close> truncates.\<close>

definition check_login_rate_limit ::
  "instant \<Rightarrow> string \<Rightarrow> attempts \<Rightarrow> bool \<times> attempts" where
  "check_login_rate_limit now username m =
     (case m username of
        None \<Rightarrow> (True, m)
      | Some attempt \<Rightarrow>
          let elapsed = now - la_window_start attempt in
          if la_count attempt \<ge> MAX_LOGIN_ATTEMPTS
             \<and> elapsed div nanos_per_sec > LOGIN_LOCKOUT_SECS then
            (True, m(username \<mapsto> attempt\<lparr>la_count := 0, la_window_start := now\<rparr>))
          else if la_count attempt \<ge> MAX_LOGIN_ATTEMPTS then (False, m)
          else (True, m))"

definition record_login_attempt ::
  "instant \<Rightarrow> string \<Rightarrow> bool \<Rightarrow> attempts \<Rightarrow> attempts" where
  "record_login_attempt now username success m =
     (if success then m(username := None)
      else
        let attempt = (case m username of
               Some a \<Rightarrow> a | None \<Rightarrow> \<lparr>la_count = 0, la_window_start = now\<rparr>)
        in m(username \<mapsto> attempt\<lparr>la_count := la_count attempt + 1\<rparr>))"

text \<open>
  Failures counted for a user, and the start of the window they are counted in.
\<close>

definition failures :: "attempts \<Rightarrow> string \<Rightarrow> nat" where
  "failures m u = (case m u of None \<Rightarrow> 0 | Some a \<Rightarrow> unat (la_count a))"

definition locked_out :: "instant \<Rightarrow> string \<Rightarrow> attempts \<Rightarrow> bool" where
  "locked_out now u m \<longleftrightarrow>
     (\<exists>a. m u = Some a \<and> 5 \<le> unat (la_count a) \<and>
       (now - la_window_start a) div nanos_per_sec \<le> 300)"

text \<open>Every counted user has at most five failures.\<close>

definition limiter_inv :: "attempts \<Rightarrow> bool" where
  "limiter_inv m \<longleftrightarrow> (\<forall>u. failures m u \<le> 5)"

lemma max_attempts_le: "MAX_LOGIN_ATTEMPTS \<le> c \<longleftrightarrow> 5 \<le> unat c"
  by (simp add: MAX_LOGIN_ATTEMPTS_def word_le_nat_alt)

lemma check_denied_iff: "fst (check_login_rate_limit now u m) \<longleftrightarrow> \<not> locked_out now u m"
  by (auto simp: check_login_rate_limit_def locked_out_def max_attempts_le LOGIN_LOCKOUT_SECS_def
      Let_def split: option.splits)

lemma check_denied_same: "check_login_rate_limit now u m = (False, m') \<Longrightarrow> m' = m"
  by (auto simp: check_login_rate_limit_def Let_def split: option.splits if_splits)

text \<open>After a check that lets the attempt pass, fewer than five failures are counted.\<close>

lemma check_allowed:
  assumes "check_login_rate_limit now u m = (True, m')"
  shows "failures m' u < 5"
    and "failures m u < 5 \<Longrightarrow> m' = m"
    and "v \<noteq> u \<Longrightarrow> m' v = m v"
  using assms
  by (auto simp: check_login_rate_limit_def failures_def max_attempts_le Let_def
      split: option.splits if_splits)

lemma record_failure_no_wrap:
  assumes "Suc (failures m u) < 2 ^ 32"
  shows "failures (record_login_attempt now u False m) u = Suc (failures m u)"
proof -
  have "unat (c + 1) = Suc (unat c)" if "Suc (unat c) < 2 ^ 32" for c :: u32
    using that by (simp add: unat_word_ariths)
  with assms show ?thesis
    by (auto simp: failures_def record_login_attempt_def Let_def split: option.splits)
qed

lemma record_failure:
  "failures m u < 5 \<Longrightarrow>
   failures (record_login_attempt now u False m) u = Suc (failures m u)"
  by (rule record_failure_no_wrap) simp

lemma record_failure_window:
  "map_option la_window_start (record_login_attempt now u False m u) =
     Some (case m u of Some a \<Rightarrow> la_window_start a | None \<Rightarrow> now)"
  by (simp add: record_login_attempt_def Let_def split: option.splits)

lemma record_success [simp]: "record_login_attempt now u True m = m(u := None)"
  by (simp add: record_login_attempt_def)

lemma record_other [simp]: "v \<noteq> u \<Longrightarrow> record_login_attempt now u ok m v = m v"
  by (simp add: record_login_attempt_def Let_def)

lemma failures_other: "m v = m' v \<Longrightarrow> failures m v = failures m' v"
  by (simp add: failures_def)

lemma limiter_inv_check:
  assumes "limiter_inv m" "check_login_rate_limit now u m = (b, m')"
  shows "limiter_inv m'"
  unfolding limiter_inv_def
proof
  fix v
  show "failures m' v \<le> 5"
  proof (cases b)
    case True
    with assms check_allowed [of now u m m'] show ?thesis
      by (cases "v = u") (auto simp: limiter_inv_def failures_def)
  next
    case False
    with assms(2) have "m' = m" by (auto dest: check_denied_same)
    with assms(1) show ?thesis by (simp add: limiter_inv_def)
  qed
qed

lemma limiter_inv_record:
  assumes "limiter_inv m" "failures m u < 5"
  shows "limiter_inv (record_login_attempt now u ok m)"
  unfolding limiter_inv_def
proof
  fix v
  show "failures (record_login_attempt now u ok m) v \<le> 5"
  proof (cases "v = u")
    case True
    with record_failure [OF assms(2), of now] assms(2) show ?thesis
      by (cases ok) (simp_all add: failures_def)
  next
    case False
    then have "failures (record_login_attempt now u ok m) v = failures m v"
      by (intro failures_other) simp
    with assms(1) show ?thesis by (simp add: limiter_inv_def)
  qed
qed

text \<open>A concrete configuration, for the witnesses.\<close>

definition sample_config :: "string \<Rightarrow> string \<Rightarrow> server_config" where
  "sample_config user password =
     \<lparr>cfg_server = \<lparr>bind_addr = ''0.0.0.0'', bind_port = 7000, srv_token = ''token'',
        http_port = 0, https_port = 0\<rparr>,
      cfg_web = \<lparr>web_enable = True, web_bind_addr = ''127.0.0.1'', web_bind_port = 7500,
        web_user = user, web_password = password, jwt_secret = ''secret'',
        token_expire_hours = default_token_expire_hours, cors_origins = []\<rparr>,
      cfg_tls = \<lparr>auto_cert = True, cert_file = [], key_file = []\<rparr>\<rparr>"

end
