(* ===== verification/Session.thy ===== *)
theory Session
  imports App_State "HOL-Library.AList"
begin

text \<open>
  \<^verbatim>\<open>crates/server/src/client_session.rs\<close> and \<^verbatim>\<open>tunnel.rs\<close>: the first message of a
  tunnel connection, authentication, the session table, and the message loop of a client with its
  heartbeat. A channel is known by a number; its sender lives in the session table only, its receiver
  in the handler that created it. Every method of the session manager is one step here, and a send
  always finds room; theory Session_Locks splits the methods at their awaits.
\<close>

section \<open>Session table\<close>

text \<open>
  \<open>sm_inner\<close> is the hash map from client id to the sender (its keys are distinct; their order
  is unspecified in Rust), \<open>sm_queue\<close> the contents of the channels, \<open>sm_alive\<close> the channels whose
  receiver exists.
\<close>

record session_manager =
  sm_inner :: "(string \<times> nat) list"
  sm_queue :: "nat \<Rightarrow> message list"
  sm_alive :: "nat set"

definition session_manager_new :: session_manager where
  "session_manager_new = \<lparr>sm_inner = [], sm_queue = (\<lambda>_. []), sm_alive = {}\<rparr>"

text \<open>\<^verbatim>\<open>tx.send(msg).await\<close>: an error if the receiver is gone.\<close>

definition chan_send :: "nat \<Rightarrow> message \<Rightarrow> session_manager \<Rightarrow> bool \<times> session_manager" where
  "chan_send ch msg sm =
     (if ch \<in> sm_alive sm then (True, sm\<lparr>sm_queue := (sm_queue sm)(ch := sm_queue sm ch @ [msg])\<rparr>)
      else (False, sm))"

definition register :: "string \<Rightarrow> nat \<Rightarrow> session_manager \<Rightarrow> session_manager" where
  "register client_id tx sm =
     (let sm = (case map_of (sm_inner sm) client_id of
            Some old \<Rightarrow>
              snd (chan_send old (Control Ping)
                (sm\<lparr>sm_inner := AList.delete client_id (sm_inner sm)\<rparr>))
          | None \<Rightarrow> sm)
      in sm\<lparr>sm_inner := AList.update client_id tx (sm_inner sm)\<rparr>)"

definition unregister :: "string \<Rightarrow> session_manager \<Rightarrow> session_manager" where
  "unregister client_id sm = sm\<lparr>sm_inner := AList.delete client_id (sm_inner sm)\<rparr>"

definition send_to :: "string \<Rightarrow> message \<Rightarrow> session_manager \<Rightarrow> bool \<times> session_manager" where
  "send_to client_id msg sm =
     (case map_of (sm_inner sm) client_id of
        Some tx \<Rightarrow> chan_send tx msg sm
      | None \<Rightarrow> (False, sm))"

definition connected_clients :: "session_manager \<Rightarrow> string list" where
  "connected_clients sm = map fst (sm_inner sm)"

definition is_online :: "string \<Rightarrow> session_manager \<Rightarrow> bool" where
  "is_online client_id sm \<longleftrightarrow> map_of (sm_inner sm) client_id \<noteq> None"

lemma send_to_inner [simp]:
  "sm_inner (snd (chan_send ch m sm)) = sm_inner sm" "sm_alive (snd (chan_send ch m sm)) = sm_alive sm"
  "sm_inner (snd (send_to c m sm)) = sm_inner sm" "sm_alive (snd (send_to c m sm)) = sm_alive sm"
  by (simp_all add: chan_send_def send_to_def split: option.splits)

lemma register_inner [simp]:
  "map_of (sm_inner (register c tx sm)) = (map_of (sm_inner sm))(c \<mapsto> tx)"
  "sm_alive (register c tx sm) = sm_alive sm"
  by (auto simp: register_def Let_def update_conv' delete_conv' split: option.splits)

lemma register_distinct:
  "distinct (map fst (sm_inner sm)) \<Longrightarrow> distinct (map fst (sm_inner (register c tx sm)))"
  by (auto simp: register_def Let_def distinct_update distinct_delete split: option.splits)

lemma unregister_inner [simp]:
  "map_of (sm_inner (unregister c sm)) = (map_of (sm_inner sm))(c := None)"
  "sm_alive (unregister c sm) = sm_alive sm" "sm_queue (unregister c sm) = sm_queue sm"
  by (simp_all add: unregister_def delete_conv')

section \<open>Authentication\<close>

definition valid_client_id :: "(nat \<Rightarrow> bool) \<Rightarrow> string \<Rightarrow> bool" where
  "valid_client_id U cid =
     (if cid = [] \<or> length cid > 64 then False
      else list_all (\<lambda>c. is_alphanumeric U c \<or> c = 45 \<or> c = 95 \<or> c = 46) (chars cid))"

definition constant_time_token_eq :: "string \<Rightarrow> string \<Rightarrow> bool" where
  "constant_time_token_eq a b =
     (let a_bytes = as_bytes a; b_bytes = as_bytes b in
      if length a_bytes \<noteq> length b_bytes then False else xor_acc 0 a_bytes b_bytes = 0)"

lemma constant_time_token_eq_iff: "constant_time_token_eq a b \<longleftrightarrow> a = b"
  by (auto simp: constant_time_token_eq_def Let_def xor_acc_zero)

text \<open>The three answers; texts are constructors' names in the source's language.\<close>

datatype auth_result = Bad_Client_Id | Bad_Token | Accepted

definition authenticate :: "(nat \<Rightarrow> bool) \<Rightarrow> server_config \<Rightarrow> auth_request \<Rightarrow> auth_result" where
  "authenticate U cfg req =
     (if \<not> valid_client_id U (ar_client_id req) then Bad_Client_Id
      else if \<not> constant_time_token_eq (ar_token req) (srv_token (cfg_server cfg)) then Bad_Token
      else Accepted)"

text \<open>A refused client learns no version.\<close>

definition auth_answer :: "(auth_result \<Rightarrow> string) \<Rightarrow> auth_result \<Rightarrow> auth_response" where
  "auth_answer texts r =
     \<lparr>as_success = (r = Accepted), as_message = texts r,
      as_server_version = (if r = Accepted then ''0.1.8'' else [])\<rparr>"

section \<open>First message of a connection\<close>

text \<open>The outcome of \<^verbatim>\<open>timeout(10s, framed.next())\<close>.\<close>

datatype first_msg = First message | First_Error | First_Closed | First_Timeout

datatype dispatch =
    To_Client_Session auth_request
  | To_Work_Conn u64
  | Dropped

fun dispatch_connection :: "first_msg \<Rightarrow> dispatch" where
  "dispatch_connection (First (Control (Auth req))) = To_Client_Session req"
| "dispatch_connection (First (Control (NewWorkConnResp resp))) =
     (if wcr_success resp then To_Work_Conn (wcr_conn_id resp) else Dropped)"
| "dispatch_connection _ = Dropped"

section \<open>Start of a session\<close>

text \<open>
  After the positive answer was sent: the session is registered, the client list published and the
  client's rules are pushed until a send fails (\<open>sent k\<close>: the \<open>k\<close>-th send succeeds).
\<close>

fun push_rules :: "(nat \<Rightarrow> bool) \<Rightarrow> nat \<Rightarrow> proxy_rule list \<Rightarrow> message list" where
  "push_rules sent k [] = []"
| "push_rules sent k (r # rs) =
     (if sent k then Control (ServerAssignProxy (assign_of_rule r)) # push_rules sent (Suc k) rs
      else [])"

definition start_session ::
  "vec_json \<Rightarrow> bool \<Rightarrow> (nat \<Rightarrow> bool) \<Rightarrow> string \<Rightarrow> nat \<Rightarrow> app_state \<times> session_manager \<Rightarrow>
   message list \<times> app_state \<times> session_manager" where
  "start_session V fault sent client_id ch w =
     (let (st, sm) = w;
          sm = sm\<lparr>sm_alive := insert ch (sm_alive sm), sm_queue := (sm_queue sm)(ch := [])\<rparr>;
          sm = register client_id ch sm;
          st = set_connected_clients (connected_clients sm) st;
          rules = map pe_rule (list_proxies_by_client V fault client_id (app_pm st))
      in (push_rules sent 0 rules, st, sm))"

lemma push_rules_all: "push_rules (\<lambda>_. True) k rs = map (\<lambda>r. Control (ServerAssignProxy (assign_of_rule r))) rs"
  by (induction rs arbitrary: k) auto

lemma rules_of_client:
  "map pe_rule (list_proxies_by_client V False cid pm) =
     filter (\<lambda>r. r_client_id r = cid) (map (rule_of_row V) (pool pm))"
proof -
  have "r_client_id (rule_of_row V row) = row_client_id row" for row by (simp add: rule_of_row_def)
  then show ?thesis
    by (simp add: list_proxies_by_client_def query_rules_by_client_def entry_of_def Let_def
        filter_map comp_def)
qed

text \<open>After the loop: the receiver lives until the handler returns.\<close>

definition end_session ::
  "string \<Rightarrow> nat \<Rightarrow> app_state \<times> session_manager \<Rightarrow> app_state \<times> session_manager" where
  "end_session client_id ch w =
     (let (st, sm) = w;
          sm = unregister client_id sm;
          st = set_connected_clients (connected_clients sm) st
      in (st, sm\<lparr>sm_alive := sm_alive sm - {ch}\<rparr>))"

section \<open>Message loop\<close>

definition HEARTBEAT_TIMEOUT :: nat where
  "HEARTBEAT_TIMEOUT = 90 * nanos_per_sec"

text \<open>
  What \<^verbatim>\<open>select!\<close> delivers: a message from the client, an error or the end of the stream, a
  message (or the end) of the own channel, the heartbeat tick. The flag tells whether the answering send
  succeeds.
\<close>

datatype loop_event =
    From_Client message bool
  | Parse_Error
  | Closed
  | Pushed message bool
  | Channel_Closed
  | Tick

text \<open>\<open>None\<close> leaves the loop; otherwise the time of the last heartbeat.\<close>

fun handle_event :: "instant \<Rightarrow> loop_event \<Rightarrow> instant \<Rightarrow> instant option" where
  "handle_event now (From_Client (Control Ping) sent) last_heartbeat = (if sent then Some now else None)"
| "handle_event now (From_Client _ _) last_heartbeat = Some last_heartbeat"
| "handle_event now Parse_Error last_heartbeat = None"
| "handle_event now Closed last_heartbeat = None"
| "handle_event now (Pushed _ sent) last_heartbeat = (if sent then Some last_heartbeat else None)"
| "handle_event now Channel_Closed last_heartbeat = None"
| "handle_event now Tick last_heartbeat =
     (if now - last_heartbeat > HEARTBEAT_TIMEOUT then None else Some last_heartbeat)"

text \<open>What the event makes the handler write to the client.\<close>

fun loop_output :: "loop_event \<Rightarrow> message list" where
  "loop_output (From_Client (Control Ping) True) = [Control Pong]"
| "loop_output (Pushed m True) = [m]"
| "loop_output _ = []"

fun loop_run :: "(instant \<times> loop_event) list \<Rightarrow> instant \<Rightarrow> message list \<times> instant option" where
  "loop_run [] last_heartbeat = ([], Some last_heartbeat)"
| "loop_run ((now, e) # es) last_heartbeat =
     (case handle_event now e last_heartbeat of
        None \<Rightarrow> (loop_output e, None)
      | Some l \<Rightarrow> let (out, res) = loop_run es l in (loop_output e @ out, res))"

section \<open>All sessions together\<close>

record handler =
  h_client :: string
  h_last_heartbeat :: instant
  h_looping :: bool

record tunnel =
  t_app :: app_state
  t_sm :: session_manager
  t_handlers :: "nat \<Rightarrow> handler option"

definition tunnel_init :: "tunnel \<Rightarrow> bool" where
  "tunnel_init s \<longleftrightarrow>
     t_sm s = session_manager_new \<and> t_handlers s = (\<lambda>_. None) \<and> app_connected (t_app s) = []"

text \<open>What the channel of handler \<open>ch\<close> can deliver: its head, or its end once no sender is left.\<close>

fun enabled :: "tunnel \<Rightarrow> nat \<Rightarrow> loop_event \<Rightarrow> bool" where
  "enabled s ch (Pushed m sent) \<longleftrightarrow> (\<exists>rest. sm_queue (t_sm s) ch = m # rest)"
| "enabled s ch Channel_Closed \<longleftrightarrow>
     sm_queue (t_sm s) ch = [] \<and> ch \<notin> ran (map_of (sm_inner (t_sm s)))"
| "enabled s ch _ \<longleftrightarrow> True"

fun dequeue :: "loop_event \<Rightarrow> nat \<Rightarrow> session_manager \<Rightarrow> session_manager" where
  "dequeue (Pushed m sent) ch sm = sm\<lparr>sm_queue := (sm_queue sm)(ch := tl (sm_queue sm ch))\<rparr>"
| "dequeue _ ch sm = sm"

datatype session_label = L_Connect string | L_Event | L_Cleanup | L_Send

definition after_event :: "instant \<Rightarrow> loop_event \<Rightarrow> handler \<Rightarrow> handler" where
  "after_event now e h =
     (case handle_event now e (h_last_heartbeat h) of
        Some l \<Rightarrow> h\<lparr>h_last_heartbeat := l\<rparr>
      | None \<Rightarrow> h\<lparr>h_looping := False\<rparr>)"

lemma after_event_client [simp]: "h_client (after_event now e h) = h_client h"
  by (simp add: after_event_def split: option.splits)

inductive session_step :: "vec_json \<Rightarrow> session_label \<Rightarrow> tunnel \<Rightarrow> tunnel \<Rightarrow> bool" for V where
  connect:
    "t_handlers s ch = None \<Longrightarrow>
     start_session V fault sent cid ch (t_app s, t_sm s) = (out, st, sm) \<Longrightarrow>
     session_step V (L_Connect cid) s
       (s\<lparr>t_app := st, t_sm := sm,
          t_handlers := (t_handlers s)(ch \<mapsto>
            \<lparr>h_client = cid, h_last_heartbeat = now, h_looping = True\<rparr>)\<rparr>)"
| event:
    "t_handlers s ch = Some h \<Longrightarrow> h_looping h \<Longrightarrow> enabled s ch e \<Longrightarrow>
     session_step V L_Event s
       (s\<lparr>t_sm := dequeue e ch (t_sm s),
          t_handlers := (t_handlers s)(ch \<mapsto> after_event now e h)\<rparr>)"
| cleanup:
    "t_handlers s ch = Some h \<Longrightarrow> \<not> h_looping h \<Longrightarrow>
     end_session (h_client h) ch (t_app s, t_sm s) = (st, sm) \<Longrightarrow>
     session_step V L_Cleanup s
       (s\<lparr>t_app := st, t_sm := sm, t_handlers := (t_handlers s)(ch := None)\<rparr>)"
| send:
    "session_step V L_Send s (s\<lparr>t_sm := snd (send_to cid m (t_sm s))\<rparr>)"

inductive_cases session_stepE [consumes 1, case_names connect event cleanup send]: "session_step V l s t"

text \<open>
  The published client list is the session table's, every entry belongs to a running handler of that client, and
  exactly the running handlers have a receiver.
\<close>

definition tunnel_inv :: "tunnel \<Rightarrow> bool" where
  "tunnel_inv s \<longleftrightarrow>
     distinct (map fst (sm_inner (t_sm s))) \<and>
     sm_alive (t_sm s) = dom (t_handlers s) \<and>
     (\<forall>cid ch. map_of (sm_inner (t_sm s)) cid = Some ch \<longrightarrow>
        (\<exists>h. t_handlers s ch = Some h \<and> h_client h = cid)) \<and>
     set (app_connected (t_app s)) = dom (map_of (sm_inner (t_sm s)))"

lemma dequeue_inner [simp]: "sm_inner (dequeue e ch sm) = sm_inner sm" "sm_alive (dequeue e ch sm) = sm_alive sm"
  by (cases e; simp)+

lemma connected_dom: "set (connected_clients sm) = dom (map_of (sm_inner sm))"
  by (simp add: connected_clients_def dom_map_of_conv_image_fst)

lemma end_session_simps:
  assumes "end_session cid ch (st, sm) = (st', sm')"
  shows "map_of (sm_inner sm') = (map_of (sm_inner sm))(cid := None)"
    and "sm_alive sm' = sm_alive sm - {ch}"
    and "app_connected st' = connected_clients sm'"
    and "distinct (map fst (sm_inner sm)) \<Longrightarrow> distinct (map fst (sm_inner sm'))"
  using assms
  by (auto simp: end_session_def Let_def connected_clients_def unregister_def delete_conv'
      distinct_delete)

lemma start_session_simps:
  assumes "start_session V fault sent cid ch (st, sm) = (out, st', sm')"
  shows "map_of (sm_inner sm') = (map_of (sm_inner sm))(cid \<mapsto> ch)"
    and "sm_alive sm' = insert ch (sm_alive sm)"
    and "app_connected st' = connected_clients sm'"
    and "distinct (map fst (sm_inner sm)) \<Longrightarrow> distinct (map fst (sm_inner sm'))"
  using assms by (auto simp: start_session_def Let_def register_distinct)

lemma tunnel_inv_step:
  assumes "tunnel_inv s" "session_step V l s t"
  shows "tunnel_inv t"
  using assms(2)
proof (cases rule: session_stepE)
  case (connect ch fault sent cid out st sm now)
  note ss = start_session_simps [OF connect(4)]
  have "\<exists>h. t_handlers t ch' = Some h \<and> h_client h = cid'"
    if "map_of (sm_inner sm) cid' = Some ch'" for cid' ch'
  proof (cases "cid' = cid")
    case True
    with that ss(1) show ?thesis by (simp add: connect(2))
  next
    case False
    with that ss(1) have "map_of (sm_inner (t_sm s)) cid' = Some ch'" by simp
    then obtain h where "t_handlers s ch' = Some h" "h_client h = cid'"
      using assms(1) unfolding tunnel_inv_def by blast
    moreover from this connect(3) have "ch' \<noteq> ch" by auto
    ultimately show ?thesis by (simp add: connect(2))
  qed
  with assms(1) ss connected_dom [of sm] show ?thesis
    by (simp add: tunnel_inv_def connect(2))
next
  case (event ch h e now)
  have "\<exists>k. t_handlers t ch' = Some k \<and> h_client k = cid'"
    if "map_of (sm_inner (t_sm s)) cid' = Some ch'" for cid' ch'
  proof -
    obtain k where "t_handlers s ch' = Some k" "h_client k = cid'"
      using assms(1) \<open>map_of (sm_inner (t_sm s)) cid' = Some ch'\<close> unfolding tunnel_inv_def by blast
    with event(3) show ?thesis by (cases "ch' = ch") (simp_all add: event(2))
  qed
  moreover have "dom (t_handlers t) = dom (t_handlers s)"
    using event(3) by (auto simp: event(2))
  ultimately show ?thesis
    using assms(1) by (simp add: tunnel_inv_def event(2))
next
  case (cleanup ch h st sm)
  note es = end_session_simps [OF cleanup(5)]
  have "\<exists>k. t_handlers t ch' = Some k \<and> h_client k = cid'"
    if "map_of (sm_inner sm) cid' = Some ch'" for cid' ch'
  proof -
    from that es(1) have "map_of (sm_inner (t_sm s)) cid' = Some ch'" and ne: "cid' \<noteq> h_client h"
      by (auto split: if_splits)
    then obtain k where "t_handlers s ch' = Some k" "h_client k = cid'"
      using assms(1) unfolding tunnel_inv_def by blast
    with ne cleanup(3) show ?thesis by (auto simp: cleanup(2))
  qed
  moreover have "dom (t_handlers t) = dom (t_handlers s) - {ch}" by (simp add: cleanup(2))
  ultimately show ?thesis
    using assms(1) es connected_dom [of sm] by (simp add: tunnel_inv_def cleanup(2))
next
  case (send cid m)
  then show ?thesis using assms(1) by (simp add: tunnel_inv_def)
qed

interpretation tunnel: transition_system tunnel_init "\<lambda>s t. \<exists>l. session_step V l s t" tunnel_inv for V
proof
  show "tunnel_inv s" if "tunnel_init s" for s
    using that by (simp add: tunnel_init_def tunnel_inv_def session_manager_new_def)
  show "tunnel_inv t" if "tunnel_inv s" "\<exists>l. session_step V l s t" for s t
    using that tunnel_inv_step by blast
qed

section \<open>Replacement\<close>

text \<open>Runs in which the client does not connect again.\<close>

definition step_without :: "vec_json \<Rightarrow> string \<Rightarrow> tunnel \<Rightarrow> tunnel \<Rightarrow> bool" where
  "step_without V cid s t \<longleftrightarrow> (\<exists>l. l \<noteq> L_Connect cid \<and> session_step V l s t)"

definition replaced :: "string \<Rightarrow> nat \<Rightarrow> tunnel \<Rightarrow> bool" where
  "replaced cid a s \<longleftrightarrow>
     (\<exists>h. t_handlers s a = Some h \<and> h_client h = cid) \<or> map_of (sm_inner (t_sm s)) cid = None"

lemma replaced_step:
  assumes "replaced cid a s" "step_without V cid s t"
  shows "replaced cid a t"
proof -
  from assms(2) obtain l where l: "l \<noteq> L_Connect cid" and st: "session_step V l s t"
    by (auto simp: step_without_def)
  from st show ?thesis
  proof (cases rule: session_stepE)
    case (connect ch fault sent cid' out st sm now)
    then have "cid' \<noteq> cid" using l by auto
    with start_session_simps(1) [OF connect(4)] assms(1) connect(3) show ?thesis
      unfolding replaced_def connect(2) by auto
  next
    case (event ch h e now)
    then show ?thesis
      using assms(1) event(3) unfolding replaced_def event(2) by fastforce
  next
    case (cleanup ch h st sm)
    with end_session_simps(1) [OF cleanup(5)] assms(1) show ?thesis
      unfolding replaced_def cleanup(2) by auto
  next
    case (send c m)
    then show ?thesis using assms(1) by (simp add: replaced_def)
  qed
qed

lemma replaced_steps:
  "(step_without V cid)\<^sup>*\<^sup>* s t \<Longrightarrow> replaced cid a s \<Longrightarrow> replaced cid a t"
  by (induction rule: rtranclp_induct) (auto intro: replaced_step)

section \<open>Heartbeats\<close>

text \<open>Events that leave the loop running by themselves: no error, no end, no failed send.\<close>

fun quiet :: "loop_event \<Rightarrow> bool" where
  "quiet (From_Client m sent) \<longleftrightarrow> sent"
| "quiet (Pushed m sent) \<longleftrightarrow> sent"
| "quiet Tick \<longleftrightarrow> True"
| "quiet _ \<longleftrightarrow> False"

abbreviation is_ping :: "loop_event \<Rightarrow> bool" where
  "is_ping e \<equiv> e = From_Client (Control Ping) True"

fun last_ping :: "(instant \<times> loop_event) list \<Rightarrow> instant \<Rightarrow> instant" where
  "last_ping [] start = start"
| "last_ping ((now, e) # es) start = last_ping es (if is_ping e then now else start)"

lemma last_ping_snoc:
  "last_ping (es @ [(now, e)]) start = (if is_ping e then now else last_ping es start)"
  by (induction es start rule: last_ping.induct) auto

lemma quiet_event:
  "quiet e \<Longrightarrow> handle_event now e l =
     (if e = Tick \<and> now - l > HEARTBEAT_TIMEOUT then None else Some (if is_ping e then now else l))"
  by (cases "(now, e, l)" rule: handle_event.cases) auto

lemma loop_run_alive:
  "\<forall>(now, e) \<in> set es. quiet e \<Longrightarrow>
   snd (loop_run es start) =
     (if \<forall>i < length es. snd (es ! i) = Tick \<longrightarrow>
           fst (es ! i) - last_ping (take i es) start \<le> HEARTBEAT_TIMEOUT
      then Some (last_ping es start) else None)"
proof (induction es arbitrary: start)
  case Nil
  then show ?case by simp
next
  case (Cons x es)
  obtain now e where x: "x = (now, e)" by (cases x)
  have q: "quiet e" and qs: "\<forall>(now, e) \<in> set es. quiet e" using Cons.prems x by auto
  define Q where "Q l \<longleftrightarrow> (\<forall>i < length es. snd (es ! i) = Tick \<longrightarrow>
           fst (es ! i) - last_ping (take i es) l \<le> HEARTBEAT_TIMEOUT)" for l
  let ?l = "if is_ping e then now else start"
  have ih: "snd (loop_run es l) = (if Q l then Some (last_ping es l) else None)" for l
    unfolding Q_def by (rule Cons.IH [OF qs])
  have split: "(\<forall>i < length (x # es). snd ((x # es) ! i) = Tick \<longrightarrow>
           fst ((x # es) ! i) - last_ping (take i (x # es)) start \<le> HEARTBEAT_TIMEOUT) \<longleftrightarrow>
      (e = Tick \<longrightarrow> now - start \<le> HEARTBEAT_TIMEOUT) \<and> Q ?l"
    by (simp only: Q_def x length_Cons All_less_Suc2 take_Suc_Cons last_ping.simps nth_Cons_Suc
        nth_Cons_0 take_0 fst_conv snd_conv)
  have run: "snd (loop_run (x # es) start) =
      (case handle_event now e start of None \<Rightarrow> None | Some l \<Rightarrow> snd (loop_run es l))"
    by (simp add: x Let_def split: option.splits prod.splits)
  show ?case
    unfolding split run quiet_event [OF q] ih by (simp add: x not_less)
qed

section \<open>Properties\<close>

text \<open>
  C31. A session starts only for a connection whose first message is an authentication request with
  a well-formed client id and exactly the configured token.
\<close>
theorem session_needs_token:
  "(\<exists>req. dispatch_connection first = To_Client_Session req \<and> authenticate U cfg req = Accepted) \<longleftrightarrow>
   (\<exists>req. first = First (Control (Auth req)) \<and> valid_client_id U (ar_client_id req) \<and>
      ar_token req = srv_token (cfg_server cfg))"
proof -
  have "dispatch_connection first = To_Client_Session req \<longleftrightarrow> first = First (Control (Auth req))" for req
    by (cases first rule: dispatch_connection.cases) auto
  then show ?thesis by (auto simp: authenticate_def constant_time_token_eq_iff)
qed

text \<open>
  Whatever connects, reconnects, fails or is pushed, in any order (registering and publishing a client as one step), the published client list
  is the session table's, and every listed client has a running handler whose channel accepts messages.
\<close>
theorem sessions_sound:
  assumes "tunnel_init s0" and "(\<lambda>s t. \<exists>l. session_step V l s t)\<^sup>*\<^sup>* s0 s"
    and "cid \<in> set (app_connected (t_app s))"
  shows "is_online cid (t_sm s) \<and> fst (send_to cid m (t_sm s)) \<and>
    (\<exists>ch h. t_handlers s ch = Some h \<and> h_client h = cid)"
proof -
  have inv: "tunnel_inv s" using tunnel.inv_reachable [OF assms(1,2)] .
  then obtain ch where ch: "map_of (sm_inner (t_sm s)) cid = Some ch"
    using assms(3) unfolding tunnel_inv_def by blast
  with inv obtain h where h: "t_handlers s ch = Some h" "h_client h = cid"
    unfolding tunnel_inv_def by blast
  have "sm_alive (t_sm s) = dom (t_handlers s)" using inv unfolding tunnel_inv_def by blast
  with h have "ch \<in> sm_alive (t_sm s)" by auto
  with ch h show ?thesis by (auto simp: is_online_def send_to_def chan_send_def)
qed

definition sample_tunnel :: "proxy_rule_row list \<Rightarrow> tunnel" where
  "sample_tunnel rows =
     \<lparr>t_app = app_with_db (sample_config ''admin'' ''pw'') rows, t_sm = session_manager_new,
      t_handlers = (\<lambda>_. None)\<rparr>"

definition connect_tunnel :: "string \<Rightarrow> nat \<Rightarrow> tunnel \<Rightarrow> tunnel" where
  "connect_tunnel cid ch s =
     (let (out, st, sm) = start_session sample_vec_json False (\<lambda>_. True) cid ch (t_app s, t_sm s)
      in s\<lparr>t_app := st, t_sm := sm, t_handlers := (t_handlers s)(ch \<mapsto>
            \<lparr>h_client = cid, h_last_heartbeat = 0, h_looping = True\<rparr>)\<rparr>)"

lemma connect_tunnel_step:
  "t_handlers s ch = None \<Longrightarrow>
   session_step sample_vec_json (L_Connect cid) s (connect_tunnel cid ch s)"
  by (cases "start_session sample_vec_json False (\<lambda>_. True) cid ch (t_app s, t_sm s)")
    (auto simp: connect_tunnel_def intro: session_step.connect)

lemma sample_tunnel_init [simp]: "tunnel_init (sample_tunnel rows)"
  by (simp add: tunnel_init_def sample_tunnel_def app_with_db_def)

lemma sample_tunnel_handlers [simp]: "t_handlers (sample_tunnel rows) = (\<lambda>_. None)"
  by (simp add: sample_tunnel_def)

lemma connect_tunnel_handlers [simp]:
  "t_handlers (connect_tunnel cid ch s) = (t_handlers s)(ch \<mapsto>
            \<lparr>h_client = cid, h_last_heartbeat = 0, h_looping = True\<rparr>)"
  by (simp add: connect_tunnel_def split: prod.splits)

lemma connect_tunnel_map [simp]:
  "map_of (sm_inner (t_sm (connect_tunnel cid ch s))) = (map_of (sm_inner (t_sm s)))(cid \<mapsto> ch)"
  by (auto simp: connect_tunnel_def start_session_def Let_def)

theorem sessions_sound_witness:
  "is_online ''c1'' (t_sm (connect_tunnel ''c1'' 0 (sample_tunnel [])))"
proof -
  let ?t = "connect_tunnel ''c1'' 0 (sample_tunnel [])"
  have "\<exists>l. session_step sample_vec_json l (sample_tunnel []) ?t"
    using connect_tunnel_step [of "sample_tunnel []" 0] by auto
  then have st: "(\<lambda>s t. \<exists>l. session_step sample_vec_json l s t)\<^sup>*\<^sup>* (sample_tunnel []) ?t" by blast
  have "''c1'' \<in> set (app_connected (t_app ?t))"
    by (simp add: connect_tunnel_def start_session_def Let_def connected_dom)
  from sessions_sound [OF sample_tunnel_init st this] show ?thesis by blast
qed

text \<open>
  C37. A client that reconnects while its old handler still runs loses the new session as well:
  registering the new connection drops the only sender of the old handler's channel, so the old handler
  ends, and when it has ended, in any run in which the client has not connected yet again, the client
  is no longer in the table: nothing can be sent to it although its new connection's handler may still run.
\<close>
theorem replaced_session_is_dropped:
  assumes "t_handlers s a = Some h" and "h_client h = cid"
    and "t_handlers s b = None" and "session_step V (L_Connect cid) s s1"
    and "(step_without V cid)\<^sup>*\<^sup>* s1 t" and "t_handlers t a = None"
  shows "\<not> is_online cid (t_sm t) \<and> fst (send_to cid m (t_sm t)) = False"
proof -
  have "\<exists>k. t_handlers s1 a = Some k \<and> h_client k = cid"
    using assms(4) by (cases rule: session_stepE) (use assms(1,2) in auto)
  then have "replaced cid a s1" by (simp add: replaced_def)
  with assms(5) have "replaced cid a t" by (rule replaced_steps)
  with assms(6) show ?thesis by (simp add: replaced_def is_online_def send_to_def)
qed

text \<open>The run of the witness: connect, connect again, Ping to the old handler, end of its channel, clean-up.\<close>

definition old_handler_event :: "loop_event \<Rightarrow> tunnel \<Rightarrow> tunnel" where
  "old_handler_event e s =
     s\<lparr>t_sm := dequeue e 0 (t_sm s),
       t_handlers := (t_handlers s)(0 \<mapsto> after_event 0 e (the (t_handlers s 0)))\<rparr>"

definition old_handler_cleanup :: "tunnel \<Rightarrow> tunnel" where
  "old_handler_cleanup s =
     (let (st, sm) = end_session (h_client (the (t_handlers s 0))) 0 (t_app s, t_sm s)
      in s\<lparr>t_app := st, t_sm := sm, t_handlers := (t_handlers s)(0 := None)\<rparr>)"

lemma old_handler_steps:
  "t_handlers s 0 = Some h \<Longrightarrow> h_looping h \<Longrightarrow> enabled s 0 e \<Longrightarrow>
   step_without V cid s (old_handler_event e s)"
  "t_handlers s 0 = Some h \<Longrightarrow> \<not> h_looping h \<Longrightarrow> step_without V cid s (old_handler_cleanup s)"
  unfolding step_without_def
  by (rule exI [of _ L_Event], use session_step.event [of s 0 h e V 0] in
        \<open>simp add: old_handler_event_def\<close>)
    (rule exI [of _ L_Cleanup], use session_step.cleanup [of s 0 h _ _ V] in
        \<open>auto simp: old_handler_cleanup_def split: prod.splits\<close>)

theorem replaced_session_is_dropped_witness:
  "\<exists>t. (step_without sample_vec_json ''c1'')\<^sup>*\<^sup>*
      (connect_tunnel ''c1'' 1 (connect_tunnel ''c1'' 0 (sample_tunnel []))) t \<and>
    t_handlers t 1 = Some \<lparr>h_client = ''c1'', h_last_heartbeat = 0, h_looping = True\<rparr> \<and>
    \<not> is_online ''c1'' (t_sm t)"
proof -
  let ?s = "connect_tunnel ''c1'' 0 (sample_tunnel [])"
  let ?s1 = "connect_tunnel ''c1'' 1 ?s"
  let ?s2 = "old_handler_event (Pushed (Control Ping) True) ?s1"
  let ?s3 = "old_handler_event Channel_Closed ?s2"
  let ?t = "old_handler_cleanup ?s3"
  let ?h = "\<lparr>h_client = ''c1'', h_last_heartbeat = 0, h_looping = True\<rparr>"
  have q: "sm_queue (t_sm ?s1) 0 = [Control Ping]"
    by (simp add: connect_tunnel_def start_session_def Let_def register_def chan_send_def
        sample_tunnel_def session_manager_new_def)
  have h2: "t_handlers ?s2 = [0 \<mapsto> ?h, 1 \<mapsto> ?h]"
    by (simp add: old_handler_event_def after_event_def fun_upd_twist)
  have e2: "enabled ?s2 0 Channel_Closed"
    using q by (simp add: old_handler_event_def sample_tunnel_def session_manager_new_def)
  have h3: "t_handlers ?s3 = [0 \<mapsto> ?h\<lparr>h_looping := False\<rparr>, 1 \<mapsto> ?h]"
    using h2 by (simp add: old_handler_event_def after_event_def fun_upd_twist)
  have r1: "step_without sample_vec_json ''c1'' ?s1 ?s2"
    by (rule old_handler_steps(1) [of _ ?h]) (simp_all add: q [simplified])
  have r2: "step_without sample_vec_json ''c1'' ?s2 ?s3"
    by (rule old_handler_steps(1) [where h = ?h, OF _ _ e2]) (simp_all only: h2, simp_all)
  have r3: "step_without sample_vec_json ''c1'' ?s3 ?t"
    by (rule old_handler_steps(2) [where h = "?h\<lparr>h_looping := False\<rparr>"]) (simp_all only: h3, simp_all)
  have run: "(step_without sample_vec_json ''c1'')\<^sup>*\<^sup>* ?s1 ?t"
    by (rule three_steps [where r = "step_without sample_vec_json ''c1''", OF r1 r2 r3])
  have t: "t_handlers ?t = [1 \<mapsto> ?h]"
    using h3 by (auto simp: old_handler_cleanup_def fun_eq_iff split: prod.splits)
  have "session_step sample_vec_json (L_Connect ''c1'') ?s ?s1"
    by (rule connect_tunnel_step) simp
  from replaced_session_is_dropped [OF _ _ _ this run, of 0 ?h 1] t
  have "\<not> is_online ''c1'' (t_sm ?t)" by simp
  with run t show ?thesis by auto
qed

text \<open>
  C20. The heartbeat supervision is exact: as long as nothing else ends the loop, a handler is
  still running after a run of events if and only if at every tick the last processed Ping (or the
  start) lay at most 90 seconds back; in particular a client that keeps pinging within 90 seconds is
  never cut off, and a silent one is at the first tick after 90 seconds.
\<close>
theorem heartbeat_exact:
  assumes "\<forall>(now, e) \<in> set es. quiet e"
  shows "snd (loop_run es start) \<noteq> None \<longleftrightarrow>
    (\<forall>i < length es. snd (es ! i) = Tick \<longrightarrow>
       fst (es ! i) - last_ping (take i es) start \<le> 90 * nanos_per_sec)"
  using loop_run_alive [OF assms, of start] by (simp add: HEARTBEAT_TIMEOUT_def)

theorem heartbeat_exact_witness:
  "snd (loop_run [(30 * nanos_per_sec, Tick), (60 * nanos_per_sec, Tick), (90 * nanos_per_sec, Tick),
      (120 * nanos_per_sec, Tick)] 0) = None"
proof -
  let ?es = "[(30 * nanos_per_sec, Tick), (60 * nanos_per_sec, Tick), (90 * nanos_per_sec, Tick),
      (120 * nanos_per_sec, Tick)]"
  have "\<forall>(now, e) \<in> set ?es. quiet e" by simp
  moreover have "\<not> (\<forall>i < length ?es. snd (?es ! i) = Tick \<longrightarrow>
      fst (?es ! i) - last_ping (take i ?es) 0 \<le> 90 * nanos_per_sec)"
    by (rule notI, drule spec [of _ 3]) simp
  ultimately show ?thesis using heartbeat_exact [of ?es 0] by blast
qed

text \<open>
  A new session is complete: with no send failing and the database answering, the client is sent
  exactly its own rules, in table order, it is published as connected, and the next message pushed to it
  goes into its new channel.
\<close>
theorem session_start_serves_client:
  assumes "start_session V False (\<lambda>_. True) cid ch (st, sm) = (out, st', sm')"
  shows "out = map (\<lambda>r. Control (ServerAssignProxy (assign_of_rule r)))
      (filter (\<lambda>r. r_client_id r = cid) (map (rule_of_row V) (pool (app_pm st)))) \<and>
    cid \<in> set (app_connected st') \<and>
    fst (send_to cid m sm') \<and> sm_queue (snd (send_to cid m sm')) ch = sm_queue sm' ch @ [m]"
proof -
  note ss = start_session_simps [OF assms]
  have "out = map (\<lambda>r. Control (ServerAssignProxy (assign_of_rule r)))
      (filter (\<lambda>r. r_client_id r = cid) (map (rule_of_row V) (pool (app_pm st))))"
    using assms by (auto simp: start_session_def Let_def push_rules_all rules_of_client)
  moreover have "cid \<in> set (app_connected st')"
    using ss(1) connected_dom [of sm'] by (simp add: ss(3))
  ultimately show ?thesis using ss(1,2) by (simp add: send_to_def chan_send_def)
qed

theorem session_start_serves_client_witness:
  "\<exists>out st' sm'. start_session sample_vec_json False (\<lambda>_. True) ''c1'' 0
      (app_with_db (sample_config ''admin'' ''pw'') (map (row_of_rule sample_vec_json)
         [sample_rule ''a'', (sample_rule ''b'')\<lparr>r_client_id := ''c2''\<rparr>]), session_manager_new)
      = (out, st', sm') \<and>
    out = [Control (ServerAssignProxy (assign_of_rule (sample_rule ''a'')))]"
proof -
  let ?rows = "map (row_of_rule sample_vec_json)
         [sample_rule ''a'', (sample_rule ''b'')\<lparr>r_client_id := ''c2''\<rparr>]"
  obtain out st' sm' where s: "start_session sample_vec_json False (\<lambda>_. True) ''c1'' 0
      (app_with_db (sample_config ''admin'' ''pw'') ?rows, session_manager_new) = (out, st', sm')"
    by (cases "start_session sample_vec_json False (\<lambda>_. True) ''c1'' 0
      (app_with_db (sample_config ''admin'' ''pw'') ?rows, session_manager_new)")
  have "app_pm (app_with_db (sample_config ''admin'' ''pw'') ?rows) = open_manager ?rows" by (simp add: app_with_db_def)
  with session_start_serves_client [OF s]
  have "out = [Control (ServerAssignProxy (assign_of_rule (sample_rule ''a'')))]"
    by (simp add: open_manager_def) (simp add: sample_rule_def)
  with s show ?thesis by blast
qed

end
