(* ===== verification/Listener.thy ===== *)
theory Listener
  imports Session Http_Host Sni
begin

text \<open>
  \<^verbatim>\<open>crates/server/src/proxy_listener.rs\<close>, first part: the listeners and the domain
  routes. A \<^verbatim>\<open>JoinHandle\<close> is the number of a task; the tasks that run are kept beside the
  table, because a handle that is overwritten detaches its task, which keeps its port.
\<close>

section \<open>State\<close>

datatype task_kind = Tcp_Task | Udp_Task | Http_Task | Https_Task

text \<open>TCP ports and UDP ports are separate.\<close>

fun udp_socket :: "task_kind \<Rightarrow> bool" where
  "udp_socket Udp_Task = True"
| "udp_socket Tcp_Task = False"
| "udp_socket Http_Task = False"
| "udp_socket Https_Task = False"

record listen_task =
  lt_kind :: task_kind
  lt_name :: string
  lt_port :: u16
  lt_client :: string

record listener_manager =
  lm_listeners :: "string \<Rightarrow> nat option"
  lm_http_listener :: "nat option"
  lm_https_listener :: "nat option"
  lm_domain_routes :: "string \<Rightarrow> proxy_rule option"
  lm_tasks :: "nat \<Rightarrow> listen_task option"
  lm_spawned :: nat

definition listener_manager_new :: listener_manager where
  "listener_manager_new =
     \<lparr>lm_listeners = (\<lambda>_. None), lm_http_listener = None, lm_https_listener = None,
      lm_domain_routes = (\<lambda>_. None), lm_tasks = (\<lambda>_. None), lm_spawned = 0\<rparr>"

section \<open>Ports\<close>

text \<open>
  \<^verbatim>\<open>bind\<close> on the configured address: refused when a listener task holds the port or \<open>busy\<close>:
  another program holds it, or the tasks of UDP packets and sessions do, which share the
  \<^verbatim>\<open>Arc<UdpSocket>\<close> of their listener and are not stopped with it. Tasks are numbered below
  \<open>lm_spawned\<close>.
\<close>

definition port_taken :: "bool \<Rightarrow> u16 \<Rightarrow> listener_manager \<Rightarrow> bool" where
  "port_taken udp port lm =
     list_ex (\<lambda>i. case lm_tasks lm i of
        Some t \<Rightarrow> udp_socket (lt_kind t) = udp \<and> lt_port t = port
      | None \<Rightarrow> False) [0..<lm_spawned lm]"

definition bind_ok :: "(bool \<Rightarrow> u16 \<Rightarrow> bool) \<Rightarrow> task_kind \<Rightarrow> u16 \<Rightarrow> listener_manager \<Rightarrow> bool" where
  "bind_ok busy kind port lm \<longleftrightarrow>
     \<not> busy (udp_socket kind) port \<and> \<not> port_taken (udp_socket kind) port lm"

text \<open>\<^verbatim>\<open>tokio::spawn\<close>: a new task and its handle.\<close>

definition spawn_task :: "listen_task \<Rightarrow> listener_manager \<Rightarrow> nat \<times> listener_manager" where
  "spawn_task t lm =
     (lm_spawned lm,
      lm\<lparr>lm_tasks := (lm_tasks lm)(lm_spawned lm \<mapsto> t), lm_spawned := lm_spawned lm + 1\<rparr>)"

text \<open>
  \<^verbatim>\<open>handle.abort()\<close> followed by the end of the task: the task holds the port no longer
  (\<open>busy\<close> tells whether somebody else still does).
\<close>

definition abort_task :: "nat \<Rightarrow> listener_manager \<Rightarrow> listener_manager" where
  "abort_task i lm = lm\<lparr>lm_tasks := (lm_tasks lm)(i := None)\<rparr>"

section \<open>Operations\<close>

definition start_stream_listener ::
  "task_kind \<Rightarrow> (bool \<Rightarrow> u16 \<Rightarrow> bool) \<Rightarrow> string \<Rightarrow> u16 \<Rightarrow> string \<Rightarrow> listener_manager \<Rightarrow>
   bool \<times> listener_manager" where
  "start_stream_listener kind busy name remote_port client_id lm =
     (if \<not> bind_ok busy kind remote_port lm then (False, lm)
      else
        let (handle, lm) = spawn_task \<lparr>lt_kind = kind, lt_name = name, lt_port = remote_port,
               lt_client = client_id\<rparr> lm
        in (True, lm\<lparr>lm_listeners := (lm_listeners lm)(name \<mapsto> handle)\<rparr>))"

definition start_tcp_listener ::
  "(bool \<Rightarrow> u16 \<Rightarrow> bool) \<Rightarrow> string \<Rightarrow> u16 \<Rightarrow> string \<Rightarrow> listener_manager \<Rightarrow>
   bool \<times> listener_manager" where
  "start_tcp_listener = start_stream_listener Tcp_Task"

definition start_udp_listener ::
  "(bool \<Rightarrow> u16 \<Rightarrow> bool) \<Rightarrow> string \<Rightarrow> u16 \<Rightarrow> string \<Rightarrow> listener_manager \<Rightarrow>
   bool \<times> listener_manager" where
  "start_udp_listener = start_stream_listener Udp_Task"

definition start_http_listener ::
  "(bool \<Rightarrow> u16 \<Rightarrow> bool) \<Rightarrow> u16 \<Rightarrow> listener_manager \<Rightarrow> bool \<times> listener_manager" where
  "start_http_listener busy port lm =
     (if \<not> bind_ok busy Http_Task port lm then (False, lm)
      else
        let (handle, lm) = spawn_task \<lparr>lt_kind = Http_Task, lt_name = [], lt_port = port,
               lt_client = []\<rparr> lm
        in (True, lm\<lparr>lm_http_listener := Some handle\<rparr>))"

definition start_https_listener ::
  "(bool \<Rightarrow> u16 \<Rightarrow> bool) \<Rightarrow> u16 \<Rightarrow> listener_manager \<Rightarrow> bool \<times> listener_manager" where
  "start_https_listener busy port lm =
     (if \<not> bind_ok busy Https_Task port lm then (False, lm)
      else
        let (handle, lm) = spawn_task \<lparr>lt_kind = Https_Task, lt_name = [], lt_port = port,
               lt_client = []\<rparr> lm
        in (True, lm\<lparr>lm_https_listener := Some handle\<rparr>))"

definition stop_listener :: "string \<Rightarrow> listener_manager \<Rightarrow> listener_manager" where
  "stop_listener name lm =
     (case lm_listeners lm name of
        Some handle \<Rightarrow> abort_task handle (lm\<lparr>lm_listeners := (lm_listeners lm)(name := None)\<rparr>)
      | None \<Rightarrow> lm)"

text \<open>\<open>names\<close> are the keys of the drained table.\<close>

definition stop_all :: "string list \<Rightarrow> listener_manager \<Rightarrow> listener_manager" where
  "stop_all names lm =
     (let lm = fold stop_listener names lm;
          lm = (case lm_http_listener lm of
                  Some h \<Rightarrow> abort_task h (lm\<lparr>lm_http_listener := None\<rparr>) | None \<Rightarrow> lm)
      in case lm_https_listener lm of
           Some h \<Rightarrow> abort_task h (lm\<lparr>lm_https_listener := None\<rparr>) | None \<Rightarrow> lm)"

definition register_domain_route :: "proxy_rule \<Rightarrow> listener_manager \<Rightarrow> listener_manager" where
  "register_domain_route rule lm =
     lm\<lparr>lm_domain_routes :=
        fold (\<lambda>domain routes. routes(domain \<mapsto> rule)) (r_custom_domains rule) (lm_domain_routes lm)\<rparr>"

definition unregister_domain_route :: "proxy_rule \<Rightarrow> listener_manager \<Rightarrow> listener_manager" where
  "unregister_domain_route rule lm =
     lm\<lparr>lm_domain_routes :=
        fold (\<lambda>domain routes. routes(domain := None)) (r_custom_domains rule) (lm_domain_routes lm)\<rparr>"

text \<open>
  Which rule a peeked connection of the shared listeners goes to; \<open>None\<close> drops it. A rule is served
  by both listeners, whatever its type. The outer \<open>None\<close> of the TLS case is a panic of the parser.
\<close>

definition route_http :: "bytes \<Rightarrow> listener_manager \<Rightarrow> proxy_rule option" where
  "route_http peek_data lm =
     (case extract_host_from_http peek_data of
        Some host \<Rightarrow> lm_domain_routes lm host
      | None \<Rightarrow> None)"

definition route_https :: "bytes \<Rightarrow> listener_manager \<Rightarrow> proxy_rule option option" where
  "route_https peek_data lm =
     map_option (\<lambda>sni. case sni of Some domain \<Rightarrow> lm_domain_routes lm domain | None \<Rightarrow> None)
       (extract_sni_from_client_hello peek_data)"

section \<open>Invariant\<close>

abbreviation stream_kind :: "task_kind \<Rightarrow> bool" where
  "stream_kind k \<equiv> k = Tcp_Task \<or> k = Udp_Task"

text \<open>
  Ports are held once, the table and the running stream listeners correspond (no dangling handle,
  no detached task), and so do the two shared handles.
\<close>

definition tasks_bounded :: "listener_manager \<Rightarrow> bool" where
  "tasks_bounded lm \<longleftrightarrow> (\<forall>i t. lm_tasks lm i = Some t \<longrightarrow> i < lm_spawned lm)"

definition ports_unique :: "listener_manager \<Rightarrow> bool" where
  "ports_unique lm \<longleftrightarrow>
     (\<forall>i j t u. lm_tasks lm i = Some t \<longrightarrow> lm_tasks lm j = Some u \<longrightarrow>
        udp_socket (lt_kind t) = udp_socket (lt_kind u) \<longrightarrow> lt_port t = lt_port u \<longrightarrow> i = j)"

definition table_sound :: "listener_manager \<Rightarrow> bool" where
  "table_sound lm \<longleftrightarrow>
     (\<forall>n i. lm_listeners lm n = Some i \<longrightarrow>
        (\<exists>t. lm_tasks lm i = Some t \<and> lt_name t = n \<and> stream_kind (lt_kind t)))"

definition no_detached :: "listener_manager \<Rightarrow> bool" where
  "no_detached lm \<longleftrightarrow>
     (\<forall>i t. lm_tasks lm i = Some t \<longrightarrow> stream_kind (lt_kind t) \<longrightarrow>
        lm_listeners lm (lt_name t) = Some i)"

definition shared_sound :: "listener_manager \<Rightarrow> bool" where
  "shared_sound lm \<longleftrightarrow>
     (\<forall>i. lm_http_listener lm = Some i \<longleftrightarrow>
        (\<exists>t. lm_tasks lm i = Some t \<and> lt_kind t = Http_Task)) \<and>
     (\<forall>i. lm_https_listener lm = Some i \<longleftrightarrow>
        (\<exists>t. lm_tasks lm i = Some t \<and> lt_kind t = Https_Task))"

definition lm_inv :: "listener_manager \<Rightarrow> bool" where
  "lm_inv lm \<longleftrightarrow>
     tasks_bounded lm \<and> ports_unique lm \<and> table_sound lm \<and> no_detached lm \<and> shared_sound lm"

lemmas lm_inv_defs =
  lm_inv_def tasks_bounded_def ports_unique_def table_sound_def no_detached_def shared_sound_def

lemma lm_inv_new [simp]: "lm_inv listener_manager_new"
  by (simp add: lm_inv_defs listener_manager_new_def)

lemma port_taken_iff:
  "tasks_bounded lm \<Longrightarrow> port_taken udp port lm \<longleftrightarrow>
     (\<exists>i t. lm_tasks lm i = Some t \<and> udp_socket (lt_kind t) = udp \<and> lt_port t = port)"
  by (fastforce simp: port_taken_def list_ex_iff tasks_bounded_def split: option.splits)

text \<open>The running listener of a rule name.\<close>

definition listener_of :: "listener_manager \<Rightarrow> string \<Rightarrow> listen_task option" where
  "listener_of lm n = (case lm_listeners lm n of Some i \<Rightarrow> lm_tasks lm i | None \<Rightarrow> None)"

lemma listener_of_None: "lm_inv lm \<Longrightarrow> listener_of lm n = None \<longleftrightarrow> lm_listeners lm n = None"
  by (fastforce simp: listener_of_def lm_inv_def table_sound_def split: option.splits)

lemma spawned_fresh: "tasks_bounded lm \<Longrightarrow> lm_tasks lm (lm_spawned lm) = None"
  by (meson less_irrefl not_None_eq tasks_bounded_def)

lemma ports_unique_spawn:
  assumes "tasks_bounded lm" "ports_unique lm" "\<not> port_taken (udp_socket (lt_kind t)) (lt_port t) lm"
    and "lm_tasks lm' = (lm_tasks lm)(lm_spawned lm \<mapsto> t)"
  shows "ports_unique lm'"
proof -
  have free: "udp_socket (lt_kind u) \<noteq> udp_socket (lt_kind t) \<or> lt_port u \<noteq> lt_port t"
    if "lm_tasks lm i = Some u" for i u
    using assms(1,3) that by (auto simp: port_taken_iff)
  show ?thesis
    unfolding ports_unique_def
  proof (intro allI impI)
    fix i j a b
    assume *: "lm_tasks lm' i = Some a" "lm_tasks lm' j = Some b"
      "udp_socket (lt_kind a) = udp_socket (lt_kind b)" "lt_port a = lt_port b"
    show "i = j"
    proof (cases "i = lm_spawned lm"; cases "j = lm_spawned lm")
      assume "i \<noteq> lm_spawned lm" "j \<noteq> lm_spawned lm"
      with * assms(2,4) show ?thesis unfolding ports_unique_def by (metis fun_upd_apply)
    qed (use * assms(4) free in \<open>auto dest: free\<close>)
  qed
qed

lemma start_stream_simps:
  assumes "start_stream_listener kind busy name port cid lm = (ok, lm')" "tasks_bounded lm"
  shows "ok \<longleftrightarrow> bind_ok busy kind port lm"
    and "\<not> ok \<Longrightarrow> lm' = lm"
    and "lm_domain_routes lm' = lm_domain_routes lm"
    and "ok \<Longrightarrow> listener_of lm' name =
           Some \<lparr>lt_kind = kind, lt_name = name, lt_port = port, lt_client = cid\<rparr>"
    and "table_sound lm \<Longrightarrow> n \<noteq> name \<Longrightarrow> listener_of lm' n = listener_of lm n"
proof -
  show "ok \<longleftrightarrow> bind_ok busy kind port lm" "\<not> ok \<Longrightarrow> lm' = lm"
    "lm_domain_routes lm' = lm_domain_routes lm"
    "ok \<Longrightarrow> listener_of lm' name =
       Some \<lparr>lt_kind = kind, lt_name = name, lt_port = port, lt_client = cid\<rparr>"
    using assms(1) by (auto simp: start_stream_listener_def spawn_task_def listener_of_def split: if_splits)
  assume ts: "table_sound lm" and n: "n \<noteq> name"
  have "i \<noteq> lm_spawned lm" if li: "lm_listeners lm n = Some i" for i
  proof -
    from ts li obtain t where "lm_tasks lm i = Some t" unfolding table_sound_def by blast
    with spawned_fresh [OF assms(2)] show ?thesis by auto
  qed
  with assms(1) n show "listener_of lm' n = listener_of lm n"
    by (auto simp: start_stream_listener_def spawn_task_def listener_of_def split: if_splits option.splits)
qed

lemma start_stream_inv:
  assumes "lm_inv lm" "lm_listeners lm name = None" "stream_kind kind"
    and "start_stream_listener kind busy name port cid lm = (ok, lm')"
  shows "lm_inv lm'"
proof (cases ok)
  case False
  then have "lm' = lm"
    using assms(4) by (auto simp: start_stream_listener_def spawn_task_def split: if_splits)
  with assms(1) show ?thesis by simp
next
  case True
  let ?t = "\<lparr>lt_kind = kind, lt_name = name, lt_port = port, lt_client = cid\<rparr>"
  have b: "tasks_bounded lm" and p: "ports_unique lm" and ts: "table_sound lm"
    and nd: "no_detached lm" and sh: "shared_sound lm"
    using assms(1) by (simp_all add: lm_inv_def)
  have bind: "\<not> port_taken (udp_socket kind) port lm"
    and lm': "lm' = lm\<lparr>lm_tasks := (lm_tasks lm)(lm_spawned lm \<mapsto> ?t),
        lm_spawned := lm_spawned lm + 1, lm_listeners := (lm_listeners lm)(name \<mapsto> lm_spawned lm)\<rparr>"
    using True assms(4) by (auto simp: start_stream_listener_def spawn_task_def bind_ok_def split: if_splits)
  note fresh = spawned_fresh [OF b]
  have "tasks_bounded lm'" using b by (auto simp: lm' tasks_bounded_def less_Suc_eq)
  moreover have "ports_unique lm'"
    by (rule ports_unique_spawn [OF b p, of ?t]) (use bind in \<open>simp_all add: lm'\<close>)
  moreover have "table_sound lm'"
    unfolding table_sound_def
  proof (intro allI impI)
    fix n i assume i: "lm_listeners lm' n = Some i"
    show "\<exists>t. lm_tasks lm' i = Some t \<and> lt_name t = n \<and> stream_kind (lt_kind t)"
    proof (cases "n = name")
      case True
      with i assms(3) show ?thesis by (simp add: lm')
    next
      case False
      with i ts obtain t where "lm_tasks lm i = Some t" "lt_name t = n" "stream_kind (lt_kind t)"
        unfolding lm' table_sound_def by auto
      with fresh show ?thesis by (auto simp: lm')
    qed
  qed
  moreover have "no_detached lm'"
    using nd assms(2) by (auto simp: lm' no_detached_def)
  moreover have "shared_sound lm'"
    using sh assms(3) fresh unfolding shared_sound_def lm' by (auto split: if_splits)
  ultimately show ?thesis by (simp add: lm_inv_def)
qed

text \<open>A new task of the shared listeners leaves the rest of the invariant alone.\<close>

lemma spawn_shared:
  assumes "lm_inv lm" "\<not> port_taken False port lm" "\<not> stream_kind kind"
    and "lm_tasks lm' = (lm_tasks lm)(lm_spawned lm \<mapsto>
      \<lparr>lt_kind = kind, lt_name = [], lt_port = port, lt_client = []\<rparr>)"
    and "lm_spawned lm' = lm_spawned lm + 1" and "lm_listeners lm' = lm_listeners lm"
  shows "tasks_bounded lm'" "ports_unique lm'" "table_sound lm'" "no_detached lm'"
    and "listener_of lm' = listener_of lm"
proof -
  have b: "tasks_bounded lm" and p: "ports_unique lm" and ts: "table_sound lm" and nd: "no_detached lm"
    using assms(1) by (simp_all add: lm_inv_def)
  have old: "i \<noteq> lm_spawned lm" if "lm_listeners lm n = Some i" for n i
  proof -
    from ts that obtain t where "lm_tasks lm i = Some t" unfolding table_sound_def by blast
    with spawned_fresh [OF b] show ?thesis by auto
  qed
  show "listener_of lm' = listener_of lm"
    using old by (auto simp: assms(4,6) listener_of_def fun_eq_iff split: option.splits)
  show "tasks_bounded lm'" using b by (auto simp: assms(4,5) tasks_bounded_def less_Suc_eq)
  have "\<not> udp_socket kind" using assms(3) by (cases kind) auto
  then show "ports_unique lm'"
    using assms(2,4) by (intro ports_unique_spawn [OF b p _ assms(4)]) simp
  show "table_sound lm'" using ts old unfolding table_sound_def assms(4,6) by fastforce
  show "no_detached lm'" using nd assms(3) by (auto simp: assms(4,6) no_detached_def)
qed

lemma start_http_inv:
  assumes "lm_inv lm" "lm_http_listener lm = None"
    and "start_http_listener busy port lm = (ok, lm')"
  shows "lm_inv lm'" "listener_of lm' = listener_of lm"
    "lm_domain_routes lm' = lm_domain_routes lm" "lm_https_listener lm' = lm_https_listener lm"
proof -
  have "lm_inv lm' \<and> listener_of lm' = listener_of lm \<and>
    lm_domain_routes lm' = lm_domain_routes lm \<and> lm_https_listener lm' = lm_https_listener lm"
  proof (cases "bind_ok busy Http_Task port lm")
    case True
    then have free: "\<not> port_taken False port lm" by (simp add: bind_ok_def)
    have lm': "lm' = lm\<lparr>lm_tasks := (lm_tasks lm)(lm_spawned lm \<mapsto>
          \<lparr>lt_kind = Http_Task, lt_name = [], lt_port = port, lt_client = []\<rparr>),
        lm_spawned := lm_spawned lm + 1, lm_http_listener := Some (lm_spawned lm)\<rparr>"
      using True assms(3) by (auto simp: start_http_listener_def spawn_task_def)
    have "shared_sound lm'"
      using assms(1,2) spawned_fresh [of lm] by (auto simp: lm_inv_def shared_sound_def lm')
    with spawn_shared [OF assms(1) free, of Http_Task lm'] show ?thesis
      by (simp add: lm_inv_def lm')
  qed (use assms in \<open>simp add: start_http_listener_def\<close>)
  then show "lm_inv lm'" "listener_of lm' = listener_of lm"
    "lm_domain_routes lm' = lm_domain_routes lm" "lm_https_listener lm' = lm_https_listener lm"
    by blast+
qed

lemma start_https_inv:
  assumes "lm_inv lm" "lm_https_listener lm = None"
    and "start_https_listener busy port lm = (ok, lm')"
  shows "lm_inv lm'" "listener_of lm' = listener_of lm" "lm_domain_routes lm' = lm_domain_routes lm"
proof -
  have "lm_inv lm' \<and> listener_of lm' = listener_of lm \<and> lm_domain_routes lm' = lm_domain_routes lm"
  proof (cases "bind_ok busy Https_Task port lm")
    case True
    then have free: "\<not> port_taken False port lm" by (simp add: bind_ok_def)
    have lm': "lm' = lm\<lparr>lm_tasks := (lm_tasks lm)(lm_spawned lm \<mapsto>
          \<lparr>lt_kind = Https_Task, lt_name = [], lt_port = port, lt_client = []\<rparr>),
        lm_spawned := lm_spawned lm + 1, lm_https_listener := Some (lm_spawned lm)\<rparr>"
      using True assms(3) by (auto simp: start_https_listener_def spawn_task_def)
    have "shared_sound lm'"
      using assms(1,2) spawned_fresh [of lm] by (auto simp: lm_inv_def shared_sound_def lm')
    with spawn_shared [OF assms(1) free, of Https_Task lm'] show ?thesis
      by (simp add: lm_inv_def lm')
  qed (use assms in \<open>simp add: start_https_listener_def\<close>)
  then show "lm_inv lm'" "listener_of lm' = listener_of lm"
    "lm_domain_routes lm' = lm_domain_routes lm"
    by blast+
qed

lemma stop_listener_simps:
  assumes "lm_inv lm"
  shows "lm_inv (stop_listener name lm)"
    and "lm_domain_routes (stop_listener name lm) = lm_domain_routes lm"
    and "listener_of (stop_listener name lm) = (listener_of lm)(name := None)"
proof -
  show "lm_domain_routes (stop_listener name lm) = lm_domain_routes lm"
    by (simp add: stop_listener_def abort_task_def split: option.splits)
  have other: "i \<noteq> j"
    if "lm_listeners lm name = Some i" "lm_listeners lm n = Some j" "n \<noteq> name" for n i j
  proof -
    have ts: "table_sound lm" using assms by (simp add: lm_inv_def)
    from ts that(1) obtain t where "lm_tasks lm i = Some t" "lt_name t = name"
      unfolding table_sound_def by blast
    moreover from ts that(2) obtain u where "lm_tasks lm j = Some u" "lt_name u = n"
      unfolding table_sound_def by blast
    ultimately show ?thesis using that(3) by auto
  qed
  show "listener_of (stop_listener name lm) = (listener_of lm)(name := None)"
    using other
    by (fastforce simp: stop_listener_def abort_task_def listener_of_def fun_eq_iff split: option.splits)
  show "lm_inv (stop_listener name lm)"
  proof (cases "lm_listeners lm name")
    case None
    with assms show ?thesis by (simp add: stop_listener_def)
  next
    case (Some i)
    then obtain t where t: "lm_tasks lm i = Some t" "lt_name t = name" "stream_kind (lt_kind t)"
      using assms unfolding lm_inv_def table_sound_def by blast
    let ?lm = "stop_listener name lm"
    have lm': "?lm = lm\<lparr>lm_listeners := (lm_listeners lm)(name := None),
        lm_tasks := (lm_tasks lm)(i := None)\<rparr>"
      by (simp add: stop_listener_def abort_task_def Some)
    have "tasks_bounded ?lm" using assms by (auto simp: lm' lm_inv_def tasks_bounded_def)
    moreover have "ports_unique ?lm"
      using assms unfolding lm_inv_def ports_unique_def lm' by (auto split: if_splits)
    moreover have "table_sound ?lm"
      unfolding table_sound_def
    proof (intro allI impI)
      fix n j assume "lm_listeners ?lm n = Some j"
      then have nj: "lm_listeners lm n = Some j" "n \<noteq> name" by (auto simp: lm' split: if_splits)
      then have "i \<noteq> j" by (rule other [OF Some])
      moreover from assms nj obtain u where "lm_tasks lm j = Some u" "lt_name u = n"
        "stream_kind (lt_kind u)"
        unfolding lm_inv_def table_sound_def by blast
      ultimately show "\<exists>t. lm_tasks ?lm j = Some t \<and> lt_name t = n \<and> stream_kind (lt_kind t)"
        by (simp add: lm')
    qed
    moreover have "no_detached ?lm"
      using assms Some unfolding lm_inv_def no_detached_def lm' by (auto split: if_splits)
    moreover have "shared_sound ?lm"
      using assms t unfolding lm_inv_def shared_sound_def lm' by (auto split: if_splits)
    ultimately show ?thesis by (simp add: lm_inv_def)
  qed
qed

lemma fold_upd_apply:
  "fold (\<lambda>d m. m(d := v)) ds m d' = (if d' \<in> set ds then v else m d')"
  by (induction ds arbitrary: m) auto

lemma routes_frame [simp]:
  "listener_of (lm\<lparr>lm_domain_routes := x\<rparr>) = listener_of lm"
  "lm_inv (lm\<lparr>lm_domain_routes := x\<rparr>) = lm_inv lm"
  "tasks_bounded (lm\<lparr>lm_domain_routes := x\<rparr>) = tasks_bounded lm"
  by (rule ext, simp add: listener_of_def split: option.splits) (simp_all add: lm_inv_defs)

lemma register_domain_route_simps [simp]:
  "lm_domain_routes (register_domain_route r lm) d =
     (if d \<in> set (r_custom_domains r) then Some r else lm_domain_routes lm d)"
  "listener_of (register_domain_route r lm) = listener_of lm"
  "lm_inv (register_domain_route r lm) = lm_inv lm"
  "tasks_bounded (register_domain_route r lm) = tasks_bounded lm"
  by (simp_all add: register_domain_route_def fold_upd_apply)

lemma unregister_domain_route_simps [simp]:
  "lm_domain_routes (unregister_domain_route r lm) d =
     (if d \<in> set (r_custom_domains r) then None else lm_domain_routes lm d)"
  "listener_of (unregister_domain_route r lm) = listener_of lm"
  "lm_inv (unregister_domain_route r lm) = lm_inv lm"
  "tasks_bounded (unregister_domain_route r lm) = tasks_bounded lm"
  by (simp_all add: unregister_domain_route_def fold_upd_apply)

end
