(* ===== verification/Web_Auth.thy ===== *)
theory Web_Auth
  imports App_State "HOL-Library.Sublist"
begin

text \<open>
  \<^verbatim>\<open>crates/web/src/auth.rs\<close>, \<^verbatim>\<open>lib.rs\<close> and \<^verbatim>\<open>ws.rs\<close>: tokens, the middleware
  that asks for them, the router that composes middleware, API and static files, and the
  WebSocket feed. The token library, the path a nested router hands to its layers and the
  embedded assets are parameters.
\<close>

section \<open>Tokens\<close>

record jwt_claims =
  jwt_sub :: string
  jwt_exp :: u64
  jwt_iat :: u64

text \<open>
  \<^verbatim>\<open>jsonwebtoken\<close>: signing the claims with a secret (header, \<^verbatim>\<open>HS256\<close>), and reading a
  token at a Unix time with the default validation.
\<close>

record jwt_lib =
  jwt_encode :: "jwt_claims \<Rightarrow> string \<Rightarrow> string option"
  jwt_decode :: "nat \<Rightarrow> string \<Rightarrow> string \<Rightarrow> jwt_claims option"

text \<open>
  Documented behaviour: a token decodes under its secret to its claims exactly until \<open>exp\<close>,
  with the default leeway of 60 seconds.
\<close>

definition jwt_ok :: "jwt_lib \<Rightarrow> bool" where
  "jwt_ok J \<longleftrightarrow>
     (\<forall>now c secret t. jwt_encode J c secret = Some t \<longrightarrow>
        jwt_decode J now t secret = (if now \<le> unat (jwt_exp c) + 60 then Some c else None))"

definition generate_jwt ::
  "jwt_lib \<Rightarrow> u64 option \<Rightarrow> string \<Rightarrow> string \<Rightarrow> u64 \<Rightarrow> string option" where
  "generate_jwt J unix_time username secret expire_hours =
     (case unix_time of
        None \<Rightarrow> None
      | Some now \<Rightarrow>
          jwt_encode J
            \<lparr>jwt_sub = username, jwt_exp = now + expire_hours * 3600, jwt_iat = now\<rparr> secret)"

definition validate_jwt :: "jwt_lib \<Rightarrow> nat \<Rightarrow> string \<Rightarrow> string \<Rightarrow> jwt_claims option" where
  "validate_jwt J now token secret = jwt_decode J now token secret"

section \<open>Middleware\<close>

datatype gate = Pass | Unauthorized

text \<open>\<open>auth_header\<close> is the header's text, \<open>None\<close> when absent or not visible ASCII.\<close>

definition auth_middleware ::
  "jwt_lib \<Rightarrow> nat \<Rightarrow> server_config \<Rightarrow> string \<Rightarrow> string option \<Rightarrow> gate" where
  "auth_middleware J now cfg path auth_header =
     (if path = ''/health'' \<or> path = ''/api/auth/login'' \<or> prefix ''/api/ws'' path
         \<or> \<not> prefix ''/api/'' path
      then Pass
      else case auth_header of
        Some header \<Rightarrow>
          if prefix ''Bearer '' header then
            if validate_jwt J now (drop 7 header) (jwt_secret (cfg_web cfg)) \<noteq> None
            then Pass else Unauthorized
          else Unauthorized
      | None \<Rightarrow> Unauthorized)"

section \<open>Router\<close>

datatype http_method = GET | POST | PUT | DELETE

datatype endpoint =
    Login | List_Proxies | Create_Proxy | Get_Proxy string | Update_Proxy string
  | Delete_Proxy string | List_Clients | Server_Status | Ws

text \<open>
  The routes of \<^verbatim>\<open>proxy_routes\<close> and \<^verbatim>\<open>/ws\<close>, on the path below \<^verbatim>\<open>/api\<close>. The first
  level is \<open>None\<close> if no route has this path, the second if the route has no such method.
\<close>

definition api_route :: "string \<Rightarrow> (http_method \<Rightarrow> endpoint option) option" where
  "api_route path =
     (if path = ''/auth/login'' then Some (\<lambda>m. if m = POST then Some Login else None)
      else if path = ''/proxies'' then
        Some (\<lambda>m. if m = GET then Some List_Proxies
                  else if m = POST then Some Create_Proxy else None)
      else if path = ''/clients'' then Some (\<lambda>m. if m = GET then Some List_Clients else None)
      else if path = ''/status'' then Some (\<lambda>m. if m = GET then Some Server_Status else None)
      else if path = ''/ws'' then Some (\<lambda>m. if m = GET then Some Ws else None)
      else case strip_prefix ''/proxies/'' path of
        Some name \<Rightarrow>
          if name \<noteq> [] \<and> CHR ''/'' \<notin> set name then
            Some (\<lambda>m. case m of GET \<Rightarrow> Some (Get_Proxy name) | PUT \<Rightarrow> Some (Update_Proxy name)
                      | DELETE \<Rightarrow> Some (Delete_Proxy name) | POST \<Rightarrow> None)
          else None
      | None \<Rightarrow> None)"

datatype static_response = Not_Found_Json | Asset string | Not_Found

definition trim_start_slashes :: "string \<Rightarrow> string" where
  "trim_start_slashes = dropWhile (\<lambda>c. c = CHR ''/'')"

definition static_handler :: "(string \<Rightarrow> bytes option) \<Rightarrow> string \<Rightarrow> static_response" where
  "static_handler assets path =
     (if prefix ''/api/'' path then Not_Found_Json
      else
        let clean_path = trim_start_slashes path in
        if assets clean_path \<noteq> None then Asset clean_path
        else if assets ''index.html'' \<noteq> None then Asset ''index.html''
        else Not_Found)"

datatype routed =
    To_Endpoint endpoint | Denied | Method_Not_Allowed | Health_OK | Static static_response

text \<open>
  \<open>nest_path\<close> is the request path that the layers of a router nested at \<^verbatim>\<open>/api\<close> see.
  The middleware is a layer of the nested router.
\<close>

definition build_app ::
  "(string \<Rightarrow> string) \<Rightarrow> jwt_lib \<Rightarrow> (string \<Rightarrow> bytes option) \<Rightarrow> nat \<Rightarrow> server_config \<Rightarrow>
   http_method \<Rightarrow> string \<Rightarrow> string option \<Rightarrow> routed" where
  "build_app nest_path J assets now cfg method path auth_header =
     (case (case strip_prefix ''/api'' path of Some p \<Rightarrow> api_route p | None \<Rightarrow> None) of
        Some methods \<Rightarrow>
          (case auth_middleware J now cfg (nest_path path) auth_header of
             Unauthorized \<Rightarrow> Denied
           | Pass \<Rightarrow> (case methods method of
                        Some e \<Rightarrow> To_Endpoint e
                      | None \<Rightarrow> Method_Not_Allowed))
      | None \<Rightarrow>
          if path = ''/health'' then
            (if method = GET then Health_OK else Method_Not_Allowed)
          else Static (static_handler assets path))"

text \<open>\<^verbatim>\<open>build_cors_layer\<close> keeps the origins that are header values.\<close>

definition build_cors_layer :: "(string \<Rightarrow> 'h option) \<Rightarrow> string list \<Rightarrow> 'h list" where
  "build_cors_layer parse_header_value origins = List.map_filter parse_header_value origins"

section \<open>WebSocket feed\<close>

definition validate_ws_token :: "jwt_lib \<Rightarrow> nat \<Rightarrow> server_config \<Rightarrow> string \<Rightarrow> bool" where
  "validate_ws_token J now cfg token =
     (if token = [] then False
      else validate_jwt J now token (jwt_secret (cfg_web cfg)) \<noteq> None)"

datatype ws_answer = Ws_Unauthorized | Ws_Missing_Token | Ws_Upgrade

definition ws_handler :: "jwt_lib \<Rightarrow> nat \<Rightarrow> server_config \<Rightarrow> string option \<Rightarrow> ws_answer" where
  "ws_handler J now cfg token =
     (case token of
        Some t \<Rightarrow> if \<not> validate_ws_token J now cfg t then Ws_Unauthorized else Ws_Upgrade
      | None \<Rightarrow> Ws_Missing_Token)"

record proxy_summary =
  ps_name :: string
  ps_status :: string
  ps_connections :: u64
  ps_bandwidth_in :: real
  ps_bandwidth_out :: real

datatype ws_message =
    Status_Msg "proxy_summary list" nat "string list"
  | Client_Change "string list"

definition build_status_message :: "vec_json \<Rightarrow> bool \<Rightarrow> app_state \<Rightarrow> ws_message" where
  "build_status_message V fault st =
     Status_Msg
       (map (\<lambda>p. \<lparr>ps_name = r_name (pe_rule p), ps_status = status_string (pe_status p),
                  ps_connections = pe_connections p, ps_bandwidth_in = pe_bandwidth_in p,
                  ps_bandwidth_out = pe_bandwidth_out p\<rparr>)
          (list_proxies V fault (app_pm st)))
       (length (app_connected st)) (app_connected st)"

text \<open>
  What wakes the loop: the 3-second tick, or the result of \<^verbatim>\<open>client_rx.recv()\<close>; each with the
  state at that moment, the engine's fault flag and whether the socket takes the message.
\<close>

datatype ws_event =
    Ws_Tick app_state bool bool
  | Ws_Recv bool app_state bool

fun handle_ws :: "vec_json \<Rightarrow> ws_event list \<Rightarrow> ws_message list" where
  "handle_ws V [] = []"
| "handle_ws V (Ws_Tick st fault sent # es) =
     (if sent then build_status_message V fault st # handle_ws V es else [])"
| "handle_ws V (Ws_Recv ok st sent # es) =
     (if \<not> ok then handle_ws V es
      else if sent then Client_Change (app_connected st) # handle_ws V es else [])"

section \<open>Lemmas\<close>

lemma generate_jwt_valid:
  assumes "jwt_ok J" "generate_jwt J (Some now) u secret hours = Some t"
    and "unat now + unat hours * 3600 < 2 ^ 64"
  shows "validate_jwt J later t secret \<noteq> None \<longleftrightarrow> later \<le> unat now + unat hours * 3600 + 60"
proof -
  have "unat (now + hours * 3600) = unat now + unat hours * 3600"
    using assms(3) by (simp add: unat_word_ariths)
  with assms(1,2) show ?thesis
    by (simp add: jwt_ok_def generate_jwt_def validate_jwt_def)
qed

lemma api_route_slash: "api_route p \<noteq> None \<Longrightarrow> \<exists>q. p = CHR ''/'' # q"
  by (auto simp: api_route_def strip_prefix_def prefix_def split: if_splits)

lemma no_api_twice: "api_route p \<noteq> None \<Longrightarrow> \<not> prefix ''/api/'' p"
  by (auto simp: api_route_def strip_prefix_def prefix_def split: if_splits)

section \<open>Properties\<close>

definition sample_jwt :: jwt_lib where
  "sample_jwt =
     \<lparr>jwt_encode = (\<lambda>c secret. Some (chars_of_bytes
        (u64_to_be (jwt_exp c) @ u64_to_be (jwt_iat c) @ put_strings [secret, jwt_sub c]))),
      jwt_decode = (\<lambda>now t secret.
        let b = as_bytes t; c = \<lparr>jwt_sub = get_strings (drop 16 b) ! 1,
              jwt_exp = u64_from_be (take 8 b), jwt_iat = u64_from_be (take 8 (drop 8 b))\<rparr>
        in if get_strings (drop 16 b) = [secret, jwt_sub c] \<and> now \<le> unat (jwt_exp c) + 60
           then Some c else None)\<rparr>"

lemma sample_jwt_ok [simp]: "jwt_ok sample_jwt"
  by (auto simp: jwt_ok_def sample_jwt_def Let_def)

text \<open>
  A token lives exactly as long as it is meant to: the token issued at \<open>now\<close> for
  \<open>hours\<close> hours is accepted under the same secret up to its expiry plus the library's minute of
  leeway, and refused after it, provided the 64-bit expiry does not overflow.
\<close>
theorem token_lifetime:
  assumes "jwt_ok J" and "generate_jwt J (Some now) user secret hours = Some t"
    and "unat now + unat hours * 3600 < 2 ^ 64"
  shows "validate_jwt J later t secret \<noteq> None \<longleftrightarrow> later \<le> unat now + unat hours * 3600 + 60"
  using generate_jwt_valid [OF assms] .

theorem token_lifetime_witness:
  "\<exists>t. generate_jwt sample_jwt (Some 1000) ''admin'' ''s'' 24 = Some t \<and>
     validate_jwt sample_jwt 87460 t ''s'' \<noteq> None \<and> validate_jwt sample_jwt 87461 t ''s'' = None"
proof -
  obtain t where t: "generate_jwt sample_jwt (Some 1000) ''admin'' ''s'' 24 = Some t"
    by (auto simp: generate_jwt_def sample_jwt_def)
  have "unat (1000 :: u64) + unat (24 :: u64) * 3600 < 2 ^ 64" by simp
  note life = token_lifetime [OF sample_jwt_ok t this]
  have "validate_jwt sample_jwt 87460 t ''s'' \<noteq> None" unfolding life by simp
  moreover have "\<not> validate_jwt sample_jwt 87461 t ''s'' \<noteq> None" unfolding life by simp
  ultimately show ?thesis using t by (intro exI [of _ t]) simp
qed

text \<open>
  The intended guard: if the middleware saw the full request path, every endpoint other than
  the login and the WebSocket handshake would be reached only with a bearer token that the token
  library accepts under the configured secret.
\<close>
theorem full_path_guarded:
  assumes "\<And>p. nest_path p = p"
    and "build_app nest_path J assets now cfg method path hdr = To_Endpoint e"
    and "e \<noteq> Login" and "e \<noteq> Ws"
  shows "\<exists>t. hdr = Some (''Bearer '' @ t) \<and> validate_jwt J now t (jwt_secret (cfg_web cfg)) \<noteq> None"
proof -
  from assms(2) obtain p ms where p: "strip_prefix ''/api'' path = Some p"
    and ms: "api_route p = Some ms" "ms method = Some e"
    and gate: "auth_middleware J now cfg path hdr = Pass"
    by (auto simp: build_app_def assms(1) split: option.splits gate.splits if_splits)
  from p have path: "path = ''/api'' @ p" by (auto simp: strip_prefix_def prefix_def split: if_splits)
  from ms(1) obtain q where q: "p = CHR ''/'' # q" using api_route_slash by blast
  have "p \<noteq> ''/auth/login''" "\<not> prefix ''/ws'' p"
    using ms assms(3,4) by (auto simp: api_route_def strip_prefix_def prefix_def split: if_splits)
  with gate path q obtain h where h: "hdr = Some h" "prefix ''Bearer '' h"
    "validate_jwt J now (drop 7 h) (jwt_secret (cfg_web cfg)) \<noteq> None"
    by (auto simp: auth_middleware_def split: if_splits option.splits)
  from h(2) obtain t where "h = ''Bearer '' @ t" by (auto simp: prefix_def)
  with h show ?thesis by simp
qed

theorem full_path_guarded_witness:
  "\<exists>t. generate_jwt sample_jwt (Some 0) ''admin'' ''k'' 1 = Some t \<and>
     (\<exists>u. ''Bearer '' @ t = ''Bearer '' @ u \<and> validate_jwt sample_jwt 0 u ''k'' \<noteq> None)"
proof -
  obtain t where t: "generate_jwt sample_jwt (Some 0) ''admin'' ''k'' 1 = Some t"
    by (auto simp: generate_jwt_def sample_jwt_def)
  have v: "validate_jwt sample_jwt 0 t ''k'' \<noteq> None"
    using generate_jwt_valid [OF sample_jwt_ok t] by simp
  define cfg where "cfg = \<lparr>cfg_server = \<lparr>bind_addr = [], bind_port = 1, srv_token = [], http_port = 0,
      https_port = 0\<rparr>, cfg_web = \<lparr>web_enable = True, web_bind_addr = [], web_bind_port = 1,
      web_user = [], web_password = [], jwt_secret = ''k'', token_expire_hours = 1, cors_origins = []\<rparr>,
      cfg_tls = \<lparr>auto_cert = True, cert_file = [], key_file = []\<rparr>\<rparr>"
  have "build_app (\<lambda>p. p) sample_jwt (\<lambda>_. None) 0 cfg GET ''/api/clients'' (Some (''Bearer '' @ t))
      = To_Endpoint List_Clients"
    using v by (simp add: build_app_def api_route_def strip_prefix_def auth_middleware_def cfg_def)
  from full_path_guarded [OF _ this] have
    "\<exists>u. Some (''Bearer '' @ t) = Some (''Bearer '' @ u) \<and>
      validate_jwt sample_jwt 0 u (jwt_secret (cfg_web cfg)) \<noteq> None" by simp
  with t show ?thesis by (simp add: cfg_def)
qed

text \<open>
  C34. The actual guard: a nested router hands its layers the path without the prefix it is nested
  at. Seen that way no API path starts with \<^verbatim>\<open>/api/\<close>, the middleware takes each for a public
  one, and every endpoint is reached without any token.
\<close>
theorem nested_path_bypasses_auth:
  assumes "\<And>p. nest_path (''/api'' @ p) = p"
    and "api_route p = Some methods" and "methods method = Some e"
  shows "build_app nest_path J assets now cfg method (''/api'' @ p) hdr = To_Endpoint e"
proof -
  have "\<not> prefix ''/api/'' p" using assms(2) no_api_twice by auto
  then have "auth_middleware J now cfg p hdr = Pass" by (simp add: auth_middleware_def)
  moreover have "nest_path (''/api'' @ p) = p" by (rule assms(1))
  moreover have "strip_prefix ''/api'' (''/api'' @ p) = Some p" by (rule strip_prefix_append)
  ultimately show ?thesis
    using assms(2,3) by (simp only: build_app_def option.case gate.case)
qed

theorem nested_path_bypasses_auth_witness:
  "build_app (drop 4) sample_jwt (\<lambda>_. None) 0 (sample_config ''admin'' ''pw'') DELETE ''/api/proxies/ssh'' None =
     To_Endpoint (Delete_Proxy ''ssh'')"
proof -
  have n: "drop 4 (''/api'' @ p) = p" for p :: string by simp
  have "api_route ''/proxies/ssh'' =
      Some (\<lambda>m. case m of GET \<Rightarrow> Some (Get_Proxy ''ssh'') | PUT \<Rightarrow> Some (Update_Proxy ''ssh'')
                      | DELETE \<Rightarrow> Some (Delete_Proxy ''ssh'') | POST \<Rightarrow> None)"
    by (simp add: api_route_def strip_prefix_def)
  from nested_path_bypasses_auth [of "drop 4", OF n this, of DELETE] show ?thesis by simp
qed

end
