(* ===== verification/Net_Addr.thy ===== *)
theory Net_Addr
  imports Text "HOL-Library.Monad_Syntax"
begin

text \<open>
  The part of \<^verbatim>\<open>std::net\<close> the code uses: \<^verbatim>\<open>str::parse\<close> at \<^verbatim>\<open>IpAddr\<close> and
  \<^verbatim>\<open>SocketAddr\<close> (the recursive-descent parser of the standard library) and their
  \<^verbatim>\<open>Display\<close> output. An IPv4 address is its four octets, an IPv6 address its eight
  segments.
\<close>

section \<open>Addresses\<close>

datatype ip_addr = IpV4 bytes | IpV6 "u16 list"

datatype socket_addr = SockV4 bytes u16 | SockV6 "u16 list" u16

section \<open>Parser\<close>

type_synonym 'a parser = "string \<Rightarrow> ('a \<times> string) option"

definition digit_val :: "nat \<Rightarrow> char \<Rightarrow> nat option" where
  "digit_val radix c =
     (let n = of_char c :: nat;
          d = (if 48 \<le> n \<and> n \<le> 57 then Some (n - 48)
               else if 97 \<le> n \<and> n \<le> 102 then Some (n - 87)
               else if 65 \<le> n \<and> n \<le> 70 then Some (n - 55)
               else None)
      in case d of Some v \<Rightarrow> if v < radix then Some v else None | None \<Rightarrow> None)"

text \<open>Count, value and rest; \<open>None\<close> when the digit limit is exceeded.\<close>

fun read_digits ::
  "nat \<Rightarrow> nat option \<Rightarrow> nat \<Rightarrow> nat \<Rightarrow> string \<Rightarrow> (nat \<times> nat \<times> string) option" where
  "read_digits radix limit_o cnt acc [] = Some (cnt, acc, [])"
| "read_digits radix limit_o cnt acc (c # cs) =
     (case digit_val radix c of
        None \<Rightarrow> Some (cnt, acc, c # cs)
      | Some d \<Rightarrow>
          if (case limit_o of Some k \<Rightarrow> cnt + 1 > k | None \<Rightarrow> False) then None
          else read_digits radix limit_o (cnt + 1) (acc * radix + d) cs)"

definition read_number :: "nat \<Rightarrow> nat option \<Rightarrow> bool \<Rightarrow> nat \<Rightarrow> nat parser" where
  "read_number radix limit_o allow_zero_prefix max_value s =
     (case read_digits radix limit_o 0 0 s of
        None \<Rightarrow> None
      | Some (cnt, v, r) \<Rightarrow>
          if cnt = 0 then None
          else if \<not> allow_zero_prefix \<and> hd s = CHR ''0'' \<and> cnt > 1 then None
          else if v > max_value then None
          else Some (v, r))"

definition read_given_char :: "char \<Rightarrow> string \<Rightarrow> string option" where
  "read_given_char c s = (case s of [] \<Rightarrow> None | x # r \<Rightarrow> if x = c then Some r else None)"

definition read_separator :: "char \<Rightarrow> nat \<Rightarrow> 'a parser \<Rightarrow> 'a parser" where
  "read_separator sep i inner s =
     (if i > 0 then do { s' \<leftarrow> read_given_char sep s; inner s' } else inner s)"

definition read_octet :: "nat parser" where
  "read_octet = read_number 10 (Some 3) False 255"

definition read_ipv4 :: "bytes parser" where
  "read_ipv4 s =
     do { (a, s) \<leftarrow> read_separator CHR ''.'' 0 read_octet s;
          (b, s) \<leftarrow> read_separator CHR ''.'' 1 read_octet s;
          (c, s) \<leftarrow> read_separator CHR ''.'' 2 read_octet s;
          (d, s) \<leftarrow> read_separator CHR ''.'' 3 read_octet s;
          Some ([of_nat a, of_nat b, of_nat c, of_nat d], s) }"

definition join_octets :: "u8 \<Rightarrow> u8 \<Rightarrow> u16" where
  "join_octets a b = of_nat (unat a * 256 + unat b)"

text \<open>
  \<^verbatim>\<open>read_groups\<close> with \<open>slots\<close> groups left to fill at index \<open>i\<close>; the flag says that
  the groups ended in an embedded IPv4 address.
\<close>

fun read_groups :: "nat \<Rightarrow> nat \<Rightarrow> string \<Rightarrow> u16 list \<times> bool \<times> string" where
  "read_groups 0 i s = ([], False, s)"
| "read_groups (Suc k) i s =
     (case (if k > 0 then read_separator CHR '':'' i read_ipv4 s else None) of
        Some (o4, s') \<Rightarrow>
          ([join_octets (o4 ! 0) (o4 ! 1), join_octets (o4 ! 2) (o4 ! 3)], True, s')
      | None \<Rightarrow>
          (case read_separator CHR '':'' i (read_number 16 (Some 4) True 65535) s of
             Some (g, s') \<Rightarrow>
               (let (gs, v4, r) = read_groups k (Suc i) s' in (of_nat g # gs, v4, r))
           | None \<Rightarrow> ([], False, s)))"

definition read_ipv6 :: "u16 list parser" where
  "read_ipv6 s =
     (let (head, head_ipv4, r) = read_groups 8 0 s in
      if length head = 8 then Some (head, r)
      else if head_ipv4 then None
      else do {
        r \<leftarrow> read_given_char CHR '':'' r;
        r \<leftarrow> read_given_char CHR '':'' r;
        let (tail, _, r') = read_groups (8 - (length head + 1)) 0 r;
        Some (head @ replicate (8 - length head - length tail) 0 @ tail, r')
      })"

definition read_ip_addr :: "ip_addr parser" where
  "read_ip_addr s =
     (case read_ipv4 s of
        Some (a, r) \<Rightarrow> Some (IpV4 a, r)
      | None \<Rightarrow> map_option (\<lambda>(a, r). (IpV6 a, r)) (read_ipv6 s))"

definition read_port :: "u16 parser" where
  "read_port s =
     do { s \<leftarrow> read_given_char CHR '':'' s;
          (p, s) \<leftarrow> read_number 10 None True 65535 s;
          Some (of_nat p, s) }"

text \<open>The optional \<^verbatim>\<open>%scope\<close> of an IPv6 socket address is read and dropped.\<close>

definition read_scope_id :: "string \<Rightarrow> string" where
  "read_scope_id s =
     (case do { s \<leftarrow> read_given_char CHR ''%'' s; read_number 10 None True 4294967295 s } of
        Some (_, r) \<Rightarrow> r
      | None \<Rightarrow> s)"

definition read_socket_addr :: "socket_addr parser" where
  "read_socket_addr s =
     (case do { (ip, s) \<leftarrow> read_ipv4 s; (port, s) \<leftarrow> read_port s; Some (SockV4 ip port, s) } of
        Some r \<Rightarrow> Some r
      | None \<Rightarrow>
          do { s \<leftarrow> read_given_char CHR ''['' s;
               (ip, s) \<leftarrow> read_ipv6 s;
               s \<leftarrow> read_given_char CHR '']'' (read_scope_id s);
               (port, s) \<leftarrow> read_port s;
               Some (SockV6 ip port, s) })"

text \<open>The whole input must be consumed.\<close>

definition parse_with :: "'a parser \<Rightarrow> string \<Rightarrow> 'a option" where
  "parse_with inner s = (case inner s of Some (a, []) \<Rightarrow> Some a | _ \<Rightarrow> None)"

definition parse_ip_addr :: "string \<Rightarrow> ip_addr option" where
  "parse_ip_addr = parse_with read_ip_addr"

definition parse_socket_addr :: "string \<Rightarrow> socket_addr option" where
  "parse_socket_addr = parse_with read_socket_addr"

section \<open>Display\<close>

definition show_ipv4 :: "bytes \<Rightarrow> string" where
  "show_ipv4 o4 =
     dec (unat (o4 ! 0)) @ ''.'' @ dec (unat (o4 ! 1)) @ ''.'' @
     dec (unat (o4 ! 2)) @ ''.'' @ dec (unat (o4 ! 3))"

fun hex_digit :: "nat \<Rightarrow> char" where
  "hex_digit d = char_of (if d < 10 then 48 + d else 87 + d)"

fun hex :: "nat \<Rightarrow> string" where
  "hex n = (if n < 16 then [hex_digit n] else hex (n div 16) @ [hex_digit (n mod 16)])"

declare hex.simps [simp del]

fun show_segments :: "u16 list \<Rightarrow> string" where
  "show_segments [] = []"
| "show_segments [x] = hex (unat x)"
| "show_segments (x # xs) = hex (unat x) @ '':'' @ show_segments xs"

text \<open>Start and length of the first longest run of zero segments.\<close>

fun longest_zeros :: "nat \<Rightarrow> nat \<times> nat \<Rightarrow> nat \<times> nat \<Rightarrow> u16 list \<Rightarrow> nat \<times> nat" where
  "longest_zeros i cur best [] = best"
| "longest_zeros i (cs, cl) (bs, bl) (x # xs) =
     (if x = 0 then
        (let cur = (if cl = 0 then i else cs, cl + 1);
             best = (if snd cur > bl then cur else (bs, bl))
         in longest_zeros (i + 1) cur best xs)
      else longest_zeros (i + 1) (0, 0) (bs, bl) xs)"

definition show_ipv6 :: "u16 list \<Rightarrow> string" where
  "show_ipv6 segs =
     (if take 6 segs = [0, 0, 0, 0, 0, 65535] then
        ''::ffff:'' @ show_ipv4 (u16_to_be (segs ! 6) @ u16_to_be (segs ! 7))
      else
        let (start, len) = longest_zeros 0 (0, 0) (0, 0) segs in
        if len > 1 then
          show_segments (take start segs) @ ''::'' @ show_segments (drop (start + len) segs)
        else show_segments segs)"

fun show_socket_addr :: "socket_addr \<Rightarrow> string" where
  "show_socket_addr (SockV4 ip port) = show_ipv4 ip @ '':'' @ dec (unat port)"
| "show_socket_addr (SockV6 ip port) = ''['' @ show_ipv6 ip @ '']:'' @ dec (unat port)"

section \<open>Reading back decimal numbers\<close>

lemma digit_val_digit: "d < 10 \<Longrightarrow> digit_val 10 (digit d) = Some d"
  by (simp add: digit_val_def)

text \<open>Where a number stops: at the end or before a character that is no digit.\<close>

definition stops :: "string \<Rightarrow> bool" where
  "stops r \<longleftrightarrow> r = [] \<or> digit_val 10 (hd r) = None"

lemma stops_simps [simp]:
  "stops []" "stops (CHR ''.'' # r)" "stops (CHR '':'' # r)"
  by (simp_all add: stops_def digit_val_def)

lemma read_digits_stops: "stops r \<Longrightarrow> read_digits 10 limit_o cnt acc r = Some (cnt, acc, r)"
  by (cases r) (auto simp: stops_def)

lemma read_digits_dec:
  assumes "stops r" and "\<And>k. limit_o = Some k \<Longrightarrow> cnt + length (dec n) \<le> k"
  shows "read_digits 10 limit_o cnt acc (dec n @ r) =
    Some (cnt + length (dec n), acc * 10 ^ length (dec n) + n, r)"
proof -
  have "read_digits 10 limit_o cnt acc (dec n @ r) =
      read_digits 10 limit_o (cnt + length (dec n)) (acc * 10 ^ length (dec n) + n) r"
    if "\<And>k. limit_o = Some k \<Longrightarrow> cnt + length (dec n) \<le> k" for r
    using that
  proof (induction n arbitrary: r rule: dec.induct)
    case (1 n)
    show ?case
    proof (cases "n < 10")
      case True
      then have "dec n = [digit n]" by (subst dec.simps) simp
      with True 1 show ?thesis
        by (auto simp: digit_val_digit simp del: digit.simps split: option.splits)
    next
      case False
      then have d: "dec n = dec (n div 10) @ [digit (n mod 10)]" by (subst dec.simps) simp
      have "read_digits 10 limit_o cnt acc (dec (n div 10) @ (digit (n mod 10) # r)) =
          read_digits 10 limit_o (cnt + length (dec (n div 10)))
            (acc * 10 ^ length (dec (n div 10)) + n div 10) (digit (n mod 10) # r)"
        by (rule "1.IH" [OF False]) (use 1(2) d in fastforce)
      also have "\<dots> = read_digits 10 limit_o (cnt + length (dec n))
          ((acc * 10 ^ length (dec (n div 10)) + n div 10) * 10 + n mod 10) r"
        using 1(2) d
        by (auto simp: digit_val_digit simp del: digit.simps split: option.splits)
      also have "(acc * 10 ^ length (dec (n div 10)) + n div 10) * 10 + n mod 10 =
          acc * 10 ^ length (dec n) + n"
        by (simp add: d algebra_simps)
      finally show ?thesis by (simp add: d)
    qed
  qed
  with assms show ?thesis by (simp add: read_digits_stops)
qed

lemma length_dec_octet: "n < 256 \<Longrightarrow> length (dec n) \<le> 3"
  by (subst dec.simps, subst dec.simps, subst dec.simps, subst dec.simps) simp

lemma hd_dec_zero: "hd (dec n) = CHR ''0'' \<Longrightarrow> n = 0"
proof (induction n rule: dec.induct)
  case (1 n)
  have nz: "digit n \<noteq> CHR ''0''" if "n \<noteq> 0" "n < 10"
  proof
    assume "digit n = CHR ''0''"
    then have "(of_char (digit n) :: nat) = of_char (CHR ''0'')" by (rule arg_cong)
    with that show False by simp
  qed
  show ?case
  proof (cases "n < 10")
    case True
    then have "dec n = [digit n]" by (subst dec.simps) simp
    with 1 nz True show ?thesis by (auto simp del: digit.simps)
  next
    case False
    then have "dec n = dec (n div 10) @ [digit (n mod 10)]" by (subst dec.simps) simp
    with 1 False have "n div 10 = 0" by (auto simp: hd_append simp del: digit.simps)
    with False show ?thesis by simp
  qed
qed

lemma dec_zero [simp]: "dec 0 = ''0''"
  by (subst dec.simps) code_simp

lemma read_octet_dec [simp]:
  assumes "stops r" "n < 256"
  shows "read_octet (dec n @ r) = Some (n, r)"
proof -
  have "length (dec n) \<noteq> 0" by simp
  moreover have "hd (dec n @ r) = CHR ''0'' \<Longrightarrow> length (dec n) = 1"
    using hd_dec_zero [of n] by (auto simp: hd_append)
  ultimately show ?thesis
    using read_digits_dec [OF assms(1), of "Some 3" 0 n 0] length_dec_octet [OF assms(2)] assms(2)
    by (auto simp: read_octet_def read_number_def)
qed

lemma read_port_dec [simp]:
  assumes "stops r"
  shows "read_port (CHR '':'' # dec (unat (p :: u16)) @ r) = Some (p, r)"
proof -
  have "unat p \<le> 65535" using unat_bound [of p] by simp
  moreover have "length (dec (unat p)) \<noteq> 0" by simp
  ultimately show ?thesis
    using read_digits_dec [OF assms, of None 0 "unat p" 0]
    by (simp add: read_port_def read_given_char_def read_number_def)
qed

lemma read_ipv4_show:
  assumes "length o4 = 4" "stops r"
  shows "read_ipv4 (show_ipv4 o4 @ r) = Some (o4, r)"
proof -
  obtain a b c d where o4: "o4 = [a, b, c, d]"
    using assms(1) by (auto simp: numeral_eq_Suc length_Suc_conv)
  have "unat a < 256" "unat b < 256" "unat c < 256" "unat d < 256"
    using unat_bound [of a] unat_bound [of b] unat_bound [of c] unat_bound [of d] by simp_all
  with assms(2) show ?thesis
    by (simp add: o4 read_ipv4_def show_ipv4_def read_separator_def read_given_char_def)
qed

text \<open>Printing and parsing an IPv4 socket address gives it back.\<close>

lemma parse_show_v4: "length ip = 4 \<Longrightarrow> parse_socket_addr (show_socket_addr (SockV4 ip port)) = Some (SockV4 ip port)"
  using read_port_dec [of "[]" port]
  by (simp add: parse_socket_addr_def parse_with_def read_socket_addr_def read_ipv4_show)

lemma parse_ip_show_v4: "length ip = 4 \<Longrightarrow> parse_ip_addr (show_ipv4 ip) = Some (IpV4 ip)"
  using read_ipv4_show [of ip "[]"] by (simp add: parse_ip_addr_def parse_with_def read_ip_addr_def)

section \<open>Shapes\<close>

lemma read_ipv4_length: "read_ipv4 s = Some (a, r) \<Longrightarrow> length a = 4"
  by (auto simp: read_ipv4_def bind_eq_Some_conv split: prod.splits)

lemma read_groups_length:
  "read_groups k i s = (gs, v4, r) \<Longrightarrow> length gs \<le> k"
proof (induction k arbitrary: i s gs v4 r)
  case (Suc k)
  then show ?case
    by (fastforce split: option.splits if_splits prod.splits)
qed simp

lemma read_ipv6_length:
  assumes "read_ipv6 s = Some (a, r)"
  shows "length a = 8"
proof -
  obtain h v4 r1 where h: "read_groups 8 0 s = (h, v4, r1)" by (cases "read_groups 8 0 s")
  then have h8: "length h \<le> 8" by (rule read_groups_length)
  show ?thesis
  proof (cases "length h = 8")
    case True
    with assms h show ?thesis by (simp add: read_ipv6_def)
  next
    case False
    with assms h obtain q where
      a: "(case read_groups (8 - (length h + 1)) 0 q of (t, _, r') \<Rightarrow>
             Some (h @ replicate (8 - length h - length t) 0 @ t, r')) = Some (a, r)"
      by (auto simp: read_ipv6_def bind_eq_Some_conv split: if_splits)
    obtain t w r2 where t: "read_groups (8 - (length h + 1)) 0 q = (t, w, r2)"
      by (cases "read_groups (8 - (length h + 1)) 0 q")
    then have "length t \<le> 8 - (length h + 1)" by (rule read_groups_length)
    with a t h8 False show ?thesis by auto
  qed
qed

lemma read_socket_addr_shape:
  assumes "parse_socket_addr s = Some a"
  shows "(\<exists>ip p. a = SockV4 ip p \<and> length ip = 4) \<or> (\<exists>ip p. a = SockV6 ip p \<and> length ip = 8)"
proof -
  have "read_socket_addr s = Some (a, [])"
    using assms by (auto simp: parse_socket_addr_def parse_with_def split: option.splits list.splits)
  then show ?thesis
    by (auto simp: read_socket_addr_def bind_eq_Some_conv dest: read_ipv4_length read_ipv6_length
        split: option.splits prod.splits)
qed

end
