(* ===== verification/Api.thy ===== *)
theory Api
  imports Web_Auth Net_Addr "HOL-Library.Char_ord" "HOL-Library.List_Lexorder"
    "HOL-Library.Product_Lexorder"
begin

text \<open>
  \<^verbatim>\<open>crates/web/src/api.rs\<close>: input validation, the login handler and the handlers on rules and
  clients. A handler is a function on the application state and the server environment behind
  the callbacks; \<open>F k\<close> says whether the database reports an error for the handler's \<open>k\<close>-th
  statement. Messages are constructors carrying what the source formats into the text.
\<close>

section \<open>Responses\<close>

datatype api_message =
    Msg_Ok
  | Name_Length | Name_Chars
  | Bad_Ip string | Port_Zero string
  | Domain_Length string | Domain_Chars string | Domain_Form string
  | Bad_Proxy_Protocol string
  | Client_Id_Length | Client_Id_Chars
  | Bad_Type string
  | Too_Many_Attempts | Bad_Credentials | Token_Failed
  | Store_Error pm_error
  | No_Such_Rule string | Lost_After_Create | Lost_After_Update

record 'a api_response =
  rsp_code :: u16
  rsp_message :: api_message
  rsp_data :: "'a option"

definition success :: "'a \<Rightarrow> 'a api_response" where
  "success d = \<lparr>rsp_code = 200, rsp_message = Msg_Ok, rsp_data = Some d\<rparr>"

definition error_response :: "u16 \<Rightarrow> api_message \<Rightarrow> 'a api_response" where
  "error_response code message = \<lparr>rsp_code = code, rsp_message = message, rsp_data = None\<rparr>"

lemma response_simps [simp]:
  "rsp_code (success d) = 200" "rsp_code (error_response c m) = c"
  "rsp_data (success d) = Some d" "rsp_data (error_response c m) = None"
  "rsp_message (success d) = Msg_Ok" "rsp_message (error_response c m) = m"
  by (simp_all add: success_def error_response_def)

section \<open>Validation\<close>

type_synonym check = "api_message + unit"

abbreviation dash :: nat where "dash \<equiv> 45"
abbreviation dot :: nat where "dot \<equiv> 46"
abbreviation underscore :: nat where "underscore \<equiv> 95"

definition validate_proxy_name :: "(nat \<Rightarrow> bool) \<Rightarrow> string \<Rightarrow> check" where
  "validate_proxy_name U name =
     (if name = [] \<or> length name > 64 then Inl Name_Length
      else if \<not> list_all (\<lambda>c. is_alphanumeric U c \<or> c = dash \<or> c = underscore) (chars name)
      then Inl Name_Chars
      else Inr ())"

definition validate_ip :: "string \<Rightarrow> check" where
  "validate_ip ip = (if parse_ip_addr ip = None then Inl (Bad_Ip ip) else Inr ())"

definition validate_port :: "u16 \<Rightarrow> string \<Rightarrow> check" where
  "validate_port port field_name = (if port = 0 then Inl (Port_Zero field_name) else Inr ())"

definition validate_domain :: "(nat \<Rightarrow> bool) \<Rightarrow> string \<Rightarrow> check" where
  "validate_domain U domain =
     (if domain = [] \<or> length domain > 253 then Inl (Domain_Length domain)
      else if \<not> list_all (\<lambda>c. is_alphanumeric U c \<or> c = dash \<or> c = dot \<or> c = underscore)
                 (chars domain)
      then Inl (Domain_Chars domain)
      else if prefix ''-'' domain \<or> prefix ''.'' domain then Inl (Domain_Form domain)
      else Inr ())"

definition validate_proxy_protocol :: "string \<Rightarrow> check" where
  "validate_proxy_protocol protocol =
     (if protocol = [] \<or> protocol = ''v1'' \<or> protocol = ''v2'' then Inr ()
      else Inl (Bad_Proxy_Protocol protocol))"

definition validate_client_id :: "(nat \<Rightarrow> bool) \<Rightarrow> string \<Rightarrow> check" where
  "validate_client_id U cid =
     (if cid = [] \<or> length cid > 64 then Inl Client_Id_Length
      else if \<not> list_all (\<lambda>c. is_alphanumeric U c \<or> c = dash \<or> c = underscore \<or> c = dot) (chars cid)
      then Inl Client_Id_Chars
      else Inr ())"

text \<open>The early returns of a handler: the first check that fails.\<close>

fun first_error :: "check list \<Rightarrow> check" where
  "first_error [] = Inr ()"
| "first_error (r # rs) = (case r of Inl e \<Rightarrow> Inl e | Inr _ \<Rightarrow> first_error rs)"

lemma first_error_Inr [simp]: "first_error rs = Inr () \<longleftrightarrow> (\<forall>r \<in> set rs. r = Inr ())"
  by (induction rs) (auto split: sum.splits)

section \<open>Passwords\<close>

definition constant_time_eq :: "bytes \<Rightarrow> bytes \<Rightarrow> bool" where
  "constant_time_eq a b =
     (if length a \<noteq> length b then False else xor_acc 0 a b = 0)"

text \<open>\<open>bcrypt\<close> is \<^verbatim>\<open>bcrypt::verify\<close>, \<open>None\<close> for its error.\<close>

definition verify_password ::
  "(string \<Rightarrow> string \<Rightarrow> bool option) \<Rightarrow> string \<Rightarrow> string \<Rightarrow> bool" where
  "verify_password bcrypt provided stored =
     (if prefix ''$2b$'' stored \<or> prefix ''$2a$'' stored then
        (case bcrypt provided stored of Some b \<Rightarrow> b | None \<Rightarrow> False)
      else constant_time_eq (as_bytes provided) (as_bytes stored))"

lemma constant_time_eq_iff: "constant_time_eq a b \<longleftrightarrow> a = b"
  by (auto simp: constant_time_eq_def xor_acc_zero)

section \<open>Data transfer objects\<close>

record proxy_info =
  pi_name :: string
  pi_proxy_type :: string
  pi_client_id :: string
  pi_local_ip :: string
  pi_local_port :: u16
  pi_remote_port :: u16
  pi_custom_domains :: "string list"
  pi_proxy_protocol :: string
  pi_status :: string
  pi_connections :: u64
  pi_bandwidth_in :: real
  pi_bandwidth_out :: real

definition info_of_entry :: "proxy_entry \<Rightarrow> proxy_info" where
  "info_of_entry e =
     \<lparr>pi_name = r_name (pe_rule e), pi_proxy_type = as_str (r_type (pe_rule e)),
      pi_client_id = r_client_id (pe_rule e), pi_local_ip = r_local_ip (pe_rule e),
      pi_local_port = r_local_port (pe_rule e), pi_remote_port = r_remote_port (pe_rule e),
      pi_custom_domains = r_custom_domains (pe_rule e),
      pi_proxy_protocol = r_proxy_protocol (pe_rule e),
      pi_status = status_string (pe_status e), pi_connections = pe_connections e,
      pi_bandwidth_in = pe_bandwidth_in e, pi_bandwidth_out = pe_bandwidth_out e\<rparr>"

record create_proxy_request =
  cr_name :: string
  cr_type :: string
  cr_client_id :: string
  cr_local_ip :: string
  cr_local_port :: u16
  cr_remote_port :: u16
  cr_custom_domains :: "string list"
  cr_proxy_protocol :: string

record update_proxy_request =
  ur_type :: "string option"
  ur_client_id :: "string option"
  ur_local_ip :: "string option"
  ur_local_port :: "u16 option"
  ur_remote_port :: "u16 option"
  ur_custom_domains :: "string list option"
  ur_proxy_protocol :: "string option"

datatype client_info = Client_Info (ci_id: string) (ci_online: bool)

record status_info =
  si_version :: string
  si_connected_clients :: nat
  si_total_proxies :: nat

record login_request =
  lr_username :: string
  lr_password :: string

record login_response =
  lo_token :: string
  lo_expires_in :: u64

section \<open>Login\<close>

text \<open>What the handlers take from outside the repository, and the installed callbacks.\<close>

record 'e web_params =
  wp_unicode :: "nat \<Rightarrow> bool"
  wp_vec :: vec_json
  wp_serde :: serde
  wp_jwt :: jwt_lib
  wp_bcrypt :: "string \<Rightarrow> string \<Rightarrow> bool option"
  wp_callbacks :: "'e callbacks"

definition user_ok :: "(string \<Rightarrow> string \<Rightarrow> bool option) \<Rightarrow> server_config \<Rightarrow> login_request \<Rightarrow> bool" where
  "user_ok bcrypt cfg req \<longleftrightarrow>
     lr_username req = web_user (cfg_web cfg)
     \<and> verify_password bcrypt (lr_password req) (web_password (cfg_web cfg))"

text \<open>
  \<open>now1\<close> and \<open>now2\<close> are the clock readings of the rate-limit check and of the record, \<open>unix\<close> that of
  the token.
\<close>

definition login ::
  "'e web_params \<Rightarrow> instant \<Rightarrow> instant \<Rightarrow> u64 option \<Rightarrow> login_request \<Rightarrow> app_state \<Rightarrow>
   login_response api_response \<times> app_state" where
  "login P now1 now2 unix req st =
     (let (allowed, m) = check_login_rate_limit now1 (lr_username req) (app_login_attempts st);
          st = st\<lparr>app_login_attempts := m\<rparr>
      in if \<not> allowed then (error_response 429 Too_Many_Attempts, st)
         else
           let web = cfg_web (app_config st) in
           if \<not> user_ok (wp_bcrypt P) (app_config st) req then
             (error_response 401 Bad_Credentials,
              st\<lparr>app_login_attempts := record_login_attempt now2 (lr_username req) False m\<rparr>)
           else
             let st = st\<lparr>app_login_attempts := record_login_attempt now2 (lr_username req) True m\<rparr>
             in case generate_jwt (wp_jwt P) unix (lr_username req) (jwt_secret web)
                       (token_expire_hours web) of
                  None \<Rightarrow> (error_response 500 Token_Failed, st)
                | Some token \<Rightarrow>
                    (success \<lparr>lo_token = token, lo_expires_in = token_expire_hours web * 3600\<rparr>, st))"

section \<open>Handlers on rules\<close>

definition create_checks :: "(nat \<Rightarrow> bool) \<Rightarrow> create_proxy_request \<Rightarrow> check list" where
  "create_checks U payload =
     [validate_proxy_name U (cr_name payload),
      validate_client_id U (cr_client_id payload),
      validate_ip (cr_local_ip payload),
      validate_port (cr_local_port payload) ''local_port''] @
     (if cr_type payload = ''tcp'' \<or> cr_type payload = ''udp''
      then [validate_port (cr_remote_port payload) ''remote_port''] else []) @
     map (validate_domain U) (cr_custom_domains payload) @
     [validate_proxy_protocol (cr_proxy_protocol payload)]"

definition create_rule :: "proxy_type \<Rightarrow> create_proxy_request \<Rightarrow> proxy_rule" where
  "create_rule t payload =
     \<lparr>r_name = cr_name payload, r_type = t, r_client_id = cr_client_id payload,
      r_local_ip = cr_local_ip payload, r_local_port = cr_local_port payload,
      r_remote_port = cr_remote_port payload, r_custom_domains = cr_custom_domains payload,
      r_proxy_protocol = cr_proxy_protocol payload\<rparr>"

definition on_pm :: "(proxy_manager \<Rightarrow> proxy_manager) \<Rightarrow> 'e world \<Rightarrow> 'e world" where
  "on_pm f w = (map_pm f (fst w), snd w)"

definition set_pm :: "proxy_manager \<Rightarrow> 'e world \<Rightarrow> 'e world" where
  "set_pm pm = on_pm (\<lambda>_. pm)"

abbreviation pm_of :: "'e world \<Rightarrow> proxy_manager" where
  "pm_of w \<equiv> app_pm (fst w)"

lemma on_pm_simps [simp]:
  "pm_of (on_pm f w) = f (pm_of w)" "snd (on_pm f w) = snd w"
  "app_config (fst (on_pm f w)) = app_config (fst w)"
  "app_connected (fst (on_pm f w)) = app_connected (fst w)"
  by (simp_all add: on_pm_def)

lemma set_pm_simps [simp]:
  "pm_of (set_pm pm w) = pm" "snd (set_pm pm w) = snd w"
  "app_config (fst (set_pm pm w)) = app_config (fst w)"
  "app_connected (fst (set_pm pm w)) = app_connected (fst w)"
  by (simp_all add: set_pm_def)

definition notify_assign :: "'e web_params \<Rightarrow> proxy_rule \<Rightarrow> 'e world \<Rightarrow> 'e world" where
  "notify_assign P rule w =
     snd (notify_client (wp_callbacks P) (r_client_id rule)
            (to_string_or_default (wp_serde P) (ServerAssignProxy (assign_of_rule rule))) w)"

definition create_proxy ::
  "'e web_params \<Rightarrow> (nat \<Rightarrow> bool) \<Rightarrow> create_proxy_request \<Rightarrow> 'e world \<Rightarrow>
   proxy_info api_response \<times> 'e world" where
  "create_proxy P F payload w =
     (case first_error (create_checks (wp_unicode P) payload) of
        Inl e \<Rightarrow> (error_response 400 e, w)
      | Inr _ \<Rightarrow>
          (case api_proxy_type (cr_type payload) of
             None \<Rightarrow> (error_response 400 (Bad_Type (cr_type payload)), w)
           | Some t \<Rightarrow>
               let rule = create_rule t payload in
               (case add_proxy (wp_vec P) (F 0) rule (pm_of w) of
                  (Inl e, pm) \<Rightarrow> (error_response 400 (Store_Error e), set_pm pm w)
                | (Inr _, pm) \<Rightarrow>
                    let w = set_pm pm w;
                        w = on_pm (update_status (r_name rule) Starting) w;
                        w = on_proxy_create (wp_callbacks P) rule w;
                        w = notify_assign P rule w
                    in (case get_proxy (wp_vec P) (F 1) (r_name rule) (pm_of w) of
                          Some entry \<Rightarrow> (success (info_of_entry entry), w)
                        | None \<Rightarrow> (error_response 500 Lost_After_Create, w)))))"

definition api_get_proxy ::
  "'e web_params \<Rightarrow> (nat \<Rightarrow> bool) \<Rightarrow> string \<Rightarrow> 'e world \<Rightarrow> proxy_info api_response" where
  "api_get_proxy P F name w =
     (case get_proxy (wp_vec P) (F 0) name (pm_of w) of
        Some entry \<Rightarrow> success (info_of_entry entry)
      | None \<Rightarrow> error_response 404 (No_Such_Rule name))"

definition api_list_proxies ::
  "'e web_params \<Rightarrow> (nat \<Rightarrow> bool) \<Rightarrow> 'e world \<Rightarrow> proxy_info list api_response" where
  "api_list_proxies P F w =
     success (map info_of_entry (list_proxies (wp_vec P) (F 0) (pm_of w)))"

definition opt_check :: "('a \<Rightarrow> check) \<Rightarrow> 'a option \<Rightarrow> check list" where
  "opt_check f x = (case x of Some a \<Rightarrow> [f a] | None \<Rightarrow> [])"

definition update_checks1 :: "(nat \<Rightarrow> bool) \<Rightarrow> update_proxy_request \<Rightarrow> check list" where
  "update_checks1 U payload =
     opt_check (\<lambda>t. if t = ''tcp'' \<or> t = ''udp'' \<or> t = ''http'' \<or> t = ''https'' then Inr ()
                    else Inl (Bad_Type t)) (ur_type payload) @
     opt_check (validate_client_id U) (ur_client_id payload) @
     opt_check validate_ip (ur_local_ip payload) @
     opt_check (\<lambda>p. validate_port p ''local_port'') (ur_local_port payload)"

definition is_stream_update :: "update_proxy_request \<Rightarrow> proxy_rule \<Rightarrow> bool" where
  "is_stream_update payload existing =
     (case ur_type payload of
        Some t \<Rightarrow>
          if t = ''tcp'' \<or> t = ''udp'' then True
          else if t = ''http'' \<or> t = ''https'' then False
          else stream_type (r_type existing)
      | None \<Rightarrow> stream_type (r_type existing))"

definition update_checks2 ::
  "(nat \<Rightarrow> bool) \<Rightarrow> update_proxy_request \<Rightarrow> proxy_rule \<Rightarrow> check list" where
  "update_checks2 U payload existing =
     opt_check (\<lambda>p. if is_stream_update payload existing then validate_port p ''remote_port''
                    else Inr ()) (ur_remote_port payload) @
     (case ur_custom_domains payload of Some ds \<Rightarrow> map (validate_domain U) ds | None \<Rightarrow> []) @
     opt_check validate_proxy_protocol (ur_proxy_protocol payload)"

definition unwrap_or :: "'a option \<Rightarrow> 'a \<Rightarrow> 'a" where
  "unwrap_or x d = (case x of Some a \<Rightarrow> a | None \<Rightarrow> d)"

definition merge_rule :: "string \<Rightarrow> update_proxy_request \<Rightarrow> proxy_rule \<Rightarrow> proxy_rule" where
  "merge_rule name payload existing =
     \<lparr>r_name = name,
      r_type = unwrap_or (Option.bind (ur_type payload) api_proxy_type) (r_type existing),
      r_client_id = unwrap_or (ur_client_id payload) (r_client_id existing),
      r_local_ip = unwrap_or (ur_local_ip payload) (r_local_ip existing),
      r_local_port = unwrap_or (ur_local_port payload) (r_local_port existing),
      r_remote_port = unwrap_or (ur_remote_port payload) (r_remote_port existing),
      r_custom_domains = unwrap_or (ur_custom_domains payload) (r_custom_domains existing),
      r_proxy_protocol = unwrap_or (ur_proxy_protocol payload) (r_proxy_protocol existing)\<rparr>"

definition api_update_proxy ::
  "'e web_params \<Rightarrow> (nat \<Rightarrow> bool) \<Rightarrow> string \<Rightarrow> update_proxy_request \<Rightarrow> 'e world \<Rightarrow>
   proxy_info api_response \<times> 'e world" where
  "api_update_proxy P F name payload w =
     (case first_error (update_checks1 (wp_unicode P) payload) of
        Inl e \<Rightarrow> (error_response 400 e, w)
      | Inr _ \<Rightarrow>
          (case get_proxy (wp_vec P) (F 0) name (pm_of w) of
             None \<Rightarrow> (error_response 404 (No_Such_Rule name), w)
           | Some old \<Rightarrow>
               let existing = pe_rule old in
               (case first_error (update_checks2 (wp_unicode P) payload existing) of
                  Inl e \<Rightarrow> (error_response 400 e, w)
                | Inr _ \<Rightarrow>
                    let updated_rule = merge_rule name payload existing in
                    (case update_proxy (wp_vec P) (F 1) name updated_rule (pm_of w) of
                       (Inl e, pm) \<Rightarrow> (error_response 400 (Store_Error e), set_pm pm w)
                     | (Inr _, pm) \<Rightarrow>
                         let w = set_pm pm w;
                             w = on_proxy_delete (wp_callbacks P) existing w;
                             w = on_proxy_create (wp_callbacks P) updated_rule w;
                             w = notify_assign P updated_rule w
                         in (case get_proxy (wp_vec P) (F 2) name (pm_of w) of
                               Some entry \<Rightarrow> (success (info_of_entry entry), w)
                             | None \<Rightarrow> (error_response 500 Lost_After_Update, w))))))"

definition delete_proxy ::
  "'e web_params \<Rightarrow> (nat \<Rightarrow> bool) \<Rightarrow> string \<Rightarrow> 'e world \<Rightarrow> unit api_response \<times> 'e world" where
  "delete_proxy P F name w =
     (case get_proxy (wp_vec P) (F 0) name (pm_of w) of
        None \<Rightarrow> (error_response 404 (No_Such_Rule name), w)
      | Some entry \<Rightarrow>
          (case remove_proxy (wp_vec P) (F 1) (F 2) name (pm_of w) of
             (Inl e, pm) \<Rightarrow> (error_response 400 (Store_Error e), set_pm pm w)
           | (Inr _, pm) \<Rightarrow>
               let w = set_pm pm w;
                   w = on_pm (update_status name Stopping) w;
                   w = on_proxy_delete (wp_callbacks P) (pe_rule entry) w;
                   w = snd (notify_client (wp_callbacks P) (r_client_id (pe_rule entry))
                         (to_string_or_default (wp_serde P) (ServerCloseProxy \<lparr>scp_name = name\<rparr>)) w)
               in (success (), w)))"

section \<open>Handlers on clients and status\<close>

text \<open>Online clients first, then by id: the order of \<^verbatim>\<open>sort_by\<close>.\<close>

instantiation client_info :: linorder
begin

definition less_eq_client_info :: "client_info \<Rightarrow> client_info \<Rightarrow> bool" where
  "a \<le> b \<longleftrightarrow> (\<not> ci_online a, ci_id a) \<le> (\<not> ci_online b, ci_id b)"

definition less_client_info :: "client_info \<Rightarrow> client_info \<Rightarrow> bool" where
  "a < b \<longleftrightarrow> (\<not> ci_online a, ci_id a) < (\<not> ci_online b, ci_id b)"

instance
  by standard (auto simp: less_eq_client_info_def less_client_info_def client_info.expand)

end

text \<open>The second loop: \<open>seen.insert\<close> is true for the ids that are new.\<close>

fun add_online :: "string set \<Rightarrow> string list \<Rightarrow> client_info list" where
  "add_online seen [] = []"
| "add_online seen (i # ids) =
     (if i \<in> seen then add_online seen ids
      else Client_Info i True # add_online (insert i seen) ids)"

definition merge_clients :: "string list \<Rightarrow> string list \<Rightarrow> client_info list" where
  "merge_clients online all_client_ids =
     sort (map (\<lambda>i. Client_Info i (i \<in> set online)) all_client_ids @
           add_online (set all_client_ids) online)"

definition list_clients :: "(nat \<Rightarrow> bool) \<Rightarrow> 'e world \<Rightarrow> client_info list api_response" where
  "list_clients F w =
     success (merge_clients (app_connected (fst w)) (list_client_ids (F 0) (pm_of w)))"

definition server_status ::
  "'e web_params \<Rightarrow> (nat \<Rightarrow> bool) \<Rightarrow> 'e world \<Rightarrow> status_info api_response" where
  "server_status P F w =
     success \<lparr>si_version = ''0.1.8'', si_connected_clients = length (app_connected (fst w)),
       si_total_proxies = length (list_proxies (wp_vec P) (F 0) (pm_of w))\<rparr>"

section \<open>Lemmas on the handlers\<close>

lemma set_pm_same [simp]: "set_pm (pm_of w) w = w"
  by (cases w) (simp add: set_pm_def on_pm_def map_pm_def)

text \<open>Where a handler leaves the world: as it was, or after the store update and the callbacks.\<close>

definition created :: "'e web_params \<Rightarrow> proxy_rule \<Rightarrow> proxy_manager \<Rightarrow> 'e world \<Rightarrow> 'e world" where
  "created P rule pm w =
     notify_assign P rule (on_proxy_create (wp_callbacks P) rule
       (on_pm (update_status (r_name rule) Starting) (set_pm pm w)))"

definition updated ::
  "'e web_params \<Rightarrow> proxy_rule \<Rightarrow> proxy_rule \<Rightarrow> proxy_manager \<Rightarrow> 'e world \<Rightarrow> 'e world" where
  "updated P existing rule pm w =
     notify_assign P rule (on_proxy_create (wp_callbacks P) rule
       (on_proxy_delete (wp_callbacks P) existing (set_pm pm w)))"

definition deleted :: "'e web_params \<Rightarrow> proxy_rule \<Rightarrow> proxy_manager \<Rightarrow> 'e world \<Rightarrow> 'e world" where
  "deleted P rule pm w =
     snd (notify_client (wp_callbacks P) (r_client_id rule)
       (to_string_or_default (wp_serde P) (ServerCloseProxy \<lparr>scp_name = r_name rule\<rparr>))
       (on_proxy_delete (wp_callbacks P) rule
         (on_pm (update_status (r_name rule) Stopping) (set_pm pm w))))"

lemma create_proxy_cases:
  assumes "create_proxy P F payload w = (resp, w')"
  obtains (refused) "w' = w" "rsp_code resp = 400"
  | (changed) t pm where
      "\<forall>c \<in> set (create_checks (wp_unicode P) payload). c = Inr ()"
      "api_proxy_type (cr_type payload) = Some t"
      "add_proxy (wp_vec P) (F 0) (create_rule t payload) (pm_of w) = (Inr (), pm)"
      "w' = created P (create_rule t payload) pm w"
      "resp = (case get_proxy (wp_vec P) (F 1) (cr_name payload) (pm_of w') of
          Some entry \<Rightarrow> success (info_of_entry entry)
        | None \<Rightarrow> error_response 500 Lost_After_Create)"
proof (cases "first_error (create_checks (wp_unicode P) payload)")
  case (Inl e)
  with assms show ?thesis by (intro refused) (auto simp: create_proxy_def)
next
  case ok: (Inr u)
  show ?thesis
  proof (cases "api_proxy_type (cr_type payload)")
    case None
    with assms ok show ?thesis by (intro refused) (auto simp: create_proxy_def)
  next
    case t: (Some t)
    let ?r = "create_rule t payload"
    obtain res pm where a: "add_proxy (wp_vec P) (F 0) ?r (pm_of w) = (res, pm)"
      by (cases "add_proxy (wp_vec P) (F 0) ?r (pm_of w)")
    show ?thesis
    proof (cases res)
      case (Inl e)
      with a have "pm = pm_of w" by (auto dest: add_proxy_Inl)
      with assms ok t a Inl show ?thesis
        by (intro refused) (auto simp: create_proxy_def Let_def)
    next
      case (Inr v)
      have n: "r_name ?r = cr_name payload" by (simp add: create_rule_def)
      have w': "w' = created P ?r pm w"
        using assms ok t a Inr by (auto simp: create_proxy_def created_def Let_def split: option.splits)
      show ?thesis
      proof (rule changed [OF _ t _ w'])
        show "\<forall>c \<in> set (create_checks (wp_unicode P) payload). c = Inr ()"
          using ok by (simp add: first_error_Inr [symmetric] del: first_error_Inr)
        show "add_proxy (wp_vec P) (F 0) ?r (pm_of w) = (Inr (), pm)" using a Inr by simp
        show "resp = (case get_proxy (wp_vec P) (F 1) (cr_name payload) (pm_of w') of
            Some entry \<Rightarrow> success (info_of_entry entry)
          | None \<Rightarrow> error_response 500 Lost_After_Create)"
          using assms ok t a Inr unfolding w'
          by (auto simp: create_proxy_def created_def Let_def n split: option.splits)
      qed
    qed
  qed
qed

lemma get_proxy_rule: "get_proxy V f n pm = Some e \<Longrightarrow> \<not> f \<and> lookup_rule V pm n = Some (pe_rule e)"
  by (auto simp: get_proxy_def query_rule_lookup entry_of_def Let_def split: if_splits)

lemma update_proxy_cases:
  assumes "api_update_proxy P F name payload w = (resp, w')"
  obtains (refused) "w' = w" "rsp_code resp = 400 \<or> rsp_code resp = 404"
  | (changed) existing pm where
      "lookup_rule (wp_vec P) (pm_of w) name = Some existing"
      "\<forall>c \<in> set (update_checks1 (wp_unicode P) payload @
           update_checks2 (wp_unicode P) payload existing). c = Inr ()"
      "update_proxy (wp_vec P) (F 1) name (merge_rule name payload existing) (pm_of w) = (Inr (), pm)"
      "w' = updated P existing (merge_rule name payload existing) pm w"
      "resp = (case get_proxy (wp_vec P) (F 2) name (pm_of w') of
          Some entry \<Rightarrow> success (info_of_entry entry)
        | None \<Rightarrow> error_response 500 Lost_After_Update)"
proof (cases "first_error (update_checks1 (wp_unicode P) payload)")
  case (Inl e)
  with assms show ?thesis by (intro refused) (auto simp: api_update_proxy_def)
next
  case ok1: (Inr u)
  show ?thesis
  proof (cases "get_proxy (wp_vec P) (F 0) name (pm_of w)")
    case None
    with assms ok1 show ?thesis by (intro refused) (auto simp: api_update_proxy_def)
  next
    case old: (Some old)
    let ?ex = "pe_rule old"
    let ?r = "merge_rule name payload ?ex"
    show ?thesis
    proof (cases "first_error (update_checks2 (wp_unicode P) payload ?ex)")
      case (Inl e)
      with assms ok1 old show ?thesis
        by (intro refused) (auto simp: api_update_proxy_def Let_def)
    next
      case ok2: (Inr u2)
      obtain res pm where a: "update_proxy (wp_vec P) (F 1) name ?r (pm_of w) = (res, pm)"
        by (cases "update_proxy (wp_vec P) (F 1) name ?r (pm_of w)")
      show ?thesis
      proof (cases res)
        case (Inl e)
        with a have "pm = pm_of w" by (auto dest: update_proxy_Inl)
        with assms ok1 ok2 old a Inl show ?thesis
          by (intro refused) (auto simp: api_update_proxy_def Let_def)
      next
        case (Inr v)
        have w': "w' = updated P ?ex ?r pm w"
          using assms ok1 ok2 old a Inr
          by (auto simp: api_update_proxy_def updated_def Let_def split: option.splits)
        show ?thesis
        proof (rule changed [OF _ _ _ w'])
          show "lookup_rule (wp_vec P) (pm_of w) name = Some ?ex"
            using old by (auto dest: get_proxy_rule)
          show "\<forall>c \<in> set (update_checks1 (wp_unicode P) payload @
              update_checks2 (wp_unicode P) payload ?ex). c = Inr ()"
            using ok1 ok2
            by (simp add: ball_Un first_error_Inr [symmetric] del: first_error_Inr)
          show "update_proxy (wp_vec P) (F 1) name ?r (pm_of w) = (Inr (), pm)" using a Inr by simp
          show "resp = (case get_proxy (wp_vec P) (F 2) name (pm_of w') of
              Some entry \<Rightarrow> success (info_of_entry entry)
            | None \<Rightarrow> error_response 500 Lost_After_Update)"
            using assms ok1 ok2 old a Inr unfolding w'
            by (auto simp: api_update_proxy_def updated_def Let_def split: option.splits)
        qed
      qed
    qed
  qed
qed

lemma delete_proxy_cases:
  assumes "delete_proxy P F name w = (resp, w')"
  obtains (refused) "w' = w" "rsp_code resp = 400 \<or> rsp_code resp = 404"
  | (changed) rule pm where
      "lookup_rule (wp_vec P) (pm_of w) name = Some rule"
      "remove_proxy (wp_vec P) (F 1) (F 2) name (pm_of w) = (Inr rule, pm)"
      "w' = deleted P rule pm w"
      "resp = success ()"
proof (cases "get_proxy (wp_vec P) (F 0) name (pm_of w)")
  case None
  with assms show ?thesis by (intro refused) (auto simp: delete_proxy_def)
next
  case (Some entry)
  then have l: "lookup_rule (wp_vec P) (pm_of w) name = Some (pe_rule entry)"
    by (auto dest: get_proxy_rule)
  obtain res pm where a: "remove_proxy (wp_vec P) (F 1) (F 2) name (pm_of w) = (res, pm)"
    by (cases "remove_proxy (wp_vec P) (F 1) (F 2) name (pm_of w)")
  show ?thesis
  proof (cases res)
    case (Inl e)
    with a have "pm = pm_of w" by (auto dest: remove_proxy_Inl)
    with assms Some a Inl show ?thesis
      by (intro refused) (auto simp: delete_proxy_def Let_def)
  next
    case (Inr rule)
    with a l have r: "rule = pe_rule entry" by (auto dest: remove_proxy_Inr(4))
    have n: "r_name rule = name" using l r by (auto dest: lookup_rule_name)
    show ?thesis
    proof (rule changed)
      show "lookup_rule (wp_vec P) (pm_of w) name = Some rule" using l r by simp
      show "remove_proxy (wp_vec P) (F 1) (F 2) name (pm_of w) = (Inr rule, pm)" using a Inr by simp
      show "w' = deleted P rule pm w" "resp = success ()"
        using assms Some a Inr r n by (auto simp: delete_proxy_def deleted_def Let_def)
    qed
  qed
qed

end
