(* ===== verification/Api_Rules.thy ===== *)
theory Api_Rules
  imports Api
begin

text \<open>
  What the rule handlers of \<^verbatim>\<open>crates/web/src/api.rs\<close> promise: a specification of the HTTP
  interface on a finite map of rules, and the interface \<open>web_callbacks\<close> of the callbacks a server
  installs, inside which the handlers are proved to implement the specification. Also the
  characterisation of the client list.
\<close>

section \<open>Specification of the rule interface\<close>

datatype api_call =
    Create create_proxy_request
  | Update string update_proxy_request
  | Delete string

text \<open>Status code and new rule map, when the database reports no error.\<close>

fun api_spec :: "(nat \<Rightarrow> bool) \<Rightarrow> api_call \<Rightarrow> rule_map \<Rightarrow> u16 \<times> rule_map" where
  "api_spec U (Create payload) m =
     (case api_proxy_type (cr_type payload) of
        Some t \<Rightarrow>
          if (\<forall>c \<in> set (create_checks U payload). c = Inr ()) \<and> m (cr_name payload) = None
          then (200, m(cr_name payload \<mapsto> create_rule t payload)) else (400, m)
      | None \<Rightarrow> (400, m))"
| "api_spec U (Update name payload) m =
     (if \<forall>c \<in> set (update_checks1 U payload). c = Inr () then
        (case m name of
           None \<Rightarrow> (404, m)
         | Some existing \<Rightarrow>
             if \<forall>c \<in> set (update_checks2 U payload existing). c = Inr ()
             then (200, m(name \<mapsto> merge_rule name payload existing)) else (400, m))
      else (400, m))"
| "api_spec U (Delete name) m =
     (case m name of None \<Rightarrow> (404, m) | Some _ \<Rightarrow> (200, m(name := None)))"

fun api_spec_run :: "(nat \<Rightarrow> bool) \<Rightarrow> api_call list \<Rightarrow> rule_map \<Rightarrow> u16 list \<times> rule_map" where
  "api_spec_run U [] m = ([], m)"
| "api_spec_run U (c # cs) m =
     (let (code, m1) = api_spec U c m; (codes, m') = api_spec_run U cs m1 in (code # codes, m'))"

fun api_exec ::
  "'e web_params \<Rightarrow> (nat \<Rightarrow> bool) \<Rightarrow> api_call \<Rightarrow> 'e world \<Rightarrow> u16 \<times> 'e world" where
  "api_exec P F (Create payload) w = (let (r, w') = create_proxy P F payload w in (rsp_code r, w'))"
| "api_exec P F (Update name payload) w =
     (let (r, w') = api_update_proxy P F name payload w in (rsp_code r, w'))"
| "api_exec P F (Delete name) w = (let (r, w') = delete_proxy P F name w in (rsp_code r, w'))"

fun api_run ::
  "'e web_params \<Rightarrow> ((nat \<Rightarrow> bool) \<times> api_call) list \<Rightarrow> 'e world \<Rightarrow> u16 list \<times> 'e world" where
  "api_run P [] w = ([], w)"
| "api_run P ((F, c) # cs) w =
     (let (code, w1) = api_exec P F c w; (codes, w') = api_run P cs w1 in (code # codes, w'))"

abbreviation no_faults :: "nat \<Rightarrow> bool" where
  "no_faults \<equiv> \<lambda>_. False"

section \<open>Valid rules\<close>

text \<open>
  What the checks of the handlers establish of a stored rule. The remote port is apart: an update
  does not check it again when only the type changes.
\<close>

definition valid_rule :: "(nat \<Rightarrow> bool) \<Rightarrow> proxy_rule \<Rightarrow> bool" where
  "valid_rule U r \<longleftrightarrow>
     validate_proxy_name U (r_name r) = Inr () \<and>
     validate_client_id U (r_client_id r) = Inr () \<and>
     parse_ip_addr (r_local_ip r) \<noteq> None \<and>
     r_local_port r \<noteq> 0 \<and>
     (\<forall>d \<in> set (r_custom_domains r). validate_domain U d = Inr ()) \<and>
     r_proxy_protocol r \<in> {[], ''v1'', ''v2''}"

definition valid_rules :: "(nat \<Rightarrow> bool) \<Rightarrow> rule_map \<Rightarrow> bool" where
  "valid_rules U m \<longleftrightarrow> (\<forall>n r. m n = Some r \<longrightarrow> r_name r = n \<and> valid_rule U r)"

definition remote_port_ok :: "proxy_rule \<Rightarrow> bool" where
  "remote_port_ok r \<longleftrightarrow> (stream_type (r_type r) \<longrightarrow> r_remote_port r \<noteq> 0)"

lemma check_Inr_simps [simp]:
  "validate_ip ip = Inr () \<longleftrightarrow> parse_ip_addr ip \<noteq> None"
  "validate_port p f = Inr () \<longleftrightarrow> p \<noteq> 0"
  "validate_proxy_protocol q = Inr () \<longleftrightarrow> q \<in> {[], ''v1'', ''v2''}"
  by (auto simp: validate_ip_def validate_port_def validate_proxy_protocol_def)

lemma create_checks_valid:
  assumes "\<forall>c \<in> set (create_checks U payload). c = Inr ()" "api_proxy_type (cr_type payload) = Some t"
  shows "valid_rule U (create_rule t payload)" "remote_port_ok (create_rule t payload)"
  using assms tcp_udp_iff [OF assms(2)]
  by (auto simp: create_checks_def valid_rule_def create_rule_def remote_port_ok_def split: if_splits)

lemma opt_check_Inr [simp]:
  "(\<forall>c \<in> set (opt_check f x). c = Inr ()) \<longleftrightarrow> (\<forall>a. x = Some a \<longrightarrow> f a = Inr ())"
  by (auto simp: opt_check_def split: option.splits)

lemma merge_checks_valid:
  assumes "\<forall>c \<in> set (update_checks1 U payload). c = Inr ()"
    and "\<forall>c \<in> set (update_checks2 U payload existing). c = Inr ()"
    and "valid_rule U existing" and "r_name existing = name"
  shows "valid_rule U (merge_rule name payload existing)"
  using assms
  by (auto simp: update_checks1_def update_checks2_def ball_Un valid_rule_def merge_rule_def
      unwrap_or_def split: option.splits)

text \<open>The remote port is checked whenever the request carries one.\<close>

lemma merge_remote_port:
  assumes "\<forall>c \<in> set (update_checks1 U payload). c = Inr ()"
    and "\<forall>c \<in> set (update_checks2 U payload existing). c = Inr ()"
    and "ur_remote_port payload \<noteq> None \<or> remote_port_ok existing \<and>
           (stream_type (r_type existing) \<or> \<not> is_stream_update payload existing)"
  shows "remote_port_ok (merge_rule name payload existing)"
proof -
  have t: "stream_type (r_type (merge_rule name payload existing)) \<longleftrightarrow> is_stream_update payload existing"
    using assms(1)
    by (auto simp: update_checks1_def ball_Un is_stream_update_def merge_rule_def unwrap_or_def
        api_proxy_type_def split: option.splits if_splits)
  show ?thesis
    using assms(2,3) t
    by (auto simp: update_checks2_def ball_Un remote_port_ok_def merge_rule_def unwrap_or_def
        split: option.splits if_splits)
qed

lemma api_spec_valid: "valid_rules U m \<Longrightarrow> api_spec U c m = (code, m') \<Longrightarrow> valid_rules U m'"
proof (cases c)
  case (Create payload)
  assume "valid_rules U m" "api_spec U c m = (code, m')"
  with Create show ?thesis
    using create_checks_valid(1) [of U payload]
    by (auto simp: valid_rules_def create_rule_def split: option.splits if_splits)
next
  case (Update name payload)
  assume v: "valid_rules U m" and "api_spec U c m = (code, m')"
  with Update show ?thesis
    using merge_checks_valid [of U payload _ name]
    by (auto simp: valid_rules_def merge_rule_def split: option.splits if_splits)
next
  case (Delete name)
  assume "valid_rules U m" "api_spec U c m = (code, m')"
  with Delete show ?thesis by (auto simp: valid_rules_def split: option.splits if_splits)
qed

section \<open>The callbacks' contract\<close>

text \<open>What a handler relies on: no callback adds or removes a rule or a runtime entry.\<close>

definition same_store :: "'e world \<Rightarrow> 'e world \<Rightarrow> bool" where
  "same_store w w' \<longleftrightarrow>
     pool (pm_of w') = pool (pm_of w) \<and> dom (runtime (pm_of w')) = dom (runtime (pm_of w))"

lemma same_store_refl [simp]: "same_store w w"
  by (simp add: same_store_def)

lemma same_store_trans [trans]: "same_store w1 w2 \<Longrightarrow> same_store w2 w3 \<Longrightarrow> same_store w1 w3"
  by (simp add: same_store_def)

lemma same_store_status [simp]: "same_store w (on_pm (update_status n s) w)"
  by (simp only: same_store_def on_pm_simps runtime_updates_pool runtime_updates_dom simp_thms)

lemma same_storeD:
  assumes "same_store w w'"
  shows "lookup_rule V (pm_of w') = lookup_rule V (pm_of w)" "pm_inv (pm_of w') = pm_inv (pm_of w)"
proof -
  from assms have s: "pool (pm_of w') = pool (pm_of w)"
    "dom (runtime (pm_of w')) = dom (runtime (pm_of w))"
    by (simp_all only: same_store_def simp_thms)
  show "lookup_rule V (pm_of w') = lookup_rule V (pm_of w)" by (rule lookup_rule_pool [OF s(1)])
  show "pm_inv (pm_of w') = pm_inv (pm_of w)" by (rule pm_inv_runtime [OF s])
qed

definition rules_of :: "vec_json \<Rightarrow> 'e world \<Rightarrow> rule_map" where
  "rules_of V w = lookup_rule V (pm_of w)"

locale web_callbacks =
  fixes P :: "'e web_params"
  assumes create_keeps: "same_store w (on_proxy_create (wp_callbacks P) rule w)"
    and delete_keeps: "same_store w (on_proxy_delete (wp_callbacks P) rule w)"
    and notify_keeps: "same_store w (snd (notify_client (wp_callbacks P) cid msg w))"
begin

abbreviation view :: "'e world \<Rightarrow> rule_map" where
  "view \<equiv> rules_of (wp_vec P)"

lemma view_same: "same_store w w' \<Longrightarrow> view w' = view w"
  unfolding rules_of_def by (rule same_storeD)

lemma notify_assign_keeps: "same_store w (notify_assign P rule w)"
  unfolding notify_assign_def by (rule notify_keeps)

lemma created_store: "same_store (set_pm pm w) (created P rule pm w)"
  unfolding created_def
  by (meson same_store_trans same_store_status create_keeps notify_assign_keeps)

lemma updated_store: "same_store (set_pm pm w) (updated P existing rule pm w)"
  unfolding updated_def
  by (meson same_store_trans delete_keeps create_keeps notify_assign_keeps)

lemma deleted_store: "same_store (set_pm pm w) (deleted P rule pm w)"
  unfolding deleted_def
  by (meson same_store_trans same_store_status delete_keeps notify_keeps)

lemma view_set_pm [simp]: "view (set_pm pm w) = lookup_rule (wp_vec P) pm"
  by (simp add: rules_of_def)

lemma get_proxy_None: "get_proxy (wp_vec P) f n (pm_of w) = None \<longleftrightarrow> f \<or> view w n = None"
  by (simp add: get_proxy_def query_rule_lookup rules_of_def)

text \<open>
  One call, whatever the database does: refused, and the rules are as they were, or carried out as
  specified.
\<close>

lemma api_exec_cases:
  assumes "api_exec P F c w = (code, w')" and vec_ok: "vec_json_ok (wp_vec P)"
  obtains (refused) "w' = w" "code = 400 \<or> code = 404"
  | (applied) "api_spec (wp_unicode P) c (view w) = (200, view w')"
      "code = 200 \<or> code = 500" "pm_inv (pm_of w) \<Longrightarrow> pm_inv (pm_of w')"
      "code = 500 \<Longrightarrow> \<exists>k. F k"
proof (cases c)
  case (Create payload)
  obtain r where cr: "create_proxy P F payload w = (r, w')" and code: "code = rsp_code r"
    using assms Create by (auto split: prod.splits)
  from cr show ?thesis
  proof (cases rule: create_proxy_cases)
    case refused
    with code that(1) show ?thesis by simp
  next
    case (changed t pm)
    note add = add_proxy_Inr [OF vec_ok changed(3)]
    have n: "r_name (create_rule t payload) = cr_name payload" by (simp add: create_rule_def)
    have v: "view w' = (view w)(cr_name payload \<mapsto> create_rule t payload)"
      using view_same [OF created_store [of pm w "create_rule t payload"]] add(1)
      unfolding changed(4) by (simp add: rules_of_def n)
    show ?thesis
    proof (rule that(2))
      show "api_spec (wp_unicode P) c (view w) = (200, view w')"
        using changed(1,2) add(4) v unfolding Create by (simp add: rules_of_def n)
      show "code = 200 \<or> code = 500"
        using code changed(5) by (simp split: option.splits)
      show "pm_inv (pm_of w')" if "pm_inv (pm_of w)"
        using same_storeD(2) [OF created_store [of pm w "create_rule t payload"]] add(2) that
        unfolding changed(4) by simp
      show "\<exists>k. F k" if "code = 500"
        using that code changed(5) v get_proxy_None [of "F 1" "cr_name payload" w']
        by (auto split: option.splits)
    qed
  qed
next
  case (Update name payload)
  obtain r where up: "api_update_proxy P F name payload w = (r, w')" and code: "code = rsp_code r"
    using assms Update by (auto split: prod.splits)
  from up show ?thesis
  proof (cases rule: update_proxy_cases)
    case refused
    with code that(1) show ?thesis by simp
  next
    case (changed existing pm)
    note upd = update_proxy_Inr [OF vec_ok changed(3)]
    let ?r = "merge_rule name payload existing"
    have n: "?r\<lparr>r_name := name\<rparr> = ?r" by (simp add: merge_rule_def)
    have v: "view w' = (view w)(name \<mapsto> ?r)"
      using view_same [OF updated_store [of pm w existing ?r]] upd(1)
      unfolding changed(4) by (simp add: rules_of_def n)
    show ?thesis
    proof (rule that(2))
      show "api_spec (wp_unicode P) c (view w) = (200, view w')"
        using changed(1,2) v unfolding Update by (simp add: rules_of_def ball_Un)
      show "code = 200 \<or> code = 500"
        using code changed(5) by (simp split: option.splits)
      show "pm_inv (pm_of w')" if "pm_inv (pm_of w)"
        using same_storeD(2) [OF updated_store [of pm w existing ?r]] upd(2) that
        unfolding changed(4) by simp
      show "\<exists>k. F k" if "code = 500"
        using that code changed(5) v get_proxy_None [of "F 2" name w']
        by (auto split: option.splits)
    qed
  qed
next
  case (Delete name)
  obtain r where d: "delete_proxy P F name w = (r, w')" and code: "code = rsp_code r"
    using assms Delete by (auto split: prod.splits)
  from d show ?thesis
  proof (cases rule: delete_proxy_cases)
    case refused
    with code that(1) show ?thesis by simp
  next
    case (changed rule pm)
    note rem = remove_proxy_Inr [OF changed(2)]
    show ?thesis
    proof (rule that(2))
      show "api_spec (wp_unicode P) c (view w) = (200, view w')"
        using changed(1) view_same [OF deleted_store [of pm w rule]] rem(1)
        unfolding changed(3) Delete by (simp add: rules_of_def)
      show "code = 200 \<or> code = 500" "code = 500 \<Longrightarrow> \<exists>k. F k"
        using code changed(4) by simp_all
      show "pm_inv (pm_of w')" if "pm_inv (pm_of w)"
        using same_storeD(2) [OF deleted_store [of pm w rule]] rem(2) that
        unfolding changed(3) by simp
    qed
  qed
qed

lemma api_exec_refused_code:
  assumes "pm_inv (pm_of w)" "api_exec P no_faults c w = (code, w')" "code = 400 \<or> code = 404"
  shows "api_spec (wp_unicode P) c (view w) = (code, view w)"
proof (cases c)
  case (Create payload)
  show ?thesis
  proof (cases "api_proxy_type (cr_type payload)")
    case (Some t)
    have n: "r_name (create_rule t payload) = cr_name payload" by (simp add: create_rule_def)
    have ad: "\<exists>pm. add_proxy (wp_vec P) False (create_rule t payload) (pm_of w) = (Inr (), pm)"
      if "view w (cr_name payload) = None"
      using add_proxy_succeeds [OF assms(1)] that n by (simp add: rules_of_def)
    show ?thesis
      using assms(2,3) ad Some unfolding Create
      by (auto simp: create_proxy_def Let_def first_error_Inr [symmetric] simp del: first_error_Inr
          split: prod.splits sum.splits option.splits)
  qed (use assms(2,3) Create in \<open>auto simp: create_proxy_def split: prod.splits sum.splits\<close>)
next
  case (Update name payload)
  have up: "\<exists>pm. update_proxy (wp_vec P) False name r (pm_of w) = (Inr (), pm)"
    if "view w name \<noteq> None" for r
    using update_proxy_succeeds that by (simp add: rules_of_def)
  have gp: "get_proxy (wp_vec P) False name (pm_of w) =
      map_option (\<lambda>rule. entry_of (pm_of w) rule name) (view w name)"
    by (simp add: get_proxy_def query_rule_lookup rules_of_def)
  have pe: "pe_rule (entry_of pm r n) = r" for pm r n by (simp add: entry_of_def Let_def)
  show ?thesis
  proof (cases "view w name")
    case None
    with assms(2,3) gp show ?thesis unfolding Update
      by (auto simp: api_update_proxy_def Let_def first_error_Inr [symmetric] simp del: first_error_Inr
          split: prod.splits sum.splits)
  next
    case (Some existing)
    with up obtain pm where "update_proxy (wp_vec P) False name (merge_rule name payload existing)
        (pm_of w) = (Inr (), pm)" by blast
    with assms(2,3) gp Some pe show ?thesis unfolding Update
      by (auto simp: api_update_proxy_def Let_def first_error_Inr [symmetric] simp del: first_error_Inr
          split: prod.splits sum.splits option.splits)
  qed
next
  case (Delete name)
  have gp: "get_proxy (wp_vec P) False name (pm_of w) =
      map_option (\<lambda>rule. entry_of (pm_of w) rule name) (view w name)"
    by (simp add: get_proxy_def query_rule_lookup rules_of_def)
  show ?thesis
  proof (cases "view w name")
    case None
    with assms(2,3) gp show ?thesis unfolding Delete
      by (auto simp: delete_proxy_def split: prod.splits)
  next
    case (Some rule)
    then obtain pm where "remove_proxy (wp_vec P) False False name (pm_of w) = (Inr rule, pm)"
      unfolding rules_of_def by (blast dest: remove_proxy_succeeds)
    with assms(2,3) gp Some show ?thesis unfolding Delete
      by (auto simp: delete_proxy_def Let_def split: prod.splits)
  qed
qed

lemma api_exec_spec:
  assumes "pm_inv (pm_of w)" "api_exec P no_faults c w = (code, w')" "vec_json_ok (wp_vec P)"
  shows "api_spec (wp_unicode P) c (view w) = (code, view w')" "pm_inv (pm_of w')"
proof -
  from assms(2,3) show "api_spec (wp_unicode P) c (view w) = (code, view w')"
  proof (cases rule: api_exec_cases)
    case refused
    with api_exec_refused_code [OF assms(1,2)] show ?thesis by simp
  qed auto
  from assms(2,3) show "pm_inv (pm_of w')"
    by (cases rule: api_exec_cases) (use assms(1) in auto)
qed

lemma api_run_spec:
  "vec_json_ok (wp_vec P) \<Longrightarrow> pm_inv (pm_of w) \<Longrightarrow> api_run P (map (Pair no_faults) cs) w = (codes, w') \<Longrightarrow>
   api_spec_run (wp_unicode P) cs (view w) = (codes, view w') \<and> pm_inv (pm_of w')"
proof (induction cs arbitrary: w codes)
  case (Cons c cs)
  obtain code w1 where e: "api_exec P no_faults c w = (code, w1)"
    by (cases "api_exec P no_faults c w")
  obtain codes1 where r: "api_run P (map (Pair no_faults) cs) w1 = (codes1, w')"
    and codes: "codes = code # codes1"
    using Cons.prems(3) e by (auto split: prod.splits)
  note s = api_exec_spec [OF Cons.prems(2) e Cons.prems(1)]
  from Cons.IH [OF Cons.prems(1) s(2) r] s(1) codes show ?case by simp
qed simp

lemma api_exec_inv:
  assumes "api_exec P F c w = (code, w')" and "vec_json_ok (wp_vec P)"
  shows "pm_inv (pm_of w) \<Longrightarrow> pm_inv (pm_of w')"
    and "valid_rules (wp_unicode P) (view w) \<Longrightarrow> valid_rules (wp_unicode P) (view w')"
  using assms by (cases rule: api_exec_cases; auto dest: api_spec_valid)+

lemma api_run_inv:
  "vec_json_ok (wp_vec P) \<Longrightarrow> api_run P cs w = (codes, w') \<Longrightarrow>
   (pm_inv (pm_of w) \<longrightarrow> pm_inv (pm_of w')) \<and>
   (valid_rules (wp_unicode P) (view w) \<longrightarrow> valid_rules (wp_unicode P) (view w'))"
proof (induction cs arbitrary: w codes)
  case (Cons x cs)
  obtain F c where x: "x = (F, c)" by fastforce
  obtain code w1 where e: "api_exec P F c w = (code, w1)" by (cases "api_exec P F c w")
  obtain codes1 where r: "api_run P cs w1 = (codes1, w')"
    using Cons.prems(2) e x by (auto split: prod.splits)
  from Cons.IH [OF Cons.prems(1) r] api_exec_inv [OF e Cons.prems(1)] show ?case by blast
qed simp

end

section \<open>The client list\<close>

lemma add_online_set:
  "ci_id ` set (add_online seen ids) = set ids - seen"
  "x \<in> set (add_online seen ids) \<Longrightarrow> ci_online x"
  by (induction seen ids rule: add_online.induct) (auto split: if_splits)

lemma add_online_distinct: "distinct (add_online seen ids)"
proof (induction seen ids rule: add_online.induct)
  case (2 seen i ids)
  have "Client_Info i True \<notin> set (add_online (insert i seen) ids)"
    using add_online_set(1) [of "insert i seen" ids] by (force dest: imageI [of _ _ ci_id])
  with 2 show ?case by simp
qed simp

text \<open>
  The client list is complete, without duplicates, and in a definite order: for any order in
  which the database returns the distinct client ids, it is the sorted list of exactly the known and
  connected clients, each once, marked online exactly if connected, online ones first and then
  by id.
\<close>
theorem client_list_sorted_set:
  assumes "distinct ids"
  shows "merge_clients online ids =
    sorted_list_of_set ((\<lambda>i. Client_Info i (i \<in> set online)) ` (set ids \<union> set online))"
proof -
  let ?f = "\<lambda>i. Client_Info i (i \<in> set online)"
  have on: "set (add_online (set ids) online) = ?f ` (set online - set ids)"
  proof -
    have "x = ?f (ci_id x)" if "x \<in> set (add_online (set ids) online)" for x
    proof -
      have "ci_id x \<in> set online - set ids"
        using imageI [OF that, of ci_id] unfolding add_online_set(1) .
      with add_online_set(2) [OF that] show ?thesis by (cases x) auto
    qed
    then have "set (add_online (set ids) online) = ?f ` ci_id ` set (add_online (set ids) online)"
      by (force simp: image_image)
    then show ?thesis by (simp only: add_online_set(1))
  qed
  have "inj ?f" by (rule injI) simp
  then have d: "distinct (map ?f ids @ add_online (set ids) online)"
    using assms add_online_distinct by (auto simp: distinct_map on inj_on_def)
  have s: "set (map ?f ids @ add_online (set ids) online) = ?f ` (set ids \<union> set online)"
    by (auto simp: on)
  have "sort xs = sorted_list_of_set (set xs)" if "distinct xs" for xs :: "client_info list"
    using that by (simp add: sorted_list_of_set_sort_remdups distinct_remdups_id)
  from this [OF d] show ?thesis unfolding merge_clients_def s .
qed

theorem client_list_sorted_set_witness:
  "merge_clients [''zed'', ''new'', ''zed''] [''bob'', ''zed''] =
     [Client_Info ''new'' True, Client_Info ''zed'' True, Client_Info ''bob'' False]"
proof -
  have "distinct [''bob'', ''zed'']" by simp
  note list = client_list_sorted_set [OF this, of "[''zed'', ''new'', ''zed'']"]
  have "sorted_list_of_set ((\<lambda>i. Client_Info i (i \<in> set [''zed'', ''new'', ''zed''])) `
      (set [''bob'', ''zed''] \<union> set [''zed'', ''new'', ''zed''])) =
      sort (remdups [Client_Info ''new'' True, Client_Info ''zed'' True, Client_Info ''bob'' False])"
    unfolding sorted_list_of_set_sort_remdups [symmetric]
    by (rule arg_cong [of _ _ sorted_list_of_set]) auto
  with list show ?thesis
    by (simp add: less_eq_client_info_def less_eq_char_def)
qed

end
