(* ===== verification/Server.thy ===== *)
theory Server
  imports Listener Api_Rules
begin

text \<open>
  \<^verbatim>\<open>crates/server/src/main.rs\<close>: starting and stopping the listener of a rule, the callbacks the
  server installs in the Web state, the statistics callbacks, and the start-up sequence. The
  environment of the Web handlers is the pair of session table and listener manager, with the ports
  other programs (or the packet tasks of a stopped UDP listener) hold.
\<close>

section \<open>Environment\<close>

record server_env =
  se_sessions :: session_manager
  se_listeners :: listener_manager
  se_busy :: "bool \<Rightarrow> u16 \<Rightarrow> bool"

type_synonym server_world = "server_env world"

abbreviation sessions_of :: "server_world \<Rightarrow> session_manager" where
  "sessions_of w \<equiv> se_sessions (snd w)"

abbreviation listeners_of :: "server_world \<Rightarrow> listener_manager" where
  "listeners_of w \<equiv> se_listeners (snd w)"

definition set_listeners :: "listener_manager \<Rightarrow> server_world \<Rightarrow> server_world" where
  "set_listeners lm w = (fst w, (snd w)\<lparr>se_listeners := lm\<rparr>)"

definition set_sessions :: "session_manager \<Rightarrow> server_world \<Rightarrow> server_world" where
  "set_sessions sm w = (fst w, (snd w)\<lparr>se_sessions := sm\<rparr>)"

lemma world_simps [simp]:
  "pm_of (set_listeners lm w) = pm_of w" "listeners_of (set_listeners lm w) = lm"
  "sessions_of (set_listeners lm w) = sessions_of w" "se_busy (snd (set_listeners lm w)) = se_busy (snd w)"
  "pm_of (set_sessions sm w) = pm_of w" "listeners_of (set_sessions sm w) = listeners_of w"
  "sessions_of (set_sessions sm w) = sm" "se_busy (snd (set_sessions sm w)) = se_busy (snd w)"
  by (simp_all add: set_listeners_def set_sessions_def)

section \<open>Listeners of a rule\<close>

fun start_proxy_listener ::
  "(bool \<Rightarrow> u16 \<Rightarrow> bool) \<Rightarrow> proxy_rule \<Rightarrow> listener_manager \<Rightarrow> bool \<times> listener_manager" where
  "start_proxy_listener busy rule lm =
     (case r_type rule of
        Tcp \<Rightarrow>
          if r_remote_port rule = 0 then (False, lm)
          else start_tcp_listener busy (r_name rule) (r_remote_port rule) (r_client_id rule) lm
      | Udp \<Rightarrow>
          if r_remote_port rule = 0 then (False, lm)
          else start_udp_listener busy (r_name rule) (r_remote_port rule) (r_client_id rule) lm
      | Http \<Rightarrow> (True, register_domain_route rule lm)
      | Https \<Rightarrow> (True, register_domain_route rule lm))"

fun stop_proxy_listener :: "proxy_rule \<Rightarrow> listener_manager \<Rightarrow> listener_manager" where
  "stop_proxy_listener rule lm =
     (case r_type rule of
        Tcp \<Rightarrow> stop_listener (r_name rule) lm
      | Udp \<Rightarrow> stop_listener (r_name rule) lm
      | Http \<Rightarrow> unregister_domain_route rule lm
      | Https \<Rightarrow> unregister_domain_route rule lm)"

declare start_proxy_listener.simps [simp del] stop_proxy_listener.simps [simp del]

section \<open>Callbacks\<close>

definition notify_callback ::
  "serde \<Rightarrow> string \<Rightarrow> string \<Rightarrow> server_world \<Rightarrow> bool \<times> server_world" where
  "notify_callback J cid msg_json w =
     (case ctrl_from_str J msg_json of
        Some msg \<Rightarrow>
          let (ok, sm) = send_to cid (Control msg) (sessions_of w) in (ok, set_sessions sm w)
      | None \<Rightarrow> (False, w))"

definition create_callback :: "proxy_rule \<Rightarrow> server_world \<Rightarrow> server_world" where
  "create_callback rule w =
     (let w = on_pm (update_status (r_name rule) Starting) w;
          (ok, lm) = start_proxy_listener (se_busy (snd w)) rule (listeners_of w);
          w = set_listeners lm w
      in on_pm (update_status (r_name rule) (if ok then Running else Error)) w)"

definition delete_callback :: "proxy_rule \<Rightarrow> server_world \<Rightarrow> server_world" where
  "delete_callback rule w =
     (let w = on_pm (update_status (r_name rule) Stopping) w;
          w = set_listeners (stop_proxy_listener rule (listeners_of w)) w
      in on_pm (update_status (r_name rule) Stopped) w)"

definition server_callbacks :: "serde \<Rightarrow> server_env callbacks" where
  "server_callbacks J =
     \<lparr>cb_notify_client = Some (notify_callback J), cb_on_proxy_create = Some create_callback,
      cb_on_proxy_delete = Some delete_callback\<rparr>"

text \<open>The Web handlers as the server runs them.\<close>

definition server_params ::
  "(nat \<Rightarrow> bool) \<Rightarrow> vec_json \<Rightarrow> serde \<Rightarrow> jwt_lib \<Rightarrow> (string \<Rightarrow> string \<Rightarrow> bool option) \<Rightarrow>
   server_env web_params" where
  "server_params U V J jwt bcrypt =
     \<lparr>wp_unicode = U, wp_vec = V, wp_serde = J, wp_jwt = jwt, wp_bcrypt = bcrypt,
      wp_callbacks = server_callbacks J\<rparr>"

text \<open>
  The statistics callbacks spawn a task per report; these are the effects of one such task.
  \<open>delta\<close> is an \<^verbatim>\<open>i64\<close>.
\<close>

definition traffic_callback :: "string \<Rightarrow> u64 \<Rightarrow> u64 \<Rightarrow> proxy_manager \<Rightarrow> proxy_manager" where
  "traffic_callback name bytes_in bytes_out pm = add_traffic name bytes_in bytes_out pm"

definition conn_callback :: "string \<Rightarrow> int \<Rightarrow> proxy_manager \<Rightarrow> proxy_manager" where
  "conn_callback name delta pm =
     (if delta > 0 then ((inc_connections name) ^^ nat delta) pm
      else if delta < 0 then ((dec_connections name) ^^ nat (- delta)) pm
      else pm)"

section \<open>Start-up\<close>

definition start_existing ::
  "proxy_rule \<Rightarrow> server_world \<Rightarrow> server_world" where
  "start_existing rule w =
     (let (ok, lm) = start_proxy_listener (se_busy (snd w)) rule (listeners_of w)
      in on_pm (update_status (r_name rule) (if ok then Running else Error)) (set_listeners lm w))"

definition start_existing_listeners :: "vec_json \<Rightarrow> bool \<Rightarrow> server_world \<Rightarrow> server_world" where
  "start_existing_listeners V fault w =
     fold start_existing (map pe_rule (list_proxies V fault (pm_of w))) w"

definition register_existing :: "proxy_rule \<Rightarrow> server_world \<Rightarrow> server_world" where
  "register_existing rule w =
     (if stream_type (r_type rule) then w
      else set_listeners (register_domain_route rule (listeners_of w)) w)"

definition register_existing_domain_routes :: "vec_json \<Rightarrow> bool \<Rightarrow> server_world \<Rightarrow> server_world" where
  "register_existing_domain_routes V fault w =
     fold register_existing (map pe_rule (list_proxies V fault (pm_of w))) w"

text \<open>Hexadecimal text of the random bytes (\<^verbatim>\<open>format {:02x}\<close>).\<close>

definition generate_random_secret :: "bytes \<Rightarrow> string" where
  "generate_random_secret bs =
     concat (map (\<lambda>b. [hex_digit (unat b div 16), hex_digit (unat b mod 16)]) bs)"

definition fill_jwt_secret :: "bytes \<Rightarrow> server_config \<Rightarrow> server_config" where
  "fill_jwt_secret random cfg =
     (if jwt_secret (cfg_web cfg) = []
      then cfg\<lparr>cfg_web := (cfg_web cfg)\<lparr>jwt_secret := generate_random_secret random\<rparr>\<rparr> else cfg)"

text \<open>
  \<^verbatim>\<open>main\<close> from the database to the installed callbacks: \<open>rows\<close> is the content of the database file,
  \<open>F\<close> its faults, \<open>random\<close> the 32 random bytes.
\<close>

definition server_boot ::
  "vec_json \<Rightarrow> (nat \<Rightarrow> bool) \<Rightarrow> bytes \<Rightarrow> (bool \<Rightarrow> u16 \<Rightarrow> bool) \<Rightarrow> server_config \<Rightarrow>
   proxy_rule_row list \<Rightarrow> server_world" where
  "server_boot V F random busy cfg rows =
     (let cfg = fill_jwt_secret random cfg;
          w = (app_with_db cfg rows,
               \<lparr>se_sessions = session_manager_new, se_listeners = listener_manager_new,
                se_busy = busy\<rparr>);
          w = on_pm (load_from_db V (F 0)) w;
          w = start_existing_listeners V (F 1) w;
          srv = cfg_server cfg;
          w = (if http_port srv > 0 then
                 set_listeners (snd (start_http_listener busy (http_port srv) (listeners_of w))) w
               else w);
          w = (if https_port srv > 0 then
                 set_listeners (snd (start_https_listener busy (https_port srv) (listeners_of w))) w
               else w)
      in register_existing_domain_routes V (F 2) w)"

section \<open>The callbacks keep the rule table\<close>

lemma same_store_listeners [simp]: "same_store w (set_listeners lm w)"
  by (simp add: same_store_def)

lemma create_callback_store: "same_store w (create_callback rule w)"
  unfolding create_callback_def Let_def
  by (auto split: prod.splits) (meson same_store_listeners same_store_status same_store_trans)+

lemma delete_callback_store: "same_store w (delete_callback rule w)"
  unfolding delete_callback_def Let_def
  by (meson same_store_listeners same_store_status same_store_trans)

lemma notify_callback_store: "same_store w (snd (notify_callback J cid msg w))"
  by (auto simp: notify_callback_def same_store_def Let_def split: option.splits prod.splits)

lemma server_params_simps [simp]:
  "wp_unicode (server_params U V J jwt bc) = U" "wp_vec (server_params U V J jwt bc) = V"
  "wp_serde (server_params U V J jwt bc) = J" "wp_jwt (server_params U V J jwt bc) = jwt"
  "wp_bcrypt (server_params U V J jwt bc) = bc"
  "on_proxy_create (wp_callbacks (server_params U V J jwt bc)) = create_callback"
  "on_proxy_delete (wp_callbacks (server_params U V J jwt bc)) = delete_callback"
  "notify_client (wp_callbacks (server_params U V J jwt bc)) = notify_callback J"
  by (simp_all add: server_params_def server_callbacks_def on_proxy_create_def on_proxy_delete_def
      notify_client_def fun_eq_iff)

interpretation server: web_callbacks "server_params U V J jwt bc" for U V J jwt bc
  by unfold_locales (simp_all add: create_callback_store delete_callback_store notify_callback_store)

end
