(* ===== verification/Server_Inv.thy ===== *)
theory Server_Inv
  imports Server
begin

text \<open>
  The invariant that ties the three tables of a server together (the stored rules with their
  shown status, the running listeners and the domain routes), and its preservation by start-up, by every API
  call under any database fault, and by everything else that touches the state.
\<close>

section \<open>Consistency of rules, statuses, listeners and routes\<close>

fun kind_of :: "proxy_type \<Rightarrow> task_kind" where
  "kind_of Tcp = Tcp_Task"
| "kind_of Udp = Udp_Task"
| "kind_of Http = Http_Task"
| "kind_of Https = Https_Task"

definition serves :: "listen_task \<Rightarrow> proxy_rule \<Rightarrow> bool" where
  "serves t r \<longleftrightarrow>
     stream_type (r_type r) \<and> r_remote_port r \<noteq> 0 \<and>
     t = \<lparr>lt_kind = kind_of (r_type r), lt_name = r_name r, lt_port = r_remote_port r,
          lt_client = r_client_id r\<rparr>"

type_synonym status_map = "string \<Rightarrow> proxy_status option"

definition rules_named :: "rule_map \<Rightarrow> bool" where
  "rules_named m \<longleftrightarrow> (\<forall>n r. m n = Some r \<longrightarrow> r_name r = n)"

definition routes_sound :: "rule_map \<Rightarrow> listener_manager \<Rightarrow> bool" where
  "routes_sound m lm \<longleftrightarrow>
     (\<forall>d r. lm_domain_routes lm d = Some r \<longrightarrow>
        m (r_name r) = Some r \<and> \<not> stream_type (r_type r) \<and> d \<in> set (r_custom_domains r))"

definition listeners_sound :: "rule_map \<Rightarrow> listener_manager \<Rightarrow> bool" where
  "listeners_sound m lm \<longleftrightarrow>
     (\<forall>n t. listener_of lm n = Some t \<longrightarrow> (\<exists>r. m n = Some r \<and> serves t r))"

text \<open>A TCP or UDP rule is shown as running exactly when its listener runs.\<close>

definition statuses_exact :: "rule_map \<Rightarrow> status_map \<Rightarrow> listener_manager \<Rightarrow> bool" where
  "statuses_exact m st lm \<longleftrightarrow>
     (\<forall>n r. m n = Some r \<longrightarrow> stream_type (r_type r) \<longrightarrow>
        (st n = Some Running \<longleftrightarrow> listener_of lm n \<noteq> None))"

definition sys_ok :: "rule_map \<Rightarrow> status_map \<Rightarrow> listener_manager \<Rightarrow> bool" where
  "sys_ok m st lm \<longleftrightarrow>
     lm_inv lm \<and> dom st = dom m \<and> rules_named m \<and>
     routes_sound m lm \<and> listeners_sound m lm \<and> statuses_exact m st lm"

text \<open>Nothing runs for the name.\<close>

definition clear :: "string \<Rightarrow> listener_manager \<Rightarrow> bool" where
  "clear n lm \<longleftrightarrow>
     listener_of lm n = None \<and> (\<forall>d r. lm_domain_routes lm d = Some r \<longrightarrow> r_name r \<noteq> n)"

lemma clear_absent: "sys_ok m st lm \<Longrightarrow> m n = None \<Longrightarrow> clear n lm"
  unfolding sys_ok_def clear_def routes_sound_def listeners_sound_def
  by (metis not_Some_eq)

lemma sys_set:
  assumes "sys_ok m st lm" "clear n lm" "r_name r = n" "s \<noteq> Running"
  shows "sys_ok (m(n \<mapsto> r)) (st(n \<mapsto> s)) lm"
  using assms unfolding sys_ok_def clear_def
  by (auto simp: rules_named_def routes_sound_def listeners_sound_def statuses_exact_def)

lemma sys_unset:
  assumes "sys_ok m st lm" "clear n lm"
  shows "sys_ok (m(n := None)) (st(n := None)) lm"
  using assms unfolding sys_ok_def clear_def
  by (auto simp: rules_named_def routes_sound_def listeners_sound_def statuses_exact_def)

lemma sys_status:
  assumes "sys_ok m st lm" "clear n lm" "s \<noteq> Running" "m n \<noteq> None"
  shows "sys_ok m (st(n \<mapsto> s)) lm"
  using assms unfolding sys_ok_def clear_def statuses_exact_def by auto

lemma stop_clear:
  assumes ok: "sys_ok m st lm" and mn: "m n = Some r"
  shows "clear n (stop_proxy_listener r lm)"
    and "sys_ok m (st(n \<mapsto> Stopped)) (stop_proxy_listener r lm)"
proof -
  have name: "r_name r = n" using ok mn by (auto simp: sys_ok_def rules_named_def)
  have lmi: "lm_inv lm" using ok by (simp add: sys_ok_def)
  note stop = stop_listener_simps [OF lmi, of n]
  have "clear n (stop_proxy_listener r lm) \<and> sys_ok m (st(n \<mapsto> Stopped)) (stop_proxy_listener r lm)"
  proof (cases "stream_type (r_type r)")
    case True
    then have s: "stop_proxy_listener r lm = stop_listener n lm"
      by (cases "r_type r") (simp_all add: stop_proxy_listener.simps name)
    have "r_name q \<noteq> n" if "lm_domain_routes lm d = Some q" for d q
      using ok mn True that unfolding sys_ok_def routes_sound_def by force
    then have "clear n (stop_listener n lm)" by (auto simp: clear_def stop)
    moreover have "sys_ok m (st(n \<mapsto> Stopped)) (stop_listener n lm)"
      using ok mn unfolding sys_ok_def
      by (auto simp: stop routes_sound_def listeners_sound_def statuses_exact_def)
    ultimately show ?thesis by (simp add: s)
  next
    case False
    then have s: "stop_proxy_listener r lm = unregister_domain_route r lm"
      by (cases "r_type r") (simp_all add: stop_proxy_listener.simps)
    have "listener_of lm n = None"
      using ok mn False unfolding sys_ok_def listeners_sound_def serves_def
      by (metis not_Some_eq option.inject)
    moreover have "d \<in> set (r_custom_domains r)" if "lm_domain_routes lm d = Some q" "r_name q = n" for d q
      using ok mn that unfolding sys_ok_def routes_sound_def by (metis option.inject)
    ultimately have "clear n (unregister_domain_route r lm)" by (auto simp: clear_def)
    moreover have "sys_ok m (st(n \<mapsto> Stopped)) (unregister_domain_route r lm)"
      using ok mn False unfolding sys_ok_def
      by (auto simp: routes_sound_def listeners_sound_def statuses_exact_def)
    ultimately show ?thesis by (simp add: s)
  qed
  then show "clear n (stop_proxy_listener r lm)"
    "sys_ok m (st(n \<mapsto> Stopped)) (stop_proxy_listener r lm)" by blast+
qed

lemma start_ok:
  assumes ok: "sys_ok m st lm" and mn: "m n = Some r" and cl: "listener_of lm n = None"
    and start: "start_proxy_listener busy r lm = (b, lm')"
  shows "sys_ok m (st(n \<mapsto> (if b then Running else Error))) lm'"
proof -
  have name: "r_name r = n" using ok mn by (auto simp: sys_ok_def rules_named_def)
  have lmi: "lm_inv lm" and bd: "tasks_bounded lm" and ts: "table_sound lm"
    using ok by (simp_all add: sys_ok_def lm_inv_def)
  show ?thesis
  proof (cases "stream_type (r_type r)")
    case False
    then have "b" and lm': "lm' = register_domain_route r lm"
      using start by (cases "r_type r"; simp add: start_proxy_listener.simps)+
    with ok mn False name show ?thesis unfolding sys_ok_def
      by (auto simp: routes_sound_def listeners_sound_def statuses_exact_def)
  next
    case True
    let ?start = "start_stream_listener (kind_of (r_type r)) busy n (r_remote_port r) (r_client_id r) lm"
    show ?thesis
    proof (cases "r_remote_port r = 0")
      case z: True
      then have "\<not> b" "lm' = lm"
        using start True by (cases "r_type r"; simp add: start_proxy_listener.simps)+
      then show ?thesis
        using ok mn cl unfolding sys_ok_def by (auto simp: statuses_exact_def)
    next
      case nz: False
      then have st: "?start = (b, lm')"
        using start True name
        by (cases "r_type r") (simp_all add: start_proxy_listener.simps start_tcp_listener_def
            start_udp_listener_def)
      note ss = start_stream_simps [OF st bd]
      have inv: "lm_inv lm'"
        by (rule start_stream_inv [OF lmi _ _ st])
          (use cl listener_of_None [OF lmi] True in \<open>cases "r_type r"; simp\<close>)+
      have lo: "listener_of lm' = (if b then (listener_of lm)(n \<mapsto> \<lparr>lt_kind = kind_of (r_type r),
          lt_name = n, lt_port = r_remote_port r, lt_client = r_client_id r\<rparr>) else listener_of lm)"
        using ss(2,4,5) ts by (auto simp: fun_eq_iff)
      show ?thesis
        using ok mn cl True nz name inv unfolding sys_ok_def
        by (auto simp: ss(3) lo routes_sound_def listeners_sound_def statuses_exact_def serves_def)
    qed
  qed
qed

section \<open>The invariant of the server\<close>

definition statuses :: "server_world \<Rightarrow> status_map" where
  "statuses w n = map_option rs_status (runtime (pm_of w) n)"

definition sys_inv :: "vec_json \<Rightarrow> server_world \<Rightarrow> bool" where
  "sys_inv V w \<longleftrightarrow> pm_inv (pm_of w) \<and> sys_ok (rules_of V w) (statuses w) (listeners_of w)"

lemma statuses_on_status [simp]:
  "statuses (on_pm (update_status n s) w) =
     (if n \<in> dom (statuses w) then (statuses w)(n \<mapsto> s) else statuses w)"
  by (rule ext, cases "runtime (pm_of w) n") (auto simp: statuses_def runtime_update_status)

lemma statuses_frame [simp]:
  "statuses (set_listeners lm w) = statuses w" "statuses (set_sessions sm w) = statuses w"
  by (simp_all add: statuses_def fun_eq_iff)

lemma rules_frame [simp]:
  "rules_of V (on_pm (update_status n s) w) = rules_of V w"
  "rules_of V (set_listeners lm w) = rules_of V w" "rules_of V (set_sessions sm w) = rules_of V w"
  using lookup_rule_pool [OF runtime_updates_pool(1)] by (simp_all add: rules_of_def)

lemma notify_callback_frame [simp]:
  "statuses (snd (notify_callback J c m w)) = statuses w"
  "rules_of V (snd (notify_callback J c m w)) = rules_of V w"
  "listeners_of (snd (notify_callback J c m w)) = listeners_of w"
  "pm_of (snd (notify_callback J c m w)) = pm_of w"
  by (auto simp: notify_callback_def Let_def split: option.splits prod.splits)

lemma create_callback_sys:
  assumes "sys_ok (rules_of V w) (statuses w) (listeners_of w)"
    and "rules_of V w (r_name r) = Some r" and "listener_of (listeners_of w) (r_name r) = None"
  shows "sys_ok (rules_of V (create_callback r w)) (statuses (create_callback r w))
    (listeners_of (create_callback r w))"
proof -
  obtain b lm' where s: "start_proxy_listener (se_busy (snd w)) r (listeners_of w) = (b, lm')"
    by fastforce
  have d: "r_name r \<in> dom (statuses w)"
    using assms(1,2) by (auto simp: sys_ok_def)
  from start_ok [OF assms s] d s show ?thesis
    by (simp add: create_callback_def Let_def)
qed

lemma delete_callback_frame [simp]:
  "rules_of V (delete_callback r w) = rules_of V w"
  "listeners_of (delete_callback r w) = stop_proxy_listener r (listeners_of w)"
  "statuses (delete_callback r w) =
     (if r_name r \<in> dom (statuses w) then (statuses w)(r_name r \<mapsto> Stopped) else statuses w)"
  by (auto simp: delete_callback_def Let_def)

lemma create_callback_frame [simp]: "rules_of V (create_callback r w) = rules_of V w"
  by (simp add: create_callback_def Let_def split: prod.splits)

lemma statuses_set_pm: "statuses (set_pm pm w) n = map_option rs_status (runtime pm n)"
  by (simp add: statuses_def)

lemma rules_set_pm [simp]: "rules_of V (set_pm pm w) = lookup_rule V pm"
  by (simp add: rules_of_def)

section \<open>API calls keep the invariant\<close>

lemma create_keeps_sys:
  assumes inv: "sys_inv V w" and V: "vec_json_ok V"
    and add: "add_proxy V f rule (pm_of w) = (Inr (), pm)"
    and w': "w' = created (server_params U V J jwt bc) rule pm w"
  shows "sys_inv V w'"
proof -
  note ad = add_proxy_Inr [OF V add]
  have ok: "sys_ok (rules_of V w) (statuses w) (listeners_of w)" and pmi: "pm_inv (pm_of w)"
    using inv by (simp_all add: sys_inv_def)
  have "rules_of V w (r_name rule) = None" using ad(4) by (simp add: rules_of_def)
  then have cl: "clear (r_name rule) (listeners_of w)" using ok by (rule clear_absent [rotated])
  have st: "statuses (set_pm pm w) = (statuses w)(r_name rule \<mapsto> Stopped)"
    by (rule ext) (simp add: statuses_set_pm ad(3) statuses_def runtime_new_def)
  have rl: "lookup_rule V pm = (rules_of V w)(r_name rule \<mapsto> rule)"
    using ad(1) by (simp add: rules_of_def)
  let ?w1 = "on_pm (update_status (r_name rule) Starting) (set_pm pm w)"
  have s1: "sys_ok (rules_of V ?w1) (statuses ?w1) (listeners_of ?w1)"
    using sys_set [OF ok cl refl, of Starting] by (simp add: st rl)
  have "sys_ok (rules_of V w') (statuses w') (listeners_of w')"
    using create_callback_sys [OF s1] cl
    by (simp add: w' created_def notify_assign_def rl clear_def)
  moreover have "same_store (set_pm pm w) w'"
    unfolding w' using server.created_store [of pm w U V J jwt bc rule] .
  then have "pm_inv (pm_of w')" using same_storeD(2) ad(2) [OF pmi] by fastforce
  ultimately show ?thesis by (simp add: sys_inv_def)
qed

lemma update_keeps_sys:
  assumes inv: "sys_inv V w" and V: "vec_json_ok V"
    and old: "lookup_rule V (pm_of w) name = Some existing"
    and upd: "update_proxy V f name rule (pm_of w) = (Inr (), pm)" and name: "r_name rule = name"
    and w': "w' = updated (server_params U V J jwt bc) existing rule pm w"
  shows "sys_inv V w'"
proof -
  note up = update_proxy_Inr [OF V upd]
  have ok: "sys_ok (rules_of V w) (statuses w) (listeners_of w)" and pmi: "pm_inv (pm_of w)"
    using inv by (simp_all add: sys_inv_def)
  have old': "rules_of V w name = Some existing" using old by (simp add: rules_of_def)
  have ename: "r_name existing = name" using old by (rule lookup_rule_name)
  have nd: "name \<in> dom (statuses w)" using ok old' by (auto simp: sys_ok_def)
  have st: "statuses (set_pm pm w) = statuses w"
    by (rule ext) (simp add: statuses_set_pm up(3) statuses_def)
  have "rule\<lparr>r_name := name\<rparr> = rule" using name by (cases rule) simp
  then have rl: "lookup_rule V pm = (rules_of V w)(name \<mapsto> rule)"
    using up(1) by (simp add: rules_of_def)
  note stop = stop_clear [OF ok old']
  let ?w1 = "delete_callback existing (set_pm pm w)"
  have s1: "sys_ok (rules_of V ?w1) (statuses ?w1) (listeners_of ?w1)"
    using sys_set [OF stop(2) stop(1) name, of Stopped] nd by (simp add: st rl ename)
  have "sys_ok (rules_of V w') (statuses w') (listeners_of w')"
    using create_callback_sys [OF s1, of rule] stop(1)
    by (simp add: w' updated_def notify_assign_def rl name clear_def)
  moreover have "same_store (set_pm pm w) w'"
    unfolding w' using server.updated_store [of pm w U V J jwt bc existing rule] .
  then have "pm_inv (pm_of w')" using same_storeD(2) up(2) [OF pmi] by fastforce
  ultimately show ?thesis by (simp add: sys_inv_def)
qed

lemma delete_keeps_sys:
  assumes inv: "sys_inv V w" and V: "vec_json_ok V"
    and old: "lookup_rule V (pm_of w) name = Some rule"
    and rem: "remove_proxy V f g name (pm_of w) = (Inr rule, pm)"
    and w': "w' = deleted (server_params U V J jwt bc) rule pm w"
  shows "sys_inv V w'"
proof -
  note rm = remove_proxy_Inr [OF rem]
  have ok: "sys_ok (rules_of V w) (statuses w) (listeners_of w)" and pmi: "pm_inv (pm_of w)"
    using inv by (simp_all add: sys_inv_def)
  have old': "rules_of V w name = Some rule" using old by (simp add: rules_of_def)
  have rname: "r_name rule = name" using old by (rule lookup_rule_name)
  have st: "statuses (set_pm pm w) = (statuses w)(name := None)"
    by (rule ext) (simp add: statuses_set_pm rm(3) statuses_def)
  have rl: "lookup_rule V pm = (rules_of V w)(name := None)"
    using rm(1) by (simp add: rules_of_def)
  note stop = stop_clear [OF ok old']
  have "sys_ok (rules_of V w') (statuses w') (listeners_of w')"
    using sys_unset [OF stop(2) stop(1)]
    by (simp add: w' deleted_def rl st rname)
  moreover have "same_store (set_pm pm w) w'"
    unfolding w' using server.deleted_store [of pm w U V J jwt bc rule] .
  then have "pm_inv (pm_of w')" using same_storeD(2) rm(2) [OF pmi] by fastforce
  ultimately show ?thesis by (simp add: sys_inv_def)
qed

lemma api_exec_sys:
  assumes inv: "sys_inv V w" and V: "vec_json_ok V"
    and ex: "api_exec (server_params U V J jwt bc) F c w = (code, w')"
  shows "sys_inv V w'"
proof (cases c)
  case (Create payload)
  then obtain r where "create_proxy (server_params U V J jwt bc) F payload w = (r, w')"
    using ex by (auto split: prod.splits)
  then show ?thesis
    by (cases rule: create_proxy_cases) (use inv create_keeps_sys [OF inv V] in auto)
next
  case (Update name payload)
  then obtain r where "api_update_proxy (server_params U V J jwt bc) F name payload w = (r, w')"
    using ex by (auto split: prod.splits)
  then show ?thesis
  proof (cases rule: update_proxy_cases)
    case refused
    with inv show ?thesis by simp
  next
    case (changed existing pm)
    have "r_name (merge_rule name payload existing) = name" by (simp add: merge_rule_def)
    with changed show ?thesis by (auto intro: update_keeps_sys [OF inv V])
  qed
next
  case (Delete name)
  then obtain r where "delete_proxy (server_params U V J jwt bc) F name w = (r, w')"
    using ex by (auto split: prod.splits)
  then show ?thesis
    by (cases rule: delete_proxy_cases) (use inv delete_keeps_sys [OF inv V] in auto)
qed

section \<open>Start-up\<close>

lemma start_existing_frame [simp]:
  "rules_of V (start_existing r w) = rules_of V w" "pm_inv (pm_of (start_existing r w)) = pm_inv (pm_of w)"
proof -
  have "same_store w (start_existing r w)"
    by (auto simp: start_existing_def Let_def split: prod.splits)
      (meson same_store_listeners same_store_status same_store_trans)+
  from same_storeD [OF this] show "rules_of V (start_existing r w) = rules_of V w"
    "pm_inv (pm_of (start_existing r w)) = pm_inv (pm_of w)"
    by (simp_all add: rules_of_def)
qed

lemma start_existing_sys:
  assumes "sys_inv V w" "rules_of V w (r_name r) = Some r" "listener_of (listeners_of w) (r_name r) = None"
  shows "sys_inv V (start_existing r w)"
proof -
  obtain b lm' where s: "start_proxy_listener (se_busy (snd w)) r (listeners_of w) = (b, lm')"
    by fastforce
  have ok: "sys_ok (rules_of V w) (statuses w) (listeners_of w)" using assms(1) by (simp add: sys_inv_def)
  then have d: "r_name r \<in> dom (statuses w)" using assms(2) by (auto simp: sys_ok_def)
  from start_ok [OF ok assms(2,3) s] d s have
    "sys_ok (rules_of V (start_existing r w)) (statuses (start_existing r w))
       (listeners_of (start_existing r w))"
    by (simp add: start_existing_def)
  with assms(1) show ?thesis by (simp add: sys_inv_def)
qed

lemma start_existing_listener:
  assumes "lm_inv (listeners_of w)" "n \<noteq> r_name r"
  shows "listener_of (listeners_of (start_existing r w)) n = listener_of (listeners_of w) n"
proof -
  obtain b lm' where s: "start_proxy_listener (se_busy (snd w)) r (listeners_of w) = (b, lm')"
    by fastforce
  have bd: "tasks_bounded (listeners_of w)" "table_sound (listeners_of w)"
    using assms(1) by (simp_all add: lm_inv_def)
  have "listener_of lm' n = listener_of (listeners_of w) n"
    using s start_stream_simps(5) [OF _ bd(1) bd(2) assms(2)]
    by (cases "r_type r") (auto simp: start_proxy_listener.simps start_tcp_listener_def
        start_udp_listener_def split: if_splits)
  with s show ?thesis by (simp add: start_existing_def)
qed

lemma start_all_existing_sys:
  assumes "sys_inv V w" "\<And>r. r \<in> set rs \<Longrightarrow> rules_of V w (r_name r) = Some r"
    and "\<And>r. r \<in> set rs \<Longrightarrow> listener_of (listeners_of w) (r_name r) = None"
    and "distinct (map r_name rs)"
  shows "sys_inv V (fold start_existing rs w)"
  using assms
proof (induction rs arbitrary: w)
  case (Cons r rs)
  have s1: "sys_inv V (start_existing r w)"
    using Cons.prems by (intro start_existing_sys) auto
  have lmi: "lm_inv (listeners_of w)" using Cons.prems(1) by (simp add: sys_inv_def sys_ok_def)
  have "sys_inv V (fold start_existing rs (start_existing r w))"
  proof (rule Cons.IH [OF s1])
    fix q assume q: "q \<in> set rs"
    then have "r_name q \<in> r_name ` set rs" by simp
    with Cons.prems(4) have "r_name q \<noteq> r_name r" by auto
    with q Cons.prems(2,3) start_existing_listener [OF lmi]
    show "rules_of V (start_existing r w) (r_name q) = Some q"
      "listener_of (listeners_of (start_existing r w)) (r_name q) = None" by auto
  qed (use Cons.prems(4) in simp)
  then show ?case by simp
qed simp

lemma start_all_existing_shared:
  "lm_http_listener (listeners_of (fold start_existing rs w)) = lm_http_listener (listeners_of w) \<and>
   lm_https_listener (listeners_of (fold start_existing rs w)) = lm_https_listener (listeners_of w) \<and>
   rules_of V (fold start_existing rs w) = rules_of V w"
proof (induction rs arbitrary: w)
  case (Cons r rs)
  have "lm_http_listener (listeners_of (start_existing r w)) = lm_http_listener (listeners_of w) \<and>
    lm_https_listener (listeners_of (start_existing r w)) = lm_https_listener (listeners_of w)"
    by (cases "r_type r") (auto simp: start_existing_def start_proxy_listener.simps Let_def
        start_tcp_listener_def start_udp_listener_def start_stream_listener_def spawn_task_def
        register_domain_route_def split: prod.splits if_splits)
  with Cons.IH [of "start_existing r w"] show ?case by simp
qed simp

lemma sys_inv_listeners:
  assumes "sys_inv V w" "lm_inv lm" "listener_of lm = listener_of (listeners_of w)"
    and "lm_domain_routes lm = lm_domain_routes (listeners_of w)"
  shows "sys_inv V (set_listeners lm w)"
  using assms
  by (simp add: sys_inv_def sys_ok_def routes_sound_def listeners_sound_def statuses_exact_def)

lemma register_existing_sys:
  assumes "sys_inv V w" "rules_of V w (r_name r) = Some r"
  shows "sys_inv V (register_existing r w)"
  using assms
  by (auto simp: register_existing_def sys_inv_def sys_ok_def routes_sound_def listeners_sound_def
      statuses_exact_def)

lemma register_all_existing_sys:
  "sys_inv V w \<Longrightarrow> \<forall>r \<in> set rs. rules_of V w (r_name r) = Some r \<Longrightarrow>
   sys_inv V (fold register_existing rs w)"
proof (induction rs arbitrary: w)
  case (Cons r rs)
  have "rules_of V (register_existing r w) = rules_of V w" by (simp add: register_existing_def)
  with Cons register_existing_sys [of V w r] show ?case by simp
qed simp

text \<open>The rules a listing returns are the stored ones.\<close>

lemma listed_rules:
  assumes "distinct (row_names pm)"
  shows "\<forall>r \<in> set (map pe_rule (list_proxies V f pm)). lookup_rule V pm (r_name r) = Some r"
    and "distinct (map r_name (map pe_rule (list_proxies V f pm)))"
proof -
  have l: "map pe_rule (list_proxies V f pm) = query_all_rules V f pm"
    by (simp add: list_proxies_def entry_of_def Let_def comp_def)
  have "find (\<lambda>q. row_name q = row_name row) rows = Some row"
    if "distinct (map row_name rows)" "row \<in> set rows" for rows and row :: proxy_rule_row
    using that by (induction rows) force+
  then show "\<forall>r \<in> set (map pe_rule (list_proxies V f pm)). lookup_rule V pm (r_name r) = Some r"
    using assms unfolding l
    by (auto simp: query_all_rules_def lookup_rule_def query_rule_def row_names_def split: if_splits)
  show "distinct (map r_name (map pe_rule (list_proxies V f pm)))"
    using assms unfolding l by (simp add: query_all_rules_def row_names_def comp_def)
qed

text \<open>The shared listeners and the second pass over the domain routes.\<close>

lemma shared_start_sys:
  assumes s2: "sys_inv V w"
    and h2: "lm_http_listener (listeners_of w) = None" "lm_https_listener (listeners_of w) = None"
    and w3_def: "w3 = (if http_port (cfg_server cfg) > 0 then
      set_listeners (snd (start_http_listener busy (http_port (cfg_server cfg)) (listeners_of w))) w
      else w)"
    and w4_def: "w4 = (if https_port (cfg_server cfg) > 0 then
      set_listeners (snd (start_https_listener busy (https_port (cfg_server cfg)) (listeners_of w3))) w3
      else w3)"
  shows "sys_inv V w4"
proof -
  obtain b3 lm3 where l3: "start_http_listener busy (http_port (cfg_server cfg)) (listeners_of w) =
      (b3, lm3)" by fastforce
  have lmi2: "lm_inv (listeners_of w)" using s2 by (simp add: sys_inv_def sys_ok_def)
  note i3 = start_http_inv [OF lmi2 h2(1) l3]
  have s3: "sys_inv V w3" and h3: "lm_https_listener (listeners_of w3) = None"
    using sys_inv_listeners [OF s2 i3(1,2,3)] s2 h2 i3(4) by (simp_all add: w3_def l3)
  obtain b4 lm4 where l4: "start_https_listener busy (https_port (cfg_server cfg)) (listeners_of w3) =
      (b4, lm4)" by fastforce
  have lmi3: "lm_inv (listeners_of w3)" using s3 by (simp add: sys_inv_def sys_ok_def)
  note i4 = start_https_inv [OF lmi3 h3 l4]
  show "sys_inv V w4"
    using sys_inv_listeners [OF s3 i4(1,2,3)] s3 by (simp add: w4_def l4)
qed

text \<open>The state after the rules were loaded: nothing runs yet.\<close>

definition loaded_world ::
  "vec_json \<Rightarrow> bool \<Rightarrow> (bool \<Rightarrow> u16 \<Rightarrow> bool) \<Rightarrow> server_config \<Rightarrow> proxy_rule_row list \<Rightarrow> server_world" where
  "loaded_world V fault busy cfg rows =
     on_pm (load_from_db V fault) (app_with_db cfg rows,
       \<lparr>se_sessions = session_manager_new, se_listeners = listener_manager_new, se_busy = busy\<rparr>)"

lemma loaded_world_simps [simp]:
  "listeners_of (loaded_world V fault busy cfg rows) = listener_manager_new"
  "se_busy (snd (loaded_world V fault busy cfg rows)) = busy"
  by (simp_all add: loaded_world_def on_pm_def)

lemma new_listener [simp]: "listener_of listener_manager_new n = None"
  by (simp add: listener_of_def listener_manager_new_def)

lemma loaded_sys:
  assumes "distinct (map row_name rows)"
  shows "sys_inv V (loaded_world V False busy cfg rows)"
proof -
  let ?w1 = "loaded_world V False busy cfg rows"
  have pm0: "app_pm (app_with_db cfg rows) = open_manager rows" by (simp add: app_with_db_def)
  have inv1: "pm_inv (pm_of ?w1)"
    using assms pm0 load_from_db_inv [of "open_manager rows" V]
    by (simp add: loaded_world_def open_manager_def row_names_def)
  have fresh: "rt = runtime_new" if "runtime (pm_of ?w1) n = Some rt" for n rt
    using load_rules_fresh [of "open_manager rows"] that
    by (auto simp: loaded_world_def pm0 load_from_db_def open_manager_def)
  have dom1: "dom (statuses ?w1) = dom (rules_of V ?w1)"
  proof -
    have "dom (statuses ?w1) = dom (runtime (pm_of ?w1))" by (auto simp: statuses_def)
    moreover have "dom (rules_of V ?w1) = set (row_names (pm_of ?w1))"
      using lookup_rule_None [of V "pm_of ?w1"] by (auto simp: rules_of_def dom_def)
    ultimately show ?thesis using inv1 by (simp add: pm_inv_def)
  qed
  have "statuses ?w1 n \<noteq> Some Running" for n
    using fresh [of n] by (auto simp: statuses_def runtime_new_def)
  with dom1 inv1 show ?thesis
    by (auto simp: sys_inv_def sys_ok_def routes_sound_def listeners_sound_def statuses_exact_def
        rules_named_def rules_of_def dest: lookup_rule_name) (simp_all add: listener_manager_new_def)
qed

lemma server_boot_sys:
  assumes "distinct (map row_name rows)" "\<not> F 0"
  shows "sys_inv V (server_boot V F random busy cfg rows)"
proof -
  let ?cfg = "fill_jwt_secret random cfg"
  let ?w1 = "loaded_world V (F 0) busy ?cfg rows"
  let ?w2 = "start_existing_listeners V (F 1) ?w1"
  have s1: "sys_inv V ?w1" using loaded_sys [OF assms(1)] assms(2) by simp
  have nd: "distinct (row_names (pm_of ?w1))" using s1 by (simp add: sys_inv_def pm_inv_def)
  have none: "listener_of (listeners_of ?w1) n = None" for n by simp
  have s2: "sys_inv V ?w2"
    unfolding start_existing_listeners_def
    using listed_rules [OF nd] none by (intro start_all_existing_sys [OF s1]) (auto simp: rules_of_def)
  have h2: "lm_http_listener (listeners_of ?w2) = None" "lm_https_listener (listeners_of ?w2) = None"
    using start_all_existing_shared [of _ ?w1 V]
    by (simp_all add: start_existing_listeners_def listener_manager_new_def)
  define w2 where "w2 = ?w2"
  define w3 where "w3 = (if http_port (cfg_server ?cfg) > 0 then
      set_listeners (snd (start_http_listener busy (http_port (cfg_server ?cfg)) (listeners_of w2))) w2
      else w2)"
  define w4 where "w4 = (if https_port (cfg_server ?cfg) > 0 then
      set_listeners (snd (start_https_listener busy (https_port (cfg_server ?cfg)) (listeners_of w3))) w3
      else w3)"
  have s4: "sys_inv V w4"
    by (rule shared_start_sys [OF s2 [folded w2_def] h2 [folded w2_def] w3_def w4_def])
  have nd4: "distinct (row_names (pm_of w4))" using s4 by (simp add: sys_inv_def pm_inv_def)
  have "sys_inv V (register_existing_domain_routes V (F 2) w4)"
    unfolding register_existing_domain_routes_def
    using listed_rules(1) [OF nd4] by (intro register_all_existing_sys [OF s4]) (auto simp: rules_of_def)
  then show ?thesis unfolding server_boot_def Let_def w4_def w3_def w2_def loaded_world_def .
qed

section \<open>Everything that happens\<close>

lemma statuses_on_pm_frame:
  assumes "\<And>pm n. map_option rs_status (runtime (f pm) n) = map_option rs_status (runtime pm n)"
    and "\<And>pm. pool (f pm) = pool pm"
  shows "pm_inv (pm_of (on_pm f w)) = pm_inv (pm_of w) \<and> rules_of V (on_pm f w) = rules_of V w \<and>
    statuses (on_pm f w) = statuses w \<and> listeners_of (on_pm f w) = listeners_of w"
proof -
  have st: "statuses (on_pm f w) = statuses w" by (rule ext) (simp add: statuses_def assms(1))
  have "dom (runtime (f pm)) = dom (runtime pm)" for pm
  proof -
    have "runtime (f pm) n = None \<longleftrightarrow> runtime pm n = None" for n
      using assms(1) [of pm n] by (cases "runtime pm n"; cases "runtime (f pm) n"; simp)
    then show ?thesis by (simp add: dom_def)
  qed
  then have "pm_inv (f pm) = pm_inv pm" for pm by (rule pm_inv_runtime [OF assms(2)])
  moreover have "rules_of V (on_pm f w) = rules_of V w"
    using lookup_rule_pool [OF assms(2)] by (simp add: rules_of_def)
  ultimately show ?thesis by (simp add: st)
qed

lemma stat_frame:
  "map_option rs_status (runtime (add_traffic n i j pm) m) = map_option rs_status (runtime pm m)"
  "map_option rs_status (runtime (inc_connections n pm) m) = map_option rs_status (runtime pm m)"
  "map_option rs_status (runtime (dec_connections n pm) m) = map_option rs_status (runtime pm m)"
  "map_option rs_status (runtime (update_bandwidth t pm) m) = map_option rs_status (runtime pm m)"
proof -
  have w: "map_option rs_status (runtime (with_runtime n f pm) m) = map_option rs_status (runtime pm m)"
    if "\<And>rt. rs_status (f rt) = rs_status rt" for f :: "runtime_state \<Rightarrow> runtime_state"
    using that by (auto simp: with_runtime_def split: option.splits)
  show "map_option rs_status (runtime (add_traffic n i j pm) m) = map_option rs_status (runtime pm m)"
    "map_option rs_status (runtime (inc_connections n pm) m) = map_option rs_status (runtime pm m)"
    "map_option rs_status (runtime (dec_connections n pm) m) = map_option rs_status (runtime pm m)"
    by (simp_all add: add_traffic_def inc_connections_def dec_connections_def w)
  have "rs_status (sample_runtime t rt) = rs_status rt" for rt
    by (simp add: sample_runtime_def Let_def split: option.splits)
  then show "map_option rs_status (runtime (update_bandwidth t pm) m) = map_option rs_status (runtime pm m)"
    by (simp add: update_bandwidth_def option.map_comp comp_def)
qed

lemma conn_callback_frame:
  "map_option rs_status (runtime (conn_callback n d pm) m) = map_option rs_status (runtime pm m)"
  "pool (conn_callback n d pm) = pool pm"
proof -
  have "map_option rs_status (runtime ((inc_connections n ^^ k) pm) m) = map_option rs_status (runtime pm m)"
    "map_option rs_status (runtime ((dec_connections n ^^ k) pm) m) = map_option rs_status (runtime pm m)"
    "pool ((inc_connections n ^^ k) pm) = pool pm" "pool ((dec_connections n ^^ k) pm) = pool pm" for k
    by (induction k) (simp_all add: stat_frame)
  then show "map_option rs_status (runtime (conn_callback n d pm) m) = map_option rs_status (runtime pm m)"
    "pool (conn_callback n d pm) = pool pm"
    by (simp_all add: conn_callback_def)
qed

text \<open>
  One step of the running server: an API call (with any database faults), a login, a change of the
  sessions together with the published client list, a report of traffic or connections, a bandwidth
  sample, another program taking or releasing ports.
\<close>

inductive background_step ::
  "(nat \<Rightarrow> bool) \<Rightarrow> vec_json \<Rightarrow> serde \<Rightarrow> jwt_lib \<Rightarrow> (string \<Rightarrow> string \<Rightarrow> bool option) \<Rightarrow>
   server_world \<Rightarrow> server_world \<Rightarrow> bool" for U V J jwt bc where
  log_in: "login (server_params U V J jwt bc) t1 t2 x req (fst w) = (r, st) \<Longrightarrow>
     background_step U V J jwt bc w (st, snd w)"
| sessions: "background_step U V J jwt bc w
     (set_connected_clients cs (fst w), (snd w)\<lparr>se_sessions := sm\<rparr>)"
| traffic: "background_step U V J jwt bc w (on_pm (traffic_callback n i j) w)"
| conn: "background_step U V J jwt bc w (on_pm (conn_callback n d) w)"
| sample: "background_step U V J jwt bc w (on_pm (update_bandwidth t) w)"
| ports: "background_step U V J jwt bc w (fst w, (snd w)\<lparr>se_busy := b\<rparr>)"

inductive server_step ::
  "(nat \<Rightarrow> bool) \<Rightarrow> vec_json \<Rightarrow> serde \<Rightarrow> jwt_lib \<Rightarrow> (string \<Rightarrow> string \<Rightarrow> bool option) \<Rightarrow>
   server_world \<Rightarrow> server_world \<Rightarrow> bool" for U V J jwt bc where
  api: "api_exec (server_params U V J jwt bc) F c w = (code, w') \<Longrightarrow> server_step U V J jwt bc w w'"
| background: "background_step U V J jwt bc w w' \<Longrightarrow> server_step U V J jwt bc w w'"

lemma sys_inv_same:
  assumes "sys_inv V w" "pm_of w' = pm_of w" "listeners_of w' = listeners_of w"
  shows "sys_inv V w'"
proof -
  have "statuses w' = statuses w" "rules_of V w' = rules_of V w"
    using assms(2) by (simp_all add: statuses_def rules_of_def fun_eq_iff)
  with assms show ?thesis by (simp add: sys_inv_def)
qed

lemma login_pm: "login P t1 t2 x req st = (r, st') \<Longrightarrow> app_pm st' = app_pm st"
  by (auto simp: login_def Let_def split: prod.splits if_splits option.splits)

text \<open>What is not an API call leaves rules, statuses and listeners alone.\<close>

lemma background_step_frame:
  assumes "background_step U V J jwt bc w w'"
  shows "pm_inv (pm_of w') = pm_inv (pm_of w) \<and> rules_of V w' = rules_of V w \<and>
    statuses w' = statuses w \<and> listeners_of w' = listeners_of w"
proof -
  have same: "pm_inv (pm_of w') = pm_inv (pm_of w) \<and> rules_of V w' = rules_of V w \<and> statuses w' = statuses w"
    if "pm_of w' = pm_of w" for w' :: server_world using that by (simp add: statuses_def rules_of_def fun_eq_iff)
  from assms show ?thesis
  proof cases
    case (log_in t1 t2 x req r st)
    then show ?thesis using same [of w'] by (simp add: login_pm)
  next
    case (traffic n i j)
    then show ?thesis
      using statuses_on_pm_frame [where f = "traffic_callback n i j" and V = V and w = w] by (simp add: traffic_callback_def stat_frame)
  next
    case (conn n d)
    then show ?thesis using statuses_on_pm_frame [where f = "conn_callback n d" and V = V and w = w] by (simp add: conn_callback_frame)
  next
    case (sample t)
    then show ?thesis using statuses_on_pm_frame [where f = "update_bandwidth t" and V = V and w = w] by (simp add: stat_frame)
  qed (use same [of w'] in simp_all)
qed

lemma server_step_sys:
  assumes "vec_json_ok V" "server_step U V J jwt bc w w'" "sys_inv V w"
  shows "sys_inv V w'"
  using assms(2)
proof cases
  case (api F c code)
  then show ?thesis using api_exec_sys assms(1,3) by blast
next
  case background
  from background_step_frame [OF this] assms(3) show ?thesis by (simp add: sys_inv_def)
qed

definition server_init :: "vec_json \<Rightarrow> server_world \<Rightarrow> bool" where
  "server_init V w \<longleftrightarrow>
     (\<exists>F random busy cfg rows. \<not> F 0 \<and> distinct (map row_name rows) \<and>
        w = server_boot V F random busy cfg rows)"

interpretation server_run: transition_system
  "\<lambda>w. vec_json_ok V \<and> server_init V w" "server_step U V J jwt bc"
  "\<lambda>w. vec_json_ok V \<and> sys_inv V w" for U V J jwt bc
proof
  show "vec_json_ok V \<and> sys_inv V w" if "vec_json_ok V \<and> server_init V w" for w
    using that server_boot_sys by (auto simp: server_init_def)
  show "vec_json_ok V \<and> sys_inv V w'" if "vec_json_ok V \<and> sys_inv V w" "server_step U V J jwt bc w w'"
    for w w'
    using that server_step_sys by blast
qed

end
