(* ===== verification/Api_Login.thy ===== *)
theory Api_Login
  imports Api
begin

text \<open>
  Properties of the login handler: who is let in, what the rate limiter guarantees when logins
  come one after the other, and what it does not guarantee when they overlap or come slowly.
\<close>

section \<open>Sequences of logins\<close>

record login_event =
  le_check :: instant
  le_record :: instant
  le_unix :: "u64 option"
  le_req :: login_request

definition login_of :: "'e web_params \<Rightarrow> login_event \<Rightarrow> app_state \<Rightarrow> login_response api_response \<times> app_state" where
  "login_of P e st = login P (le_check e) (le_record e) (le_unix e) (le_req e) st"

fun logins :: "'e web_params \<Rightarrow> login_event list \<Rightarrow> app_state \<Rightarrow> (string \<times> u16) list \<times> app_state" where
  "logins P [] st = ([], st)"
| "logins P (e # es) st =
     (let (r, st1) = login_of P e st; (as, st2) = logins P es st1
      in ((lr_username (le_req e), rsp_code r) # as, st2))"

abbreviation user_of :: "login_event \<Rightarrow> string" where
  "user_of e \<equiv> lr_username (le_req e)"

text \<open>The status codes a user got.\<close>

definition answers :: "string \<Rightarrow> (string \<times> u16) list \<Rightarrow> u16 list" where
  "answers u as = map snd (filter (\<lambda>a. fst a = u) as)"

lemma answers_simps [simp]:
  "answers u [] = []"
  "answers u ((v, c) # as) = (if v = u then c # answers u as else answers u as)"
  by (simp_all add: answers_def)

section \<open>One login\<close>

lemma login_config: "login P t1 t2 x req st = (r, st') \<Longrightarrow> app_config st' = app_config st"
  by (auto simp: login_def Let_def split: prod.splits if_splits option.splits)

lemma login_locked:
  assumes "locked_out t1 (lr_username req) (app_login_attempts st)"
  shows "login P t1 t2 x req st = (error_response 429 Too_Many_Attempts, st)"
proof -
  obtain m where "check_login_rate_limit t1 (lr_username req) (app_login_attempts st) = (False, m)"
    using assms check_denied_iff by (metis surj_pair fst_conv)
  moreover from this have "m = app_login_attempts st" by (rule check_denied_same)
  ultimately show ?thesis by (simp add: login_def)
qed

lemma login_wrong:
  assumes "\<not> locked_out t1 (lr_username req) (app_login_attempts st)"
    and "failures (app_login_attempts st) (lr_username req) < 5"
    and "\<not> user_ok (wp_bcrypt P) (app_config st) req"
  shows "login P t1 t2 x req st = (error_response 401 Bad_Credentials,
    st\<lparr>app_login_attempts :=
        record_login_attempt t2 (lr_username req) False (app_login_attempts st)\<rparr>)"
proof -
  obtain m where c: "check_login_rate_limit t1 (lr_username req) (app_login_attempts st) = (True, m)"
    using assms check_denied_iff by (metis surj_pair fst_conv)
  with assms(2) have "m = app_login_attempts st" by (intro check_allowed(2))
  with c assms(3) show ?thesis by (simp add: login_def Let_def)
qed

text \<open>A login touches the counter of its own user only.\<close>

lemma login_other:
  assumes "login P t1 t2 x req st = (r, st')" "u \<noteq> lr_username req"
  shows "app_login_attempts st' u = app_login_attempts st u"
proof -
  obtain b m where c: "check_login_rate_limit t1 (lr_username req) (app_login_attempts st) = (b, m)"
    by fastforce
  have m: "m u = app_login_attempts st u"
  proof (cases b)
    case True
    with c assms(2) show ?thesis by (auto intro: check_allowed(3))
  next
    case False
    with c show ?thesis by (auto dest: check_denied_same)
  qed
  from assms c m show ?thesis
    by (auto simp: login_def Let_def split: if_splits option.splits)
qed

lemma login_limiter_inv:
  assumes "limiter_inv (app_login_attempts st)" "login P t1 t2 x req st = (r, st')"
  shows "limiter_inv (app_login_attempts st')"
proof -
  obtain b m where c: "check_login_rate_limit t1 (lr_username req) (app_login_attempts st) = (b, m)"
    by fastforce
  then have m: "limiter_inv m" using assms(1) by (auto intro: limiter_inv_check)
  show ?thesis
  proof (cases b)
    case True
    with c have "failures m (lr_username req) < 5" by (auto intro: check_allowed(1))
    with limiter_inv_record [OF m] have
      "\<And>ok. limiter_inv (record_login_attempt t2 (lr_username req) ok m)" by blast
    with assms(2) c True show ?thesis
      by (auto simp: login_def Let_def simp del: record_success split: if_splits option.splits)
  next
    case False
    with assms(2) c m show ?thesis by (auto simp: login_def)
  qed
qed

lemma logins_config: "logins P es st = (as, st') \<Longrightarrow> app_config st' = app_config st"
proof (induction es arbitrary: st as)
  case (Cons e es)
  obtain r st1 where l: "login_of P e st = (r, st1)" by fastforce
  with Cons.prems obtain as1 where "logins P es st1 = (as1, st')"
    by (auto simp: Let_def split: prod.splits)
  then have "app_config st' = app_config st1" by (rule Cons.IH)
  with l login_config show ?case by (auto simp: login_of_def)
qed simp

section \<open>The limiter as a transition system\<close>

definition login_init :: "app_state \<Rightarrow> bool" where
  "login_init st \<longleftrightarrow> app_login_attempts st = (\<lambda>_. None)"

inductive login_step :: "'e web_params \<Rightarrow> app_state \<Rightarrow> app_state \<Rightarrow> bool" for P where
  login_step: "login P t1 t2 x req st = (r, st') \<Longrightarrow> login_step P st st'"

interpretation limiter: transition_system login_init "login_step P"
  "\<lambda>st. limiter_inv (app_login_attempts st)" for P
proof
  show "limiter_inv (app_login_attempts st)" if "login_init st" for st
    using that by (simp add: login_init_def limiter_inv_def failures_def)
  show "limiter_inv (app_login_attempts t)"
    if "limiter_inv (app_login_attempts s)" "login_step P s t" for s t
    using that(2,1) by (cases rule: login_step.cases) (rule login_limiter_inv)
qed

section \<open>Lockout\<close>

text \<open>
  Where a run of wrong logins of user \<open>u\<close> stands: \<open>k\<close> failures counted from \<open>t0\<close> on.
\<close>

definition window_at :: "string \<Rightarrow> nat \<Rightarrow> instant \<Rightarrow> app_state \<Rightarrow> bool" where
  "window_at u k t0 st \<longleftrightarrow>
     k \<le> 5 \<and> (case app_login_attempts st u of
        None \<Rightarrow> k = 0
      | Some a \<Rightarrow> unat (la_count a) = k \<and> (0 < k \<longrightarrow> la_window_start a = t0))"

lemma window_at_failures: "window_at u k t0 st \<Longrightarrow> failures (app_login_attempts st) u = k"
  by (auto simp: window_at_def failures_def split: option.splits)

lemma window_step:
  assumes w: "window_at u k t0 st" and u: "user_of e = u"
    and wrong: "\<not> user_ok (wp_bcrypt P) (app_config st) (le_req e)"
    and early: "(le_check e - t0) div nanos_per_sec \<le> 300"
    and first: "app_login_attempts st u = None \<Longrightarrow> le_record e = t0"
    and fresh: "k = 0 \<Longrightarrow> app_login_attempts st u = None"
    and run: "login_of P e st = (r, st')"
  shows "window_at u (min 5 (Suc k)) t0 st' \<and> rsp_code r = (if k < 5 then 401 else 429)"
proof (cases "k < 5")
  case True
  have f: "failures (app_login_attempts st) u < 5" using window_at_failures [OF w] True by simp
  then have "\<not> locked_out (le_check e) u (app_login_attempts st)"
    by (auto simp: locked_out_def failures_def)
  from login_wrong [OF this [folded u] f [folded u] wrong] run u
  have st': "st' = st\<lparr>app_login_attempts :=
        record_login_attempt (le_record e) u False (app_login_attempts st)\<rparr>"
    and r: "rsp_code r = 401"
    by (auto simp: login_of_def)
  have "failures (app_login_attempts st') u = Suc k"
    using record_failure [OF f] window_at_failures [OF w] by (simp add: st')
  moreover have "map_option la_window_start (app_login_attempts st' u) = Some t0"
    using record_failure_window [of "le_record e" u "app_login_attempts st"] w first fresh
    by (cases "app_login_attempts st u") (auto simp: st' window_at_def)
  ultimately show ?thesis using True r
    by (auto simp: window_at_def failures_def split: option.splits)
next
  case False
  with w have k: "k = 5" by (simp add: window_at_def)
  with w early have "locked_out (le_check e) u (app_login_attempts st)"
    by (auto simp: window_at_def locked_out_def split: option.splits)
  then have "login_of P e st = (error_response 429 Too_Many_Attempts, st)"
    unfolding login_of_def by (intro login_locked) (simp add: u)
  with run k w show ?thesis by auto
qed

lemma window_other:
  assumes "window_at u k t0 st" "user_of e \<noteq> u" "login_of P e st = (r, st')"
  shows "window_at u k t0 st'"
  using assms login_other [of P "le_check e" "le_record e" "le_unix e" "le_req e" st r st' u]
  by (simp add: window_at_def login_of_def)

lemma lockout_run:
  assumes "window_at u k t0 st"
    and "k = 0 \<Longrightarrow> app_login_attempts st u = None"
    and "k = 0 \<Longrightarrow> filter (\<lambda>e. user_of e = u) es \<noteq> [] \<Longrightarrow>
           le_record (hd (filter (\<lambda>e. user_of e = u) es)) = t0"
    and "\<And>e. e \<in> set es \<Longrightarrow> user_of e = u \<Longrightarrow>
           \<not> user_ok (wp_bcrypt P) (app_config st) (le_req e)
           \<and> (le_check e - t0) div nanos_per_sec \<le> 300"
    and "logins P es st = (as, st')" and "n = length (filter (\<lambda>e. user_of e = u) es)"
  shows "answers u as = replicate (min (5 - k) n) 401 @ replicate (n - (5 - k)) 429"
  using assms
proof (induction es arbitrary: st k as n)
  case Nil
  then show ?case by simp
next
  case (Cons e es)
  obtain r st1 where l: "login_of P e st = (r, st1)" by fastforce
  obtain as1 st2 where ls: "logins P es st1 = (as1, st2)" by fastforce
  have as: "as = (user_of e, rsp_code r) # as1" and st2: "st2 = st'"
    using Cons.prems(5) l ls by (auto simp: Let_def)
  have cfg: "app_config st1 = app_config st" using l login_config by (auto simp: login_of_def)
  let ?m = "length (filter (\<lambda>e. user_of e = u) es)"
  show ?case
  proof (cases "user_of e = u")
    case True
    have w1: "window_at u (min 5 (Suc k)) t0 st1" and r: "rsp_code r = (if k < 5 then 401 else 429)"
      using window_step [OF Cons.prems(1) True _ _ _ Cons.prems(2) l] Cons.prems(2,3,4) True
        Cons.prems(1)
      by (auto simp: window_at_def split: option.splits)
    have ih: "answers u as1 =
        replicate (min (5 - min 5 (Suc k)) ?m) 401 @ replicate (?m - (5 - min 5 (Suc k))) 429"
    proof (rule Cons.IH)
      show "window_at u (min 5 (Suc k)) t0 st1" by (rule w1)
      show "logins P es st1 = (as1, st')" using ls st2 by simp
    qed (use Cons.prems(4) cfg in auto)
    show ?thesis
    proof (cases "k < 5")
      case True
      then have "min (5 - k) n = Suc (min (5 - min 5 (Suc k)) ?m)"
        "n - (5 - k) = ?m - (5 - min 5 (Suc k))"
        using Cons.prems(6) \<open>user_of e = u\<close> by auto
      then show ?thesis using ih r True \<open>user_of e = u\<close> by (simp add: as)
    next
      case False
      then show ?thesis using ih r \<open>user_of e = u\<close> Cons.prems(6) by (simp add: as)
    qed
  next
    case False
    have w1: "window_at u k t0 st1" by (rule window_other [OF Cons.prems(1) False l])
    have same: "app_login_attempts st1 u = app_login_attempts st u"
      using l False login_other by (fastforce simp: login_of_def)
    have "answers u as1 = replicate (min (5 - k) ?m) 401 @ replicate (?m - (5 - k)) 429"
    proof (rule Cons.IH)
      show "window_at u k t0 st1" by (rule w1)
      show "logins P es st1 = (as1, st')" using ls st2 by simp
    qed (use Cons.prems(2,3,4) False cfg same in auto)
    then show ?thesis using False Cons.prems(6) by (simp add: as)
  qed
qed

section \<open>Properties\<close>

definition sample_params :: "unit web_params" where
  "sample_params =
     \<lparr>wp_unicode = (\<lambda>_. False), wp_vec = sample_vec_json, wp_serde = sample_serde,
      wp_jwt = sample_jwt, wp_bcrypt = (\<lambda>_ _. None),
      wp_callbacks = \<lparr>cb_notify_client = None, cb_on_proxy_create = None,
        cb_on_proxy_delete = None\<rparr>\<rparr>"

abbreviation sample_state :: app_state where
  "sample_state \<equiv> app_with_db (sample_config ''admin'' ''pw'') []"

definition try_at :: "nat \<Rightarrow> string \<Rightarrow> login_event" where
  "try_at t password =
     \<lparr>le_check = t * nanos_per_sec, le_record = t * nanos_per_sec, le_unix = Some (of_nat t),
      le_req = \<lparr>lr_username = ''admin'', lr_password = password\<rparr>\<rparr>"

lemma sample_user_ok:
  "user_ok (wp_bcrypt sample_params) (sample_config ''admin'' ''pw'')
     \<lparr>lr_username = ''admin'', lr_password = q\<rparr> \<longleftrightarrow> q = ''pw''"
  by (simp add: user_ok_def sample_config_def sample_params_def verify_password_def
      constant_time_eq_iff)

lemma try_wrong:
  assumes "app_config st = sample_config ''admin'' ''pw''"
    and "failures (app_login_attempts st) ''admin'' < 5"
  shows "login_of sample_params (try_at t ''guess'') st = (error_response 401 Bad_Credentials,
    st\<lparr>app_login_attempts :=
      record_login_attempt (t * nanos_per_sec) ''admin'' False (app_login_attempts st)\<rparr>)"
proof -
  have "\<not> locked_out (t * nanos_per_sec) ''admin'' (app_login_attempts st)"
    using assms(2) by (auto simp: locked_out_def failures_def)
  with login_wrong [of "t * nanos_per_sec" "le_req (try_at t ''guess'')" st sample_params] assms
  show ?thesis by (simp add: login_of_def try_at_def sample_user_ok)
qed



text \<open>
  The lock is counted from the first failure, not from the fifth: once more than 300 full seconds
  have passed since the first counted failure, the next attempt is evaluated again even if the
  fifth failure has only just happened, and a wrong password is then answered 401, not 429.
\<close>
theorem lockout_runs_from_first_failure:
  assumes "app_login_attempts st (lr_username req) = Some a" and "5 \<le> unat (la_count a)"
    and "300 < (t1 - la_window_start a) div nanos_per_sec"
  shows "rsp_code (fst (login P t1 t2 x req st)) \<noteq> 429 \<and>
    (\<not> user_ok (wp_bcrypt P) (app_config st) req \<longrightarrow>
       rsp_code (fst (login P t1 t2 x req st)) = 401 \<and>
       failures (app_login_attempts (snd (login P t1 t2 x req st))) (lr_username req) = 1)"
proof -
  let ?m = "(app_login_attempts st)(lr_username req \<mapsto> a\<lparr>la_count := 0, la_window_start := t1\<rparr>)"
  have c: "check_login_rate_limit t1 (lr_username req) (app_login_attempts st) = (True, ?m)"
    using assms by (simp add: check_login_rate_limit_def max_attempts_le LOGIN_LOCKOUT_SECS_def)
  have "failures (record_login_attempt t2 (lr_username req) False ?m) (lr_username req) = 1"
    using record_failure [of ?m "lr_username req"] by (simp add: failures_def)
  with c show ?thesis
    by (auto simp: login_def Let_def split: option.splits)
qed

theorem lockout_runs_from_first_failure_witness:
  "\<exists>st. map snd (fst (logins sample_params
       (map (\<lambda>t. try_at t ''guess'') [0, 297, 298, 299, 300]) sample_state)) =
       [401, 401, 401, 401, 401] \<and>
     st = snd (logins sample_params
       (map (\<lambda>t. try_at t ''guess'') [0, 297, 298, 299, 300]) sample_state) \<and>
     rsp_code (fst (login_of sample_params (try_at 301 ''guess'') st)) = 401"
proof -
  let ?es = "map (\<lambda>t. try_at t ''guess'') [0, 297, 298, 299, 300]"
  obtain as st where l: "logins sample_params ?es sample_state = (as, st)" by fastforce
  let ?rec = "\<lambda>t m. record_login_attempt (t * nanos_per_sec) ''admin'' False m"
  let ?m = "?rec 300 (?rec 299 (?rec 298 (?rec 297 (?rec 0 (\<lambda>_. None)))))"
  have f0: "failures (\<lambda>_. None) ''admin'' = 0" by (simp add: failures_def)
  have codes: "map snd as = [401, 401, 401, 401, 401]" and m: "app_login_attempts st = ?m"
    using l by (auto simp: try_wrong record_failure f0 app_with_db_def simp del: record_other)
  have cfg: "app_config st = sample_config ''admin'' ''pw''"
    using logins_config [OF l] by (simp add: app_with_db_def)
  have "failures ?m ''admin'' = 5" by (simp add: record_failure f0)
  moreover have "map_option la_window_start (?m ''admin'') = Some 0"
    by (simp add: record_login_attempt_def)
  ultimately obtain a where a: "app_login_attempts st ''admin'' = Some a" "unat (la_count a) = 5"
    "la_window_start a = 0"
    by (auto simp: m failures_def split: option.splits)
  have "rsp_code (fst (login_of sample_params (try_at 301 ''guess'') st)) = 401"
    using lockout_runs_from_first_failure [of st "le_req (try_at 301 ''guess'')"
        a "le_check (try_at 301 ''guess'')" sample_params] a cfg
    by (simp add: login_of_def try_at_def sample_user_ok)
  with l codes show ?thesis by auto
qed

text \<open>
  Logins that overlap escape the limit: the check and the record take the lock separately, so
  any number of attempts that pass the check before the first one is recorded are all let
  through, and their records are counted past the maximum of five.
\<close>
theorem overlapping_logins_escape_limit:
  assumes "m u = None" and "n < 2 ^ 32"
  shows "(\<forall>t. check_login_rate_limit t u m = (True, m)) \<and>
    failures (((record_login_attempt t u False) ^^ n) m) u = n"
proof
  show "\<forall>t. check_login_rate_limit t u m = (True, m)"
    using assms(1) by (simp add: check_login_rate_limit_def)
  show "failures (((record_login_attempt t u False) ^^ n) m) u = n"
    using assms(2)
  proof (induction n)
    case 0
    with assms(1) show ?case by (simp add: failures_def)
  next
    case (Suc n)
    then have "failures (((record_login_attempt t u False) ^^ n) m) u = n" by simp
    with Suc.prems show ?case by (simp add: record_failure_no_wrap)
  qed
qed

theorem overlapping_logins_escape_limit_witness:
  "failures (((record_login_attempt 0 ''admin'' False) ^^ 1000) (\<lambda>_. None)) ''admin'' = 1000"
  using overlapping_logins_escape_limit [of "\<lambda>_. None" "''admin''" 1000] by simp

text \<open>
  Taken one after the other, logins keep every counter at five or below, so the
  \<^verbatim>\<open>u32\<close> counters never overflow, whoever tries what and when.
\<close>
theorem login_counters_bounded:
  assumes "app_login_attempts st = (\<lambda>_. None)" and "(login_step P)\<^sup>*\<^sup>* st st'"
  shows "failures (app_login_attempts st') u \<le> 5"
  using limiter.inv_reachable [of st P st'] assms by (simp add: login_init_def limiter_inv_def)

theorem login_counters_bounded_witness:
  "failures (app_login_attempts (snd (login_of sample_params (try_at 0 ''guess'') sample_state)))
     ''admin'' \<le> 5"
proof -
  have "login_step sample_params sample_state
      (snd (login_of sample_params (try_at 0 ''guess'') sample_state))"
    unfolding login_of_def by (rule login_step.intros) (rule prod.collapse [symmetric])
  from login_counters_bounded [OF _ r_into_rtranclp, OF _ this] show ?thesis
    by (simp add: app_with_db_def)
qed

text \<open>
  A login succeeds exactly for the configured user with the configured password, unless the
  user is locked out: with a plain-text password in the configuration the answer is 200 if and only if the
  name and the password are equal to the configured ones byte for byte, the user is not locked
  out, and a token can be made; the token then validates under the configured secret.
\<close>
theorem login_succeeds_iff:
  assumes "jwt_ok (wp_jwt P)"
    and "web = cfg_web (app_config st)"
    and "\<not> prefix ''$2a$'' (web_password web)" and "\<not> prefix ''$2b$'' (web_password web)"
    and "login P t1 t2 (Some now) req st = (r, st')"
    and "unat now + unat (token_expire_hours web) * 3600 < 2 ^ 64"
  shows "(rsp_code r = 200 \<longleftrightarrow>
      \<not> locked_out t1 (lr_username req) (app_login_attempts st) \<and>
      lr_username req = web_user web \<and> lr_password req = web_password web \<and>
      generate_jwt (wp_jwt P) (Some now) (lr_username req) (jwt_secret web)
        (token_expire_hours web) \<noteq> None) \<and>
    (rsp_code r = 200 \<longrightarrow>
      (\<exists>lo. rsp_data r = Some lo \<and>
        validate_jwt (wp_jwt P) (unat now) (lo_token lo) (jwt_secret web) \<noteq> None))"
proof -
  let ?gen = "generate_jwt (wp_jwt P) (Some now) (lr_username req) (jwt_secret web)
        (token_expire_hours web)"
  obtain b m where c: "check_login_rate_limit t1 (lr_username req) (app_login_attempts st) = (b, m)"
    by fastforce
  have b: "b \<longleftrightarrow> \<not> locked_out t1 (lr_username req) (app_login_attempts st)"
    using check_denied_iff [of t1 "lr_username req" "app_login_attempts st"] c by simp
  have u: "user_ok (wp_bcrypt P) (app_config st) req \<longleftrightarrow>
      lr_username req = web_user web \<and> lr_password req = web_password web"
    using assms(2-4) by (simp add: user_ok_def verify_password_def constant_time_eq_iff)
  have v: "validate_jwt (wp_jwt P) (unat now) t (jwt_secret web) \<noteq> None" if "?gen = Some t" for t
    using generate_jwt_valid [OF assms(1) that assms(6)] by simp
  have r: "r = (if \<not> b then error_response 429 Too_Many_Attempts
      else if \<not> user_ok (wp_bcrypt P) (app_config st) req then error_response 401 Bad_Credentials
      else case ?gen of None \<Rightarrow> error_response 500 Token_Failed
        | Some t \<Rightarrow> success \<lparr>lo_token = t, lo_expires_in = token_expire_hours web * 3600\<rparr>)"
    using assms(5) c assms(2) by (auto simp: login_def Let_def split: option.splits)
  show ?thesis
    using u v b by (auto simp: r split: option.splits)
qed

theorem login_succeeds_iff_witness:
  "rsp_code (fst (login_of sample_params (try_at 5 ''pw'') sample_state)) = 200 \<and>
   rsp_code (fst (login_of sample_params (try_at 5 ''pW'') sample_state)) \<noteq> 200"
proof -
  have pre: "\<not> prefix ''$2a$'' ''pw''" "\<not> prefix ''$2b$'' ''pw''" by simp_all
  have h: "unat (of_nat 5 :: u64) + unat default_token_expire_hours * 3600 < 2 ^ 64"
    by (simp add: default_token_expire_hours_def)
  have "rsp_code (fst (login_of sample_params (try_at 5 q) sample_state)) = 200 \<longleftrightarrow> q = ''pw''" for q
  proof -
    obtain r st' where l: "login sample_params (le_check (try_at 5 q)) (le_record (try_at 5 q))
        (Some (of_nat 5)) (le_req (try_at 5 q)) sample_state = (r, st')" by fastforce
    have "\<exists>t. generate_jwt (wp_jwt sample_params) (Some (of_nat 5)) ''admin'' ''secret'' 24 = Some t"
      by (simp add: generate_jwt_def sample_params_def sample_jwt_def)
    with login_succeeds_iff [OF _ refl _ _ l] h pre show ?thesis
      using l by (auto simp: login_of_def try_at_def app_with_db_def sample_config_def sample_params_def
          locked_out_def default_token_expire_hours_def)
  qed
  then show ?thesis by simp
qed

end
