(* ===== verification/Server_Props.thy ===== *)
theory Server_Props
  imports Server_Inv Api_Login
begin

text \<open>
  Properties of the server as a whole: the Web handlers with the callbacks of
  \<^verbatim>\<open>main.rs\<close>, the rule table, the sessions and the listeners together.
\<close>

section \<open>Lemmas\<close>

lemma create_callback_statuses:
  "r_name r \<in> dom (statuses w) \<Longrightarrow>
   statuses (create_callback r w) = (statuses w)(r_name r \<mapsto>
     (if fst (start_proxy_listener (se_busy (snd w)) r (listeners_of w)) then Running else Error))"
  by (auto simp: create_callback_def Let_def split: prod.splits)

lemma create_callback_listeners:
  "listeners_of (create_callback r w) =
     snd (start_proxy_listener (se_busy (snd w)) r (listeners_of w))"
  by (simp add: create_callback_def Let_def split: prod.splits)

lemma callback_sessions [simp]:
  "sessions_of (create_callback r w) = sessions_of w" "sessions_of (delete_callback r w) = sessions_of w"
  "se_busy (snd (delete_callback r w)) = se_busy (snd w)"
  by (simp_all add: create_callback_def delete_callback_def Let_def split: prod.splits)

lemma notify_sessions:
  assumes "serde_roundtrip J" "ctrl_to_string J m = Some s"
  shows "sessions_of (snd (notify_callback J cid (to_string_or_default J m) w)) =
    snd (send_to cid (Control m) (sessions_of w))"
  using serde_roundtripD(7) [OF assms]
  by (simp add: notify_callback_def to_string_or_default_def assms(2) Let_def split: prod.splits)

lemma statuses_entry:
  "get_proxy V f n (pm_of w) = Some e \<Longrightarrow> n \<in> dom (statuses w) \<Longrightarrow> statuses w n = Some (pe_status e)"
  by (auto simp: get_proxy_def entry_of_def runtime_of_def statuses_def Let_def)

lemma sys_dom: "sys_inv V w \<Longrightarrow> dom (statuses w) = dom (rules_of V w)"
  by (simp add: sys_inv_def sys_ok_def)

text \<open>A successful call and the world it leaves.\<close>

lemma update_success:
  assumes "api_update_proxy (server_params U V J jwt bc) no_faults n payload w = (resp, w')"
    and "rsp_code resp = 200"
  obtains existing pm where "rules_of V w n = Some existing"
    "update_proxy V False n (merge_rule n payload existing) (pm_of w) = (Inr (), pm)"
    "w' = updated (server_params U V J jwt bc) existing (merge_rule n payload existing) pm w"
  using assms(1)
proof (cases rule: update_proxy_cases)
  case (changed existing pm)
  then show ?thesis by (intro that) (simp_all add: rules_of_def)
qed (use assms(2) in auto)

lemma delete_success:
  assumes "delete_proxy (server_params U V J jwt bc) no_faults n w = (resp, w')"
    and "rsp_code resp = 200"
  obtains rule pm where "rules_of V w n = Some rule"
    "remove_proxy V False False n (pm_of w) = (Inr rule, pm)"
    "w' = deleted (server_params U V J jwt bc) rule pm w"
  using assms(1)
proof (cases rule: delete_proxy_cases)
  case (changed rule pm)
  then show ?thesis by (intro that) (simp_all add: rules_of_def)
qed (use assms(2) in auto)

lemma statuses_updated:
  assumes "sys_inv V w" "vec_json_ok V" "rules_of V w n = Some existing" "r_name rule = n"
    and "update_proxy V f n rule (pm_of w) = (Inr (), pm)"
  shows "statuses (updated (server_params U V J jwt bc) existing rule pm w) n =
    Some (if fst (start_proxy_listener (se_busy (snd w)) rule
            (stop_proxy_listener existing (listeners_of w))) then Running else Error)"
proof -
  have en: "r_name existing = n"
    using assms(3) by (auto simp: rules_of_def dest: lookup_rule_name)
  have st: "statuses (set_pm pm w) = statuses w"
    using update_proxy_Inr(3) [OF assms(2,5)] by (simp add: fun_eq_iff statuses_set_pm) (simp add: statuses_def)
  have "n \<in> dom (statuses w)" using sys_dom [OF assms(1)] assms(3) by auto
  then have d: "n \<in> dom (statuses (delete_callback existing (set_pm pm w)))" by (simp add: st en)
  from create_callback_statuses [of rule "delete_callback existing (set_pm pm w)"] d assms(4)
  show ?thesis by (simp add: updated_def notify_assign_def)
qed

section \<open>A concrete server\<close>

abbreviation sample_server_params :: "server_env web_params" where
  "sample_server_params \<equiv> server_params (\<lambda>_. False) sample_vec_json sample_serde sample_jwt (\<lambda>_ _. None)"

definition free_ports :: "bool \<Rightarrow> u16 \<Rightarrow> bool" where
  "free_ports udp port = False"

definition sample_server :: "proxy_rule list \<Rightarrow> server_world" where
  "sample_server rules =
     server_boot sample_vec_json no_faults [] free_ports (sample_config ''admin'' ''pw'')
       (map (row_of_rule sample_vec_json) rules)"

lemma sample_server_init:
  "distinct (map r_name rules) \<Longrightarrow> server_init sample_vec_json (sample_server rules)"
  unfolding server_init_def sample_server_def
proof (intro exI conjI)
  show "\<not> no_faults 0" by simp
  show "distinct (map row_name (map (row_of_rule sample_vec_json) rules))"
    if "distinct (map r_name rules)"
    using that by (simp add: comp_def)
qed (rule refl)

lemma sample_server_sys: "distinct (map r_name rules) \<Longrightarrow> sys_inv sample_vec_json (sample_server rules)"
  unfolding sample_server_def by (rule server_boot_sys) (simp_all add: comp_def)

lemma boot_pool: "pool (pm_of (server_boot V F random busy cfg rows)) = rows"
proof -
  have "pool (pm_of (fold start_existing rs w)) = pool (pm_of w)" for rs w
    by (induction rs arbitrary: w) (simp_all add: start_existing_def Let_def split: prod.splits)
  moreover have "pool (pm_of (fold register_existing rs w)) = pool (pm_of w)" for rs w
    by (induction rs arbitrary: w) (simp_all add: register_existing_def)
  ultimately show ?thesis
    by (simp add: server_boot_def start_existing_listeners_def register_existing_domain_routes_def
        Let_def load_from_db_def load_rules app_with_db_def open_manager_def)
qed

lemma sample_server_rules:
  "rules_of sample_vec_json (sample_server rules) n = find (\<lambda>r. r_name r = n) rules"
proof -
  have "find (\<lambda>q. row_name q = n) (map (row_of_rule sample_vec_json) rules) =
      map_option (row_of_rule sample_vec_json) (find (\<lambda>r. r_name r = n) rules)"
    by (induction rules) auto
  then show ?thesis
    by (simp add: rules_of_def lookup_rule_def query_rule_def sample_server_def boot_pool
        option.map_comp comp_def option.map_ident)
qed

section \<open>Properties\<close>

text \<open>
  C1. The server stays consistent: after start-up on any database file and any sequence of API
  calls (with any database faults), logins, session changes, statistics reports and port changes, each taken as one step,
  a TCP or UDP rule is shown as running exactly when its listener runs; a running listener
  belongs to a stored rule of that name and serves its port and client; no listener task is detached
  from the table; and every domain route leads to a stored HTTP or HTTPS rule that lists the domain.
\<close>
theorem server_consistent:
  assumes "vec_json_ok V" and "server_init V w0" and "(server_step U V J jwt bc)\<^sup>*\<^sup>* w0 w"
  shows "(\<forall>n e. get_proxy V False n (pm_of w) = Some e \<longrightarrow> stream_type (r_type (pe_rule e)) \<longrightarrow>
      (pe_status e = Running \<longleftrightarrow> listener_of (listeners_of w) n \<noteq> None)) \<and>
    (\<forall>i t. lm_tasks (listeners_of w) i = Some t \<longrightarrow> stream_kind (lt_kind t) \<longrightarrow>
      (\<exists>r. rules_of V w (lt_name t) = Some r \<and> serves t r)) \<and>
    (\<forall>d r. lm_domain_routes (listeners_of w) d = Some r \<longrightarrow>
      rules_of V w (r_name r) = Some r \<and> \<not> stream_type (r_type r) \<and> d \<in> set (r_custom_domains r))"
proof (intro conjI allI impI)
  have inv: "sys_inv V w"
    using server_run.inv_reachable [of V w0 U J jwt bc w] assms by blast
  then have ok: "sys_ok (rules_of V w) (statuses w) (listeners_of w)" by (simp add: sys_inv_def)
  {
    fix n e assume g: "get_proxy V False n (pm_of w) = Some e" and t: "stream_type (r_type (pe_rule e))"
    have r: "rules_of V w n = Some (pe_rule e)" using g by (auto simp: rules_of_def dest: get_proxy_rule)
    then have "statuses w n = Some (pe_status e)"
      using statuses_entry [OF g] sys_dom [OF inv] by blast
    with ok r t show "pe_status e = Running \<longleftrightarrow> listener_of (listeners_of w) n \<noteq> None"
      unfolding sys_ok_def statuses_exact_def by fastforce
  next
    fix i t assume t: "lm_tasks (listeners_of w) i = Some t" and k: "stream_kind (lt_kind t)"
    have "lm_inv (listeners_of w)" using ok by (simp add: sys_ok_def)
    with t k have "listener_of (listeners_of w) (lt_name t) = Some t"
      by (auto simp: listener_of_def lm_inv_def no_detached_def)
    with ok show "\<exists>r. rules_of V w (lt_name t) = Some r \<and> serves t r"
      unfolding sys_ok_def listeners_sound_def by blast
  next
    fix d r assume "lm_domain_routes (listeners_of w) d = Some r"
    with ok show "rules_of V w (r_name r) = Some r" "\<not> stream_type (r_type r)"
      "d \<in> set (r_custom_domains r)"
      unfolding sys_ok_def routes_sound_def by blast+
  }
qed

theorem server_consistent_witness:
  "\<exists>e. get_proxy sample_vec_json False ''a'' (pm_of (sample_server [sample_rule ''a''])) = Some e \<and>
    (pe_status e = Running \<longleftrightarrow>
       listener_of (listeners_of (sample_server [sample_rule ''a''])) ''a'' \<noteq> None)"
proof -
  let ?w = "sample_server [sample_rule ''a'']"
  have i: "server_init sample_vec_json ?w" by (rule sample_server_init) simp
  have "rules_of sample_vec_json ?w ''a'' = Some (sample_rule ''a'')"
    by (simp add: sample_server_rules) (simp add: sample_rule_def)
  then obtain e where e: "get_proxy sample_vec_json False ''a'' (pm_of ?w) = Some e"
    "pe_rule e = sample_rule ''a''"
    by (auto simp: get_proxy_def query_rule_lookup rules_of_def entry_of_def Let_def)
  then have "stream_type (r_type (pe_rule e))" by (simp add: sample_rule_def)
  with server_consistent [OF sample_vec_json_ok i rtranclp.rtrancl_refl] e show ?thesis by blast
qed

text \<open>
  C3. The HTTP interface refines its specification: without database errors, any sequence of
  create, update and delete calls answers the status codes of the finite-map specification and leaves
  exactly the rules the specification holds, with the callbacks of the server in place.
\<close>
theorem api_refines_spec:
  assumes "vec_json_ok V" and "pm_inv (pm_of w)"
    and "api_run (server_params U V J jwt bc) (map (Pair no_faults) calls) w = (codes, w')"
  shows "api_spec_run U calls (rules_of V w) = (codes, rules_of V w')"
  using server.api_run_spec [OF _ assms(2,3)] assms(1) by simp

theorem api_refines_spec_witness:
  "\<exists>codes w'. api_run sample_server_params
      (map (Pair no_faults) [Delete ''b'', Delete ''a'', Delete ''a'']) (sample_server [sample_rule ''a''])
      = (codes, w') \<and> codes = [404, 200, 404]"
proof -
  let ?w = "sample_server [sample_rule ''a'']"
  let ?calls = "[Delete ''b'', Delete ''a'', Delete ''a'']"
  obtain codes w' where r: "api_run sample_server_params (map (Pair no_faults) ?calls) ?w = (codes, w')"
    by (cases "api_run sample_server_params (map (Pair no_faults) ?calls) ?w")
  have "sys_inv sample_vec_json ?w" by (rule sample_server_sys) simp
  then have "pm_inv (pm_of ?w)" by (simp add: sys_inv_def)
  from api_refines_spec [OF sample_vec_json_ok this r]
  have "codes = [404, 200, 404]"
    by (simp add: sample_server_rules sample_rule_def)
  with r show ?thesis by blast
qed


definition sample_create :: "string \<Rightarrow> string \<Rightarrow> u16 \<Rightarrow> string list \<Rightarrow> create_proxy_request" where
  "sample_create n t port domains =
     \<lparr>cr_name = n, cr_type = t, cr_client_id = ''c1'', cr_local_ip = ''127.0.0.1'', cr_local_port = 80,
      cr_remote_port = port, cr_custom_domains = domains, cr_proxy_protocol = []\<rparr>"

lemma sample_ip: "parse_ip_addr ''127.0.0.1'' = Some (IpV4 [127, 0, 0, 1])"
  by code_simp

lemma sample_create_checks:
  "\<forall>c \<in> set (create_checks U (sample_create ''web'' ''tcp'' 8080 [])). c = Inr ()"
  by (simp add: create_checks_def sample_create_def sample_ip validate_proxy_name_def
      Api.validate_client_id_def chars_ascii ascii_def is_alphanumeric_def ascii_alphanumeric_def)


text \<open>
  A created TCP or UDP rule is answered with the truth: on a consistent server a successful
  creation reports \<^verbatim>\<open>running\<close> if the port could be bound (no other program and no other rule
  holds it) and \<^verbatim>\<open>error\<close> otherwise, and the listener for the rule's port and client runs exactly in the first
  case; the rule is stored in both.
\<close>
theorem create_reports_listener:
  assumes "vec_json_ok V" and "sys_inv V w"
    and "create_proxy (server_params U V J jwt bc) no_faults payload w = (resp, w')"
    and "rsp_code resp = 200" and "api_proxy_type (cr_type payload) = Some t" and "stream_type t"
  shows "rules_of V w' (cr_name payload) = Some (create_rule t payload) \<and>
    map_option pi_status (rsp_data resp) = Some
      (if bind_ok (se_busy (snd w)) (kind_of t) (cr_remote_port payload) (listeners_of w)
       then ''running'' else ''error'') \<and>
    listener_of (listeners_of w') (cr_name payload) =
      (if bind_ok (se_busy (snd w)) (kind_of t) (cr_remote_port payload) (listeners_of w)
       then Some \<lparr>lt_kind = kind_of t, lt_name = cr_name payload, lt_port = cr_remote_port payload,
         lt_client = cr_client_id payload\<rparr> else None)"
proof -
  let ?P = "server_params U V J jwt bc" and ?r = "create_rule t payload" and ?n = "cr_name payload"
  let ?ok = "bind_ok (se_busy (snd w)) (kind_of t) (cr_remote_port payload) (listeners_of w)"
  have rn: "r_name ?r = ?n" "r_type ?r = t" "r_remote_port ?r = cr_remote_port payload"
    "r_client_id ?r = cr_client_id payload"
    by (simp_all add: create_rule_def)
  from assms(3,4) obtain pm where checks: "\<forall>c \<in> set (create_checks U payload). c = Inr ()"
    and add: "add_proxy V False ?r (pm_of w) = (Inr (), pm)" and w': "w' = created ?P ?r pm w"
    and resp: "resp = (case get_proxy V False ?n (pm_of w') of
          Some entry \<Rightarrow> success (info_of_entry entry) | None \<Rightarrow> error_response 500 Lost_After_Create)"
    by (cases rule: create_proxy_cases) (auto simp: assms(5))
  have port: "cr_remote_port payload \<noteq> 0"
    using create_checks_valid(2) [OF checks assms(5)] assms(6) by (simp add: remote_port_ok_def rn)
  have inv': "sys_inv V w'" by (rule create_keeps_sys [OF assms(2,1) add w'])
  note ad = add_proxy_Inr [OF assms(1) add]
  have ok: "sys_ok (rules_of V w) (statuses w) (listeners_of w)"
    using assms(2) by (simp add: sys_inv_def)
  have "rules_of V w ?n = None" using ad(4) by (simp add: rules_of_def rn)
  with ok have cl: "clear ?n (listeners_of w)" by (rule clear_absent)
  have bd: "tasks_bounded (listeners_of w)" using ok by (simp add: sys_ok_def lm_inv_def)
  obtain b lm' where s: "start_stream_listener (kind_of t) (se_busy (snd w)) ?n
      (cr_remote_port payload) (cr_client_id payload) (listeners_of w) = (b, lm')" by fastforce
  note ss = start_stream_simps [OF s bd]
  have start: "start_proxy_listener (se_busy (snd w)) ?r (listeners_of w) = (b, lm')"
    using s assms(6) port
    by (cases t) (simp_all add: start_proxy_listener.simps create_rule_def start_tcp_listener_def
        start_udp_listener_def)
  let ?w1 = "on_pm (update_status ?n Starting) (set_pm pm w)"
  have lw: "listeners_of w' = lm'"
    using start by (simp add: w' created_def notify_assign_def create_callback_listeners rn)
  have rule: "rules_of V w' ?n = Some ?r"
    using ad(1) by (simp add: w' created_def notify_assign_def rn)
  have st: "statuses (set_pm pm w) = (statuses w)(?n \<mapsto> Stopped)"
    by (rule ext) (simp add: statuses_set_pm ad(3) statuses_def runtime_new_def rn)
  then have "?n \<in> dom (statuses ?w1)" by simp
  with create_callback_statuses [of ?r ?w1] start have sw: "statuses w' ?n = Some (if b then Running else Error)"
    by (simp add: w' created_def notify_assign_def rn)
  obtain e where e: "get_proxy V False ?n (pm_of w') = Some e"
    using rule by (auto simp: get_proxy_def query_rule_lookup rules_of_def)
  have "statuses w' ?n = Some (pe_status e)"
    using statuses_entry [OF e] sys_dom [OF inv'] rule by blast
  with sw e resp have "map_option pi_status (rsp_data resp) = Some (if b then ''running'' else ''error'')"
    by (simp add: info_of_entry_def split: if_splits)
  moreover have "listener_of lm' ?n = (if ?ok then Some \<lparr>lt_kind = kind_of t, lt_name = ?n,
      lt_port = cr_remote_port payload, lt_client = cr_client_id payload\<rparr> else None)"
    using ss(1,2,4) cl by (auto simp: clear_def)
  ultimately show ?thesis using rule ss(1) lw by simp
qed

theorem create_reports_listener_witness:
  "\<exists>resp w'. create_proxy sample_server_params no_faults (sample_create ''web'' ''tcp'' 8080 [])
      (sample_server []) = (resp, w') \<and>
    map_option pi_status (rsp_data resp) = Some ''running''"
proof -
  let ?w = "sample_server []" and ?c = "sample_create ''web'' ''tcp'' 8080 []"
  obtain resp w' where e: "create_proxy sample_server_params no_faults ?c ?w = (resp, w')"
    by (cases "create_proxy sample_server_params no_faults ?c ?w")
  have inv: "sys_inv sample_vec_json ?w" by (rule sample_server_sys) simp
  then have pmi: "pm_inv (pm_of ?w)" by (simp add: sys_inv_def)
  have t: "api_proxy_type (cr_type ?c) = Some Tcp" by (simp add: sample_create_def api_proxy_type_def)
  have none: "rules_of sample_vec_json ?w = Map.empty" by (rule ext) (simp add: sample_server_rules)
  have ex: "api_exec sample_server_params no_faults (Create ?c) ?w = (rsp_code resp, w')"
    using e by simp
  have "api_spec (\<lambda>_. False) (Create ?c) Map.empty = (rsp_code resp, rules_of sample_vec_json w')"
    using server.api_exec_spec(1) [OF pmi ex] none by simp
  then have code: "rsp_code resp = 200"
    using sample_create_checks t by simp
  have "bind_ok (se_busy (snd ?w)) (kind_of Tcp) (cr_remote_port ?c) (listeners_of ?w)"
    by (simp add: sample_server_def server_boot_def bind_ok_def free_ports_def port_taken_def Let_def
        start_existing_listeners_def register_existing_domain_routes_def list_proxies_def
        query_all_rules_def app_with_db_def open_manager_def sample_config_def load_from_db_def
        fill_jwt_secret_def listener_manager_new_def set_listeners_def on_pm_def map_pm_def)
  with create_reports_listener [OF sample_vec_json_ok inv e code t] have
    "map_option pi_status (rsp_data resp) = Some ''running''" by simp
  with e show ?thesis by blast
qed

text \<open>
  An update can store what a creation refuses: turning an HTTP rule without a remote port into
  a TCP rule by sending only the type passes all checks (a port is checked only if the
  request carries one), is answered 200, and leaves a TCP rule with remote port 0 that has no listener.
\<close>
theorem update_stores_port_zero:
  assumes "vec_json_ok V" and "sys_inv V w"
    and "rules_of V w n = Some r" and "r_remote_port r = 0"
    and "payload = \<lparr>ur_type = Some ''tcp'', ur_client_id = None, ur_local_ip = None, ur_local_port = None,
      ur_remote_port = None, ur_custom_domains = None, ur_proxy_protocol = None\<rparr>"
    and "api_update_proxy (server_params U V J jwt bc) no_faults n payload w = (resp, w')"
  shows "rsp_code resp = 200 \<and> rules_of V w' n = Some (r\<lparr>r_type := Tcp\<rparr>) \<and>
    statuses w' n = Some Error \<and> listener_of (listeners_of w') n = None"
proof -
  let ?P = "server_params U V J jwt bc" and ?r = "r\<lparr>r_type := Tcp\<rparr>"
  have name: "r_name r = n" using assms(3) by (auto simp: rules_of_def dest: lookup_rule_name)
  have m: "merge_rule n payload r = ?r"
    using name by (cases r) (simp add: merge_rule_def assms(5) unwrap_or_def api_proxy_type_def)
  have pmi: "pm_inv (pm_of w)" using assms(2) by (simp add: sys_inv_def)
  have ex: "api_exec ?P no_faults (Update n payload) w = (rsp_code resp, w')" using assms(6) by simp
  have "api_spec U (Update n payload) (rules_of V w) = (rsp_code resp, rules_of V w')"
    using server.api_exec_spec(1) [OF pmi ex] assms(1) by simp
  moreover have "api_spec U (Update n payload) (rules_of V w) = (200, (rules_of V w)(n \<mapsto> ?r))"
    using assms(3) m by (simp add: update_checks1_def update_checks2_def ball_Un opt_check_def assms(5))
  ultimately have code: "rsp_code resp = 200" and rules: "rules_of V w' n = Some ?r" by simp_all
  have inv': "sys_inv V w'" using api_exec_sys [OF assms(2,1) ex] .
  obtain pm where up: "update_proxy V False n ?r (pm_of w) = (Inr (), pm)"
    and w': "w' = updated ?P r ?r pm w"
  proof -
    obtain ex pm where "rules_of V w n = Some ex"
      "update_proxy V False n (merge_rule n payload ex) (pm_of w) = (Inr (), pm)"
      "w' = updated ?P ex (merge_rule n payload ex) pm w"
      by (rule update_success [OF assms(6) code])
    with assms(3) m that show ?thesis by simp
  qed
  have "\<not> fst (start_proxy_listener (se_busy (snd w)) ?r (stop_proxy_listener r (listeners_of w)))"
    using assms(4) by (simp add: start_proxy_listener.simps)
  then have st: "statuses w' n = Some Error"
    using statuses_updated [OF assms(2,1,3) _ up] name by (simp add: w')
  have "listener_of (listeners_of w') n = None"
    using inv' st rules unfolding sys_inv_def sys_ok_def statuses_exact_def by fastforce
  with code rules st show ?thesis by blast
qed

definition sample_web_rule :: "string \<Rightarrow> string list \<Rightarrow> proxy_rule" where
  "sample_web_rule n domains =
     (sample_rule n)\<lparr>r_type := Http, r_remote_port := 0, r_custom_domains := domains\<rparr>"

lemma sample_rule_name [simp]: "r_name (sample_rule n) = n" "r_name (sample_web_rule n ds) = n"
  "r_type (sample_web_rule n ds) = Http" "r_custom_domains (sample_web_rule n ds) = ds"
  by (simp_all add: sample_rule_def sample_web_rule_def)

theorem update_stores_port_zero_witness:
  "\<exists>resp w'. api_update_proxy sample_server_params no_faults ''web''
      \<lparr>ur_type = Some ''tcp'', ur_client_id = None, ur_local_ip = None, ur_local_port = None,
       ur_remote_port = None, ur_custom_domains = None, ur_proxy_protocol = None\<rparr>
      (sample_server [sample_web_rule ''web'' [''a.org'']]) = (resp, w') \<and>
    statuses w' ''web'' = Some Error"
proof -
  let ?w = "sample_server [sample_web_rule ''web'' [''a.org'']]"
  let ?u = "\<lparr>ur_type = Some ''tcp'', ur_client_id = None, ur_local_ip = None, ur_local_port = None,
       ur_remote_port = None, ur_custom_domains = None, ur_proxy_protocol = None\<rparr>"
  obtain resp w' where e: "api_update_proxy sample_server_params no_faults ''web'' ?u ?w = (resp, w')"
    by (cases "api_update_proxy sample_server_params no_faults ''web'' ?u ?w")
  have inv: "sys_inv sample_vec_json ?w" by (rule sample_server_sys) simp
  have r: "rules_of sample_vec_json ?w ''web'' = Some (sample_web_rule ''web'' [''a.org''])"
    by (simp add: sample_server_rules)
  have "r_remote_port (sample_web_rule ''web'' [''a.org'']) = 0" by (simp add: sample_web_rule_def)
  from update_stores_port_zero [OF sample_vec_json_ok inv r this refl e] e show ?thesis by blast
qed

text \<open>
  Updating a UDP rule while it is in use takes it offline: the packet and session tasks of the
  running listener share its socket and outlive the stopped listener, so the port cannot be bound
  again; the update is answered 200, the rule is stored, and it is left with status error and without
  a listener although nobody else wants the port.
\<close>
theorem udp_update_in_use_fails:
  assumes "vec_json_ok V" and "sys_inv V w"
    and "rules_of V w n = Some r" and "merge_rule n payload r = r'" and "r_type r' = Udp"
    and "se_busy (snd w) True (r_remote_port r')"
    and "api_update_proxy (server_params U V J jwt bc) no_faults n payload w = (resp, w')"
    and "rsp_code resp = 200"
  shows "rules_of V w' n = Some r' \<and> statuses w' n = Some Error \<and>
    listener_of (listeners_of w') n = None"
proof -
  let ?P = "server_params U V J jwt bc"
  have ex: "api_exec ?P no_faults (Update n payload) w = (rsp_code resp, w')" using assms(7) by simp
  have inv': "sys_inv V w'" using api_exec_sys [OF assms(2,1) ex] .
  obtain ex pm where x: "rules_of V w n = Some ex"
    "update_proxy V False n (merge_rule n payload ex) (pm_of w) = (Inr (), pm)"
    "w' = updated ?P ex (merge_rule n payload ex) pm w"
    by (rule update_success [OF assms(7,8)])
  have exr: "ex = r" using x(1) assms(3) by simp
  note up = x(2) [unfolded exr assms(4)] and w' = x(3) [unfolded exr assms(4)]
  have name: "r_name r' = n" by (simp add: assms(4) [symmetric] merge_rule_def)
  have rules: "rules_of V w' n = Some r'"
    using update_proxy_Inr(1) [OF assms(1) up] name
    by (simp add: w' updated_def notify_assign_def)
  have "\<not> fst (start_proxy_listener (se_busy (snd w)) r' (stop_proxy_listener r (listeners_of w)))"
    using assms(5,6)
    by (simp add: start_proxy_listener.simps start_udp_listener_def start_stream_listener_def
        bind_ok_def)
  then have st: "statuses w' n = Some Error"
    using statuses_updated [OF assms(2,1,3) name up] by (simp add: w')
  have "listener_of (listeners_of w') n = None"
    using inv' st rules assms(5) unfolding sys_inv_def sys_ok_def statuses_exact_def by fastforce
  with rules st show ?thesis by blast
qed

definition sample_udp_rule :: "string \<Rightarrow> proxy_rule" where
  "sample_udp_rule n = (sample_rule n)\<lparr>r_type := Udp, r_remote_port := 5300\<rparr>"

text \<open>A new protocol version for the rule, while a session holds the socket of port 5300.\<close>

definition session_holds :: "bool \<Rightarrow> u16 \<Rightarrow> bool" where
  "session_holds udp port \<longleftrightarrow> udp \<and> port = 5300"

theorem udp_update_in_use_fails_witness:
  "\<exists>w resp w'. listener_of (listeners_of w) ''dns'' \<noteq> None \<and>
    api_update_proxy sample_server_params no_faults ''dns''
      \<lparr>ur_type = None, ur_client_id = None, ur_local_ip = None, ur_local_port = None,
       ur_remote_port = None, ur_custom_domains = None, ur_proxy_protocol = Some ''v2''\<rparr> w = (resp, w') \<and>
    statuses w' ''dns'' = Some Error"
proof -
  let ?v = "sample_server [sample_udp_rule ''dns'']" and ?r = "sample_udp_rule ''dns''"
  let ?w = "(fst ?v, (snd ?v)\<lparr>se_busy := session_holds\<rparr>)"
  let ?u = "\<lparr>ur_type = None, ur_client_id = None, ur_local_ip = None, ur_local_port = None,
       ur_remote_port = None, ur_custom_domains = None, ur_proxy_protocol = Some ''v2''\<rparr>"
  obtain resp w' where e: "api_update_proxy sample_server_params no_faults ''dns'' ?u ?w = (resp, w')"
    by (cases "api_update_proxy sample_server_params no_faults ''dns'' ?u ?w")
  have "sys_inv sample_vec_json ?v" by (rule sample_server_sys) simp
  from sys_inv_same [OF this] have inv: "sys_inv sample_vec_json ?w" by simp
  have "rules_of sample_vec_json ?v ''dns'' = Some ?r"
    by (simp add: sample_server_rules) (simp add: sample_udp_rule_def sample_rule_def)
  then have r: "rules_of sample_vec_json ?w ''dns'' = Some ?r" by (simp add: rules_of_def)
  have m: "merge_rule ''dns'' ?u ?r = ?r\<lparr>r_proxy_protocol := ''v2''\<rparr>"
    by (simp add: merge_rule_def unwrap_or_def sample_udp_rule_def sample_rule_def)
  have pmi: "pm_inv (pm_of ?w)" using inv by (simp add: sys_inv_def)
  have ex: "api_exec sample_server_params no_faults (Update ''dns'' ?u) ?w = (rsp_code resp, w')"
    using e by simp
  have "api_spec (\<lambda>_. False) (Update ''dns'' ?u) (rules_of sample_vec_json ?w) =
      (rsp_code resp, rules_of sample_vec_json w')"
    using server.api_exec_spec(1) [OF pmi ex] by simp
  moreover have "fst (api_spec (\<lambda>_. False) (Update ''dns'' ?u) (rules_of sample_vec_json ?w)) = 200"
    using r by (simp add: update_checks1_def update_checks2_def ball_Un opt_check_def
        validate_proxy_protocol_def)
  ultimately have code: "rsp_code resp = 200" by simp
  have "statuses w' ''dns'' = Some Error"
    using udp_update_in_use_fails [OF sample_vec_json_ok inv r m _ _ e code]
    by (simp add: sample_udp_rule_def session_holds_def)
  moreover have "listener_of (listeners_of ?v) ''dns'' \<noteq> None" by code_simp
  then have "listener_of (listeners_of ?w) ''dns'' \<noteq> None" by simp
  ultimately show ?thesis using e by blast
qed

text \<open>
  Two HTTP or HTTPS rules may list the same domain; deleting one of them removes the domain's
  route even when the other still lists it: requests for the domain then find no rule, although
  the other rule is still stored with its status unchanged.
\<close>
theorem delete_unroutes_shared_domain:
  assumes "vec_json_ok V" and "sys_inv V w"
    and "rules_of V w a = Some ra" and "rules_of V w b = Some rb" and "a \<noteq> b"
    and "\<not> stream_type (r_type rb)" and "d \<in> set (r_custom_domains rb)"
    and "delete_proxy (server_params U V J jwt bc) no_faults b w = (resp, w')"
  shows "rsp_code resp = 200 \<and> lm_domain_routes (listeners_of w') d = None \<and>
    rules_of V w' a = Some ra \<and> statuses w' a = statuses w a"
proof -
  let ?P = "server_params U V J jwt bc"
  have pmi: "pm_inv (pm_of w)" using assms(2) by (simp add: sys_inv_def)
  have ex: "api_exec ?P no_faults (Delete b) w = (rsp_code resp, w')" using assms(8) by simp
  have "api_spec U (Delete b) (rules_of V w) = (rsp_code resp, rules_of V w')"
    using server.api_exec_spec(1) [OF pmi ex] assms(1) by simp
  then have code: "rsp_code resp = 200" and rules: "rules_of V w' = (rules_of V w)(b := None)"
    using assms(4) by (simp_all split: if_splits)
  obtain pm where rm: "remove_proxy V False False b (pm_of w) = (Inr rb, pm)"
    and w': "w' = deleted ?P rb pm w"
    using delete_success [OF assms(8) code] assms(4) by auto
  have bn: "r_name rb = b" using assms(4) by (auto simp: rules_of_def dest: lookup_rule_name)
  have "stop_proxy_listener rb (listeners_of w) = unregister_domain_route rb (listeners_of w)"
    using assms(6) by (cases "r_type rb") (simp_all add: stop_proxy_listener.simps)
  then have "lm_domain_routes (listeners_of w') d = None"
    using assms(7) by (simp add: w' deleted_def)
  moreover have "statuses w' a = statuses w a"
    using assms(5) remove_proxy_Inr(3) [OF rm] bn
    by (simp add: w' deleted_def statuses_set_pm) (simp add: statuses_def)
  ultimately show ?thesis using code rules assms(3,5) by simp
qed

theorem delete_unroutes_shared_domain_witness:
  "\<exists>resp w'. delete_proxy sample_server_params no_faults ''b''
      (sample_server [sample_web_rule ''a'' [''x.org''], sample_web_rule ''b'' [''x.org'']]) = (resp, w') \<and>
    rules_of sample_vec_json w' ''a'' = Some (sample_web_rule ''a'' [''x.org'']) \<and>
    lm_domain_routes (listeners_of w') ''x.org'' = None"
proof -
  let ?w = "sample_server [sample_web_rule ''a'' [''x.org''], sample_web_rule ''b'' [''x.org'']]"
  obtain resp w' where e: "delete_proxy sample_server_params no_faults ''b'' ?w = (resp, w')"
    by (cases "delete_proxy sample_server_params no_faults ''b'' ?w")
  have inv: "sys_inv sample_vec_json ?w" by (rule sample_server_sys) simp
  have r: "rules_of sample_vec_json ?w ''a'' = Some (sample_web_rule ''a'' [''x.org''])"
    "rules_of sample_vec_json ?w ''b'' = Some (sample_web_rule ''b'' [''x.org''])"
    by (simp_all add: sample_server_rules)
  from delete_unroutes_shared_domain [OF sample_vec_json_ok inv r _ _ _ e, of "''x.org''"] e
  show ?thesis by simp
qed

text \<open>
  Who hears of an update: the client the rule belongs to afterwards gets exactly the message with the new
  rule, if it is connected; the channel of the client it belonged to before gets nothing, so a
  client that loses a rule is not told to close it.
\<close>
theorem update_notifies_new_client_only:
  assumes "vec_json_ok V" and "serde_roundtrip J"
    and "api_update_proxy (server_params U V J jwt bc) no_faults n payload w = (resp, w')"
    and "rsp_code resp = 200" and "rules_of V w n = Some old" and "new = merge_rule n payload old"
    and "ctrl_to_string J (ServerAssignProxy (assign_of_rule new)) = Some s"
    and "map_of (sm_inner (sessions_of w)) (r_client_id new) = Some ch"
    and "ch \<in> sm_alive (sessions_of w)"
  shows "sm_queue (sessions_of w') ch =
      sm_queue (sessions_of w) ch @ [Control (ServerAssignProxy (assign_of_rule new))] \<and>
    (\<forall>ch'. ch' \<noteq> ch \<longrightarrow> sm_queue (sessions_of w') ch' = sm_queue (sessions_of w) ch')"
proof -
  obtain pm where w': "w' = updated (server_params U V J jwt bc) old new pm w"
    using update_success [OF assms(3,4)] assms(5,6) by auto
  have "sessions_of w' = snd (send_to (r_client_id new)
      (Control (ServerAssignProxy (assign_of_rule new))) (sessions_of w))"
    by (simp add: w' updated_def notify_assign_def notify_sessions [OF assms(2,7)])
  then show ?thesis using assms(8,9) by (simp add: send_to_def chan_send_def)
qed

theorem update_notifies_new_client_only_witness:
  "\<exists>w resp w'. api_update_proxy sample_server_params no_faults ''web''
      \<lparr>ur_type = None, ur_client_id = Some ''c2'', ur_local_ip = None, ur_local_port = None,
       ur_remote_port = None, ur_custom_domains = None, ur_proxy_protocol = None\<rparr> w = (resp, w') \<and>
    map_of (sm_inner (sessions_of w)) ''c1'' = Some 1 \<and>
    sm_queue (sessions_of w') 1 = sm_queue (sessions_of w) 1 \<and>
    sm_queue (sessions_of w') 2 = sm_queue (sessions_of w) 2 @
      [Control (ServerAssignProxy (assign_of_rule ((sample_web_rule ''web'' [])\<lparr>r_client_id := ''c2''\<rparr>)))]"
proof -
  let ?sm = "\<lparr>sm_inner = [(''c1'', 1), (''c2'', 2)], sm_queue = (\<lambda>_. []), sm_alive = {1, 2}\<rparr>"
  let ?base = "sample_server [sample_web_rule ''web'' []]"
  let ?w = "set_sessions ?sm ?base"
  let ?u = "\<lparr>ur_type = None, ur_client_id = Some ''c2'', ur_local_ip = None, ur_local_port = None,
       ur_remote_port = None, ur_custom_domains = None, ur_proxy_protocol = None\<rparr>"
  let ?old = "sample_web_rule ''web'' []" and ?new = "(sample_web_rule ''web'' [])\<lparr>r_client_id := ''c2''\<rparr>"
  obtain resp w' where e: "api_update_proxy sample_server_params no_faults ''web'' ?u ?w = (resp, w')"
    by (cases "api_update_proxy sample_server_params no_faults ''web'' ?u ?w")
  have "sys_inv sample_vec_json ?base" by (rule sample_server_sys) simp
  then have pmi: "pm_inv (pm_of ?w)" by (simp add: sys_inv_def)
  have r: "rules_of sample_vec_json ?w ''web'' = Some ?old" by (simp add: sample_server_rules)
  have m: "?new = merge_rule ''web'' ?u ?old"
    by (simp add: merge_rule_def unwrap_or_def sample_web_rule_def sample_rule_def)
  have ex: "api_exec sample_server_params no_faults (Update ''web'' ?u) ?w = (rsp_code resp, w')"
    using e by simp
  have "Session.valid_client_id (\<lambda>_. False) ''c2'' \<and> validate_client_id (\<lambda>_. False) ''c2'' = Inr ()"
    by (simp add: Session.valid_client_id_def Api.validate_client_id_def chars_ascii ascii_def
        is_alphanumeric_def ascii_alphanumeric_def)
  then have "api_spec (\<lambda>_. False) (Update ''web'' ?u) (rules_of sample_vec_json ?w) =
      (200, (rules_of sample_vec_json ?w)(''web'' \<mapsto> ?new))"
    using r m by (simp add: update_checks1_def update_checks2_def ball_Un opt_check_def)
  then have code: "rsp_code resp = 200"
    using server.api_exec_spec(1) [OF pmi ex] by simp
  have s: "ctrl_to_string sample_serde (ServerAssignProxy (assign_of_rule ?new)) =
      Some (chars_of_bytes (put_ctrl (ServerAssignProxy (assign_of_rule ?new))))"
    by (simp add: sample_serde_def)
  have ch: "map_of (sm_inner (sessions_of ?w)) (r_client_id ?new) = Some 2" "2 \<in> sm_alive (sessions_of ?w)"
    by simp_all
  have "map_of (sm_inner (sessions_of ?w)) ''c1'' = Some 1" by simp
  with update_notifies_new_client_only [OF sample_vec_json_ok sample_serde_roundtrip e code r m s ch] e
  show ?thesis by fastforce
qed

text \<open>
  The two statuses of a deletion are never shown: the handler removes the rule's runtime entry before it
  sets \<^verbatim>\<open>stopping\<close>, so setting this and the callback's \<^verbatim>\<open>stopped\<close> have no effect.
\<close>
theorem delete_statuses_unseen:
  assumes "remove_proxy V f g n pm = (Inr r, pm')"
  shows "update_status n Stopping pm' = pm' \<and> update_status n Stopped pm' = pm'"
  using remove_proxy_Inr(3) [OF assms] by (simp add: update_status_def with_runtime_def)

theorem delete_statuses_unseen_witness:
  "\<exists>pm'. remove_proxy sample_vec_json False False ''a'' (pm_of (sample_server [sample_rule ''a''])) =
     (Inr (sample_rule ''a''), pm') \<and> update_status ''a'' Stopping pm' = pm'"
proof -
  have "lookup_rule sample_vec_json (pm_of (sample_server [sample_rule ''a''])) ''a'' = Some (sample_rule ''a'')"
    using sample_server_rules [of "[sample_rule ''a'']" "''a''"] by (simp add: rules_of_def)
  from remove_proxy_succeeds [OF this] obtain pm' where
    "remove_proxy sample_vec_json False False ''a'' (pm_of (sample_server [sample_rule ''a''])) =
      (Inr (sample_rule ''a''), pm')" by blast
  with delete_statuses_unseen [OF this] show ?thesis by blast
qed

text \<open>
  Connection reports of one connection can arrive in either order, as each is a task of its
  own; in the order they were made they cancel out, but the end before the start leaves the shown count of an
  idle rule at one, because the count cannot go below zero.
\<close>
theorem connection_reports_reordered:
  assumes "runtime pm n = Some rt" and "rs_connections rt = 0"
  shows "runtime (conn_callback n (-1) (conn_callback n 1 pm)) n = Some rt \<and>
    map_option rs_connections (runtime (conn_callback n 1 (conn_callback n (-1) pm)) n) = Some 1"
proof -
  have "saturating_sub 1 1 = 0" "saturating_sub 0 1 = 0" by (simp_all add: saturating_sub_def)
  with assms show ?thesis
    by (simp add: conn_callback_def inc_connections_def dec_connections_def with_runtime_def)
qed

theorem connection_reports_reordered_witness:
  "map_option rs_connections (runtime (conn_callback ''a'' 1 (conn_callback ''a'' (-1)
     \<lparr>pool = [], runtime = [''a'' \<mapsto> runtime_new]\<rparr>)) ''a'') = Some 1"
  using connection_reports_reordered [of "\<lparr>pool = [], runtime = [''a'' \<mapsto> runtime_new]\<rparr>" "''a''" runtime_new]
  by (simp add: runtime_new_def)

end
