(* ===== verification/Work_Conn.thy ===== *)
theory Work_Conn
  imports Session
begin

text \<open>
  \<^verbatim>\<open>crates/server/src/proxy_listener.rs\<close>, second part: matching work connections to
  waiting users. Every accepted user connection and every new UDP source is a task that takes a
  connection id, registers a one-shot sender under it, asks the client for a work connection and
  waits; a work connection that arrives looks its id up. The tasks and the arrivals interleave at the
  granularity of the locked sections and awaits of the code.
\<close>

section \<open>State\<close>

text \<open>
  A work connection is a number, with the id it announced. The two kinds of tasks differ in the order of
  their steps: \<^verbatim>\<open>handle_stream_proxy_conn\<close> registers before it asks the client,
  \<^verbatim>\<open>handle_udp_packet\<close> asks first.
\<close>

datatype task_sort = Stream_Task | Packet_Task

text \<open>
  Where a task stands, with its id: it has taken the id; it is registered and not yet sent; it has sent and is not
  yet registered (UDP only); it waits on the receiver; it was told that the client is offline and
  will remove its entry; its wait ended without a connection and it will remove its entry; it was given a connection; it
  gave up.
\<close>

datatype phase =
    Allocated | Registered | Sent_Unregistered | Waiting | Not_Sent | Wait_Failed
  | Bridged nat | Gave_Up

record conn_task =
  ct_sort :: task_sort
  ct_id :: u64
  ct_phase :: phase
  ct_slot :: "nat option"

text \<open>
  \<open>wk_allocated\<close> counts the ids taken so far; \<^verbatim>\<open>CONN_ID_COUNTER\<close> starts at 1 and is a
  64-bit counter, so the next id is this count plus one modulo \<open>2 ^ 64\<close>. \<open>wk_pending\<close> maps an id to
  the task whose sender is stored under it; \<open>wk_claims\<close> are the ids announced by the connections that arrived.
\<close>

record work_state =
  wk_allocated :: nat
  wk_tasks :: "nat \<Rightarrow> conn_task option"
  wk_pending :: "u64 \<Rightarrow> nat option"
  wk_claims :: "nat \<Rightarrow> u64 option"

definition next_conn_id :: "work_state \<Rightarrow> u64" where
  "next_conn_id s = of_nat (Suc (wk_allocated s))"

definition work_init :: "work_state \<Rightarrow> bool" where
  "work_init s \<longleftrightarrow>
     wk_allocated s = 0 \<and> wk_tasks s = (\<lambda>_. None) \<and> wk_pending s = (\<lambda>_. None) \<and>
     wk_claims s = (\<lambda>_. None)"

section \<open>Steps of a task\<close>

text \<open>\<^verbatim>\<open>CONN_ID_COUNTER.fetch_add(1)\<close> by a new task \<open>k\<close>.\<close>

definition allocate :: "task_sort \<Rightarrow> nat \<Rightarrow> work_state \<Rightarrow> work_state" where
  "allocate srt k s =
     s\<lparr>wk_allocated := Suc (wk_allocated s),
       wk_tasks := (wk_tasks s)(k \<mapsto>
         \<lparr>ct_sort = srt, ct_id = next_conn_id s, ct_phase = Allocated, ct_slot = None\<rparr>)\<rparr>"

definition set_phase :: "nat \<Rightarrow> conn_task \<Rightarrow> phase \<Rightarrow> work_state \<Rightarrow> work_state" where
  "set_phase k t p s = s\<lparr>wk_tasks := (wk_tasks s)(k \<mapsto> t\<lparr>ct_phase := p\<rparr>)\<rparr>"

text \<open>\<^verbatim>\<open>pending.insert(conn_id, tx)\<close> and \<^verbatim>\<open>pending.remove(&conn_id)\<close>.\<close>

definition pending_insert :: "u64 \<Rightarrow> nat \<Rightarrow> work_state \<Rightarrow> work_state" where
  "pending_insert i k s = s\<lparr>wk_pending := (wk_pending s)(i \<mapsto> k)\<rparr>"

definition pending_remove :: "u64 \<Rightarrow> work_state \<Rightarrow> work_state" where
  "pending_remove i s = s\<lparr>wk_pending := (wk_pending s)(i := None)\<rparr>"

text \<open>
  One step of task \<open>t\<close>, number \<open>k\<close>. \<open>sent\<close> is the answer of \<^verbatim>\<open>send_to\<close>, \<open>expired\<close> whether the
  30-second timeout fires; a value already in the one-shot channel is taken first. The sender of a
  waiting task whose entry is gone was dropped, which ends the wait as well.
\<close>

definition task_step :: "bool \<Rightarrow> bool \<Rightarrow> nat \<Rightarrow> conn_task \<Rightarrow> work_state \<Rightarrow> work_state option" where
  "task_step sent expired k t s =
     (case ct_phase t of
        Allocated \<Rightarrow>
          (case ct_sort t of
             Stream_Task \<Rightarrow> Some (pending_insert (ct_id t) k (set_phase k t Registered s))
           | Packet_Task \<Rightarrow> Some (set_phase k t (if sent then Sent_Unregistered else Gave_Up) s))
      | Registered \<Rightarrow> Some (set_phase k t (if sent then Waiting else Not_Sent) s)
      | Sent_Unregistered \<Rightarrow> Some (pending_insert (ct_id t) k (set_phase k t Waiting s))
      | Waiting \<Rightarrow>
          (case ct_slot t of
             Some f \<Rightarrow> Some (set_phase k t (Bridged f) s)
           | None \<Rightarrow>
               if expired \<or> wk_pending s (ct_id t) \<noteq> Some k
               then Some (set_phase k t Wait_Failed s) else None)
      | Not_Sent \<Rightarrow> Some (pending_remove (ct_id t) (set_phase k t Gave_Up s))
      | Wait_Failed \<Rightarrow> Some (pending_remove (ct_id t) (set_phase k t Gave_Up s))
      | Bridged f \<Rightarrow> None
      | Gave_Up \<Rightarrow> None)"

text \<open>The receiver exists until the wait ends or the task gives up.\<close>

fun receiver_alive :: "phase \<Rightarrow> bool" where
  "receiver_alive Registered = True"
| "receiver_alive Waiting = True"
| "receiver_alive Not_Sent = True"
| "receiver_alive _ = False"

text \<open>
  \<^verbatim>\<open>register_work_conn\<close> for connection \<open>f\<close>: the entry is removed, and the connection handed over
  if the receiver still exists.
\<close>

definition register_work_conn :: "u64 \<Rightarrow> nat \<Rightarrow> work_state \<Rightarrow> bool \<times> work_state" where
  "register_work_conn conn_id f s =
     (case wk_pending s conn_id of
        None \<Rightarrow> (False, s)
      | Some k \<Rightarrow>
          let s = pending_remove conn_id s in
          (case wk_tasks s k of
             Some t \<Rightarrow>
               if receiver_alive (ct_phase t)
               then (True, s\<lparr>wk_tasks := (wk_tasks s)(k \<mapsto> t\<lparr>ct_slot := Some f\<rparr>)\<rparr>)
               else (False, s)
           | None \<Rightarrow> (False, s)))"

datatype work_label = W_New nat | W_Task nat | W_Arrive u64 bool

inductive work_step :: "work_label \<Rightarrow> work_state \<Rightarrow> work_state \<Rightarrow> bool" where
  start: "wk_tasks s k = None \<Longrightarrow> work_step (W_New k) s (allocate srt k s)"
| task: "wk_tasks s k = Some t \<Longrightarrow> task_step sent expired k t s = Some s' \<Longrightarrow>
     work_step (W_Task k) s s'"
| arrive: "wk_claims s f = None \<Longrightarrow>
     register_work_conn i f (s\<lparr>wk_claims := (wk_claims s)(f \<mapsto> i)\<rparr>) = (ok, s') \<Longrightarrow>
     work_step (W_Arrive i ok) s s'"

inductive_cases work_stepE [consumes 1, case_names start task arrive]: "work_step l s t"

section \<open>Invariant\<close>

text \<open>Phases in which the task's entry may be in the table.\<close>

definition may_be_pending :: "phase \<Rightarrow> bool" where
  "may_be_pending p \<longleftrightarrow> p = Registered \<or> p = Waiting \<or> p = Not_Sent \<or> p = Wait_Failed"

fun held :: "conn_task \<Rightarrow> nat option" where
  "held t = (case ct_phase t of Bridged f \<Rightarrow> Some f | _ \<Rightarrow> ct_slot t)"

definition ids_distinct :: "work_state \<Rightarrow> bool" where
  "ids_distinct s \<longleftrightarrow>
     (\<forall>k t. wk_tasks s k = Some t \<longrightarrow> 0 < unat (ct_id t) \<and> unat (ct_id t) \<le> wk_allocated s) \<and>
     (\<forall>k k' t t'. wk_tasks s k = Some t \<longrightarrow> wk_tasks s k' = Some t' \<longrightarrow> ct_id t = ct_id t' \<longrightarrow> k = k')"

definition pending_sound :: "work_state \<Rightarrow> bool" where
  "pending_sound s \<longleftrightarrow>
     (\<forall>i k. wk_pending s i = Some k \<longrightarrow>
        (\<exists>t. wk_tasks s k = Some t \<and> ct_id t = i \<and> may_be_pending (ct_phase t) \<and> ct_slot t = None))"

definition waiting_registered :: "work_state \<Rightarrow> bool" where
  "waiting_registered s \<longleftrightarrow>
     (\<forall>k t. wk_tasks s k = Some t \<longrightarrow> receiver_alive (ct_phase t) \<longrightarrow> ct_slot t = None \<longrightarrow>
        wk_pending s (ct_id t) = Some k)"

definition handed_right :: "work_state \<Rightarrow> bool" where
  "handed_right s \<longleftrightarrow>
     (\<forall>k t f. wk_tasks s k = Some t \<longrightarrow> held t = Some f \<longrightarrow> wk_claims s f = Some (ct_id t))"

definition unregistered_empty :: "work_state \<Rightarrow> bool" where
  "unregistered_empty s \<longleftrightarrow>
     (\<forall>k t. wk_tasks s k = Some t \<longrightarrow> ct_phase t = Allocated \<or> ct_phase t = Sent_Unregistered \<longrightarrow>
        ct_slot t = None)"

definition work_ok :: "work_state \<Rightarrow> bool" where
  "work_ok s \<longleftrightarrow>
     ids_distinct s \<and> pending_sound s \<and> waiting_registered s \<and> handed_right s \<and>
     unregistered_empty s"

text \<open>The counter has not wrapped yet: fewer than \<open>2 ^ 64 - 1\<close> connections so far.\<close>

definition work_inv :: "work_state \<Rightarrow> bool" where
  "work_inv s \<longleftrightarrow> (wk_allocated s < 2 ^ 64 - 1 \<longrightarrow> work_ok s)"

lemma next_id_value:
  assumes "Suc (wk_allocated s) < 2 ^ 64"
  shows "unat (next_conn_id s) = Suc (wk_allocated s)"
  using assms by (simp only: next_conn_id_def unat_of_nat) simp

lemma allocate_ok:
  assumes "work_ok s" "wk_tasks s k = None" "wk_allocated s < 2 ^ 64 - 1"
  shows "work_ok (allocate srt k s)"
proof -
  have nid: "unat (next_conn_id s) = Suc (wk_allocated s)"
    using assms(3) by (intro next_id_value) simp
  have fresh: "ct_id t \<noteq> next_conn_id s" if "wk_tasks s j = Some t" for j t
  proof
    assume "ct_id t = next_conn_id s"
    moreover have "unat (ct_id t) \<le> wk_allocated s"
      using assms(1) that unfolding work_ok_def ids_distinct_def by blast
    ultimately show False using nid by simp
  qed
  have "ids_distinct (allocate srt k s)"
    using assms(1) nid fresh unfolding work_ok_def ids_distinct_def allocate_def
    by (auto simp: le_SucI split: if_splits) (metis fresh)+
  moreover have "pending_sound (allocate srt k s)"
    using assms(1,2) unfolding work_ok_def pending_sound_def allocate_def by fastforce
  moreover have "waiting_registered (allocate srt k s)"
    using assms(1) unfolding work_ok_def waiting_registered_def allocate_def by auto
  moreover have "handed_right (allocate srt k s)"
    using assms(1) unfolding work_ok_def handed_right_def allocate_def by auto
  moreover have "unregistered_empty (allocate srt k s)"
    using assms(1) unfolding work_ok_def unregistered_empty_def allocate_def by auto
  ultimately show ?thesis by (simp add: work_ok_def)
qed

text \<open>A task changes its own phase only; its id and connection are untouched.\<close>

lemma task_upd:
  assumes "wk_tasks s k = Some t" "wk_tasks s' = (wk_tasks s)(k \<mapsto> t\<lparr>ct_phase := p\<rparr>)"
    "wk_allocated s' = wk_allocated s" "ids_distinct s"
  shows "ids_distinct s'"
  using assms unfolding ids_distinct_def by (auto split: if_splits)

text \<open>The three ways a task's step treats the table of waiting tasks.\<close>

definition table_ok :: "work_state \<Rightarrow> bool" where
  "table_ok s \<longleftrightarrow> pending_sound s \<and> waiting_registered s"

lemma table_same:
  assumes "work_ok s" "wk_tasks s k = Some t"
    and "wk_tasks s' = (wk_tasks s)(k \<mapsto> t\<lparr>ct_phase := p\<rparr>)" "wk_pending s' = wk_pending s"
    and "wk_pending s (ct_id t) = Some k \<Longrightarrow> may_be_pending p"
    and "receiver_alive p \<Longrightarrow> receiver_alive (ct_phase t)"
  shows "table_ok s'"
proof -
  have pid: "ct_id t = i" if "wk_pending s i = Some k" for i
    using assms(1,2) that unfolding work_ok_def pending_sound_def by fastforce
  have "pending_sound s'"
    unfolding pending_sound_def assms(3,4)
  proof (intro allI impI)
    fix i j assume ij: "wk_pending s i = Some j"
    then obtain u where u: "wk_tasks s j = Some u" "ct_id u = i" "may_be_pending (ct_phase u)"
      "ct_slot u = None"
      using assms(1) unfolding work_ok_def pending_sound_def by blast
    show "\<exists>u. ((wk_tasks s)(k \<mapsto> t\<lparr>ct_phase := p\<rparr>)) j = Some u \<and> ct_id u = i \<and>
        may_be_pending (ct_phase u) \<and> ct_slot u = None"
    proof (cases "j = k")
      case True
      with ij have "ct_id t = i" by (intro pid) simp
      moreover from True u(1) assms(2) have "u = t" by simp
      moreover have "may_be_pending p" by (rule assms(5)) (use ij True \<open>ct_id t = i\<close> in simp)
      ultimately show ?thesis using True u by simp
    qed (use u in simp)
  qed
  moreover have "waiting_registered s'"
    unfolding waiting_registered_def assms(3,4)
  proof (intro allI impI)
    fix j u assume u: "((wk_tasks s)(k \<mapsto> t\<lparr>ct_phase := p\<rparr>)) j = Some u"
      "receiver_alive (ct_phase u)" "ct_slot u = None"
    have wr: "waiting_registered s" using assms(1) by (simp add: work_ok_def)
    show "wk_pending s (ct_id u) = Some j"
    proof (cases "j = k")
      case True
      with u assms(6) have "receiver_alive (ct_phase t)" "ct_slot t = None" "ct_id u = ct_id t" by auto
      with wr assms(2) True show ?thesis unfolding waiting_registered_def by simp
    next
      case False
      with u wr show ?thesis unfolding waiting_registered_def by simp
    qed
  qed
  ultimately show ?thesis by (simp add: table_ok_def)
qed

lemma table_insert:
  assumes "work_ok s" "wk_tasks s k = Some t" "ct_slot t = None"
    and "wk_tasks s' = (wk_tasks s)(k \<mapsto> t\<lparr>ct_phase := p\<rparr>)"
    and "wk_pending s' = (wk_pending s)(ct_id t \<mapsto> k)" and "may_be_pending p"
  shows "table_ok s'"
proof -
  have same: "j = k" if "wk_tasks s j = Some u" "ct_id u = ct_id t" for j u
    using assms(1,2) that unfolding work_ok_def ids_distinct_def by blast
  have "pending_sound s'"
    unfolding pending_sound_def assms(4,5)
  proof (intro allI impI)
    fix i j assume ij: "((wk_pending s)(ct_id t \<mapsto> k)) i = Some j"
    show "\<exists>u. ((wk_tasks s)(k \<mapsto> t\<lparr>ct_phase := p\<rparr>)) j = Some u \<and> ct_id u = i \<and>
        may_be_pending (ct_phase u) \<and> ct_slot u = None"
    proof (cases "i = ct_id t")
      case True
      with ij assms(3,6) show ?thesis by simp
    next
      case False
      with ij obtain u where u: "wk_tasks s j = Some u" "ct_id u = i" "may_be_pending (ct_phase u)"
        "ct_slot u = None"
        using assms(1) unfolding work_ok_def pending_sound_def by auto
      with False assms(2) have "j \<noteq> k" by auto
      with u show ?thesis by simp
    qed
  qed
  moreover have "waiting_registered s'"
    unfolding waiting_registered_def assms(4,5)
  proof (intro allI impI)
    fix j u assume u: "((wk_tasks s)(k \<mapsto> t\<lparr>ct_phase := p\<rparr>)) j = Some u"
      "receiver_alive (ct_phase u)" "ct_slot u = None"
    have wr: "waiting_registered s" using assms(1) by (simp add: work_ok_def)
    show "((wk_pending s)(ct_id t \<mapsto> k)) (ct_id u) = Some j"
    proof (cases "j = k")
      case True
      with u show ?thesis by auto
    next
      case False
      with u wr same show ?thesis unfolding waiting_registered_def by (cases "ct_id u = ct_id t") auto
    qed
  qed
  ultimately show ?thesis by (simp add: table_ok_def)
qed

lemma table_remove:
  assumes "work_ok s" "wk_tasks s k = Some t" "\<not> receiver_alive p"
    and "wk_tasks s' = (wk_tasks s)(k \<mapsto> t\<lparr>ct_phase := p\<rparr>)"
    and "wk_pending s' = (wk_pending s)(ct_id t := None)"
  shows "table_ok s'"
proof -
  have same: "j = k" if "wk_tasks s j = Some u" "ct_id u = ct_id t" for j u
    using assms(1,2) that unfolding work_ok_def ids_distinct_def by blast
  have "pending_sound s'"
    unfolding pending_sound_def assms(4,5)
  proof (intro allI impI)
    fix i j assume ij: "((wk_pending s)(ct_id t := None)) i = Some j"
    then have "wk_pending s i = Some j" and ne: "i \<noteq> ct_id t" by (auto split: if_splits)
    then obtain u where u: "wk_tasks s j = Some u" "ct_id u = i" "may_be_pending (ct_phase u)"
        "ct_slot u = None"
      using assms(1) unfolding work_ok_def pending_sound_def by blast
    with ne assms(2) have "j \<noteq> k" by auto
    with u show "\<exists>u. ((wk_tasks s)(k \<mapsto> t\<lparr>ct_phase := p\<rparr>)) j = Some u \<and> ct_id u = i \<and>
        may_be_pending (ct_phase u) \<and> ct_slot u = None" by simp
  qed
  moreover have "waiting_registered s'"
    unfolding waiting_registered_def assms(4,5)
  proof (intro allI impI)
    fix j u assume u: "((wk_tasks s)(k \<mapsto> t\<lparr>ct_phase := p\<rparr>)) j = Some u"
      "receiver_alive (ct_phase u)" "ct_slot u = None"
    have wr: "waiting_registered s" using assms(1) by (simp add: work_ok_def)
    from u assms(3) have "j \<noteq> k" by auto
    with u have uj: "wk_tasks s j = Some u" by simp
    with same \<open>j \<noteq> k\<close> have "ct_id u \<noteq> ct_id t" by auto
    with uj u wr show "((wk_pending s)(ct_id t := None)) (ct_id u) = Some j"
      unfolding waiting_registered_def by simp
  qed
  ultimately show ?thesis by (simp add: table_ok_def)
qed

lemmas phase_defs = task_step_def set_phase_def pending_insert_def pending_remove_def

lemma task_step_table:
  assumes ok: "work_ok s" and t: "wk_tasks s k = Some t" and st: "task_step sent expired k t s = Some s'"
  shows "table_ok s'"
proof -
  have un: "ct_phase t = Allocated \<or> ct_phase t = Sent_Unregistered \<Longrightarrow> ct_slot t = None"
    using ok t unfolding work_ok_def unregistered_empty_def by blast
  have pend: "wk_pending s (ct_id t) = Some k \<Longrightarrow> may_be_pending (ct_phase t) \<and> ct_slot t = None"
    using ok t unfolding work_ok_def pending_sound_def by fastforce
  show ?thesis
  proof (cases "ct_phase t")
    case Allocated
    show ?thesis
    proof (cases "ct_sort t")
      case Stream_Task
      show ?thesis
        by (rule table_insert [OF ok t un, of _ Registered])
          (use st Allocated Stream_Task in \<open>auto simp: phase_defs may_be_pending_def\<close>)
    next
      case Packet_Task
      show ?thesis
        by (rule table_same [OF ok t, of _ "if sent then Sent_Unregistered else Gave_Up"])
          (use st Allocated Packet_Task pend in
            \<open>auto simp: phase_defs may_be_pending_def split: if_splits\<close>)
    qed
  next
    case Registered
    show ?thesis
      by (rule table_same [OF ok t, of _ "if sent then Waiting else Not_Sent"])
        (use st Registered in \<open>auto simp: phase_defs may_be_pending_def\<close>)
  next
    case Sent_Unregistered
    show ?thesis
      by (rule table_insert [OF ok t un, of _ Waiting])
        (use st Sent_Unregistered in \<open>auto simp: phase_defs may_be_pending_def\<close>)
  next
    case Waiting
    show ?thesis
    proof (cases "ct_slot t")
      case None
      show ?thesis
        by (rule table_same [OF ok t, of _ Wait_Failed])
          (use st Waiting None in \<open>auto simp: phase_defs may_be_pending_def split: if_splits\<close>)
    next
      case (Some f)
      show ?thesis
        by (rule table_same [OF ok t, of _ "Bridged f"])
          (use st Waiting Some pend in \<open>auto simp: phase_defs may_be_pending_def\<close>)
    qed
  next
    case Not_Sent
    show ?thesis
      by (rule table_remove [OF ok t, of Gave_Up]) (use st Not_Sent in \<open>auto simp: phase_defs\<close>)
  next
    case Wait_Failed
    show ?thesis
      by (rule table_remove [OF ok t, of Gave_Up]) (use st Wait_Failed in \<open>auto simp: phase_defs\<close>)
  qed (use st in \<open>auto simp: phase_defs\<close>)
qed

lemma task_step_ok:
  assumes ok: "work_ok s" and t: "wk_tasks s k = Some t" and st: "task_step sent expired k t s = Some s'"
  shows "work_ok s'"
proof -
  obtain p where p: "wk_tasks s' = (wk_tasks s)(k \<mapsto> t\<lparr>ct_phase := p\<rparr>)"
    "wk_allocated s' = wk_allocated s" "wk_claims s' = wk_claims s"
    "held (t\<lparr>ct_phase := p\<rparr>) = held t"
    "p = Allocated \<or> p = Sent_Unregistered \<Longrightarrow> ct_phase t = Allocated"
    by (rule that [of "ct_phase (the (wk_tasks s' k))"])
      (use st in \<open>auto simp: phase_defs split: phase.splits task_sort.splits option.splits if_splits\<close>)
  have "ids_distinct s'" using ok p t by (intro task_upd [OF t p(1,2)]) (simp add: work_ok_def)
  moreover have "handed_right s'"
    using ok t p(4) unfolding work_ok_def handed_right_def p(1,3)
    by (auto simp del: held.simps split: if_splits)
  moreover have "unregistered_empty s'"
    using ok t p(5) unfolding work_ok_def unregistered_empty_def p(1) by (auto split: if_splits)
  ultimately show ?thesis
    using task_step_table [OF assms] by (simp add: work_ok_def table_ok_def)
qed

lemma register_ok:
  assumes ok: "work_ok s" and new: "wk_claims s f = None"
    and reg: "register_work_conn i f (s\<lparr>wk_claims := (wk_claims s)(f \<mapsto> i)\<rparr>) = (b, s')"
  shows "work_ok s'"
proof -
  let ?s = "s\<lparr>wk_claims := (wk_claims s)(f \<mapsto> i)\<rparr>"
  have ok': "work_ok ?s"
    using ok new unfolding work_ok_def
    by (auto simp: ids_distinct_def pending_sound_def waiting_registered_def handed_right_def
        unregistered_empty_def simp del: held.simps)
  show ?thesis
  proof (cases "wk_pending s i")
    case None
    with reg ok' show ?thesis by (simp add: register_work_conn_def)
  next
    case (Some k)
    then obtain t where t: "wk_tasks s k = Some t" "ct_id t = i" "may_be_pending (ct_phase t)"
      "ct_slot t = None"
      using ok unfolding work_ok_def pending_sound_def by blast
    have same: "j = k" if "wk_tasks s j = Some u" "ct_id u = i" for j u
      using ok t that unfolding work_ok_def ids_distinct_def by blast
    have ps: "pending_sound s" and wr: "waiting_registered s" and hr: "handed_right ?s"
      and un: "unregistered_empty s" and ids: "ids_distinct s"
      using ok ok' by (simp_all add: work_ok_def)
    show ?thesis
    proof (cases "receiver_alive (ct_phase t)")
      case True
      let ?t = "t\<lparr>ct_slot := Some f\<rparr>"
      have s': "s' = ?s\<lparr>wk_pending := (wk_pending s)(i := None), wk_tasks := (wk_tasks s)(k \<mapsto> ?t)\<rparr>"
        using reg Some t True by (simp add: register_work_conn_def pending_remove_def Let_def)
      have "ids_distinct s'" using ids t unfolding ids_distinct_def s' by (auto split: if_splits)
      moreover have "pending_sound s'"
        using ps t unfolding pending_sound_def s' by (fastforce split: if_splits)
      moreover have "waiting_registered s'"
        unfolding waiting_registered_def
      proof (intro allI impI)
        fix j u assume u: "wk_tasks s' j = Some u" "receiver_alive (ct_phase u)" "ct_slot u = None"
        have "j \<noteq> k"
        proof
          assume "j = k"
          with u(1) have "u = ?t" by (simp add: s')
          with u(3) show False by simp
        qed
        with u(1) have uj: "wk_tasks s j = Some u" by (simp add: s')
        have "ct_id u \<noteq> i"
        proof
          assume "ct_id u = i"
          with uj have "j = k" by (rule same)
          with \<open>j \<noteq> k\<close> show False by simp
        qed
        with uj u wr show "wk_pending s' (ct_id u) = Some j"
          unfolding waiting_registered_def by (simp add: s')
      qed
      moreover have "handed_right s'"
        unfolding handed_right_def
      proof (intro allI impI)
        fix j u g assume u: "wk_tasks s' j = Some u" "held u = Some g"
        show "wk_claims s' g = Some (ct_id u)"
        proof (cases "j = k")
          case j: True
          with u(1) have ut: "u = ?t" by (simp add: s')
          with u(2) True have "g = f" by (cases "ct_phase t") auto
          with ut t(2) show ?thesis by (simp add: s')
        next
          case False
          with u(1) have "wk_tasks ?s j = Some u" by (simp add: s')
          with u(2) hr have "wk_claims ?s g = Some (ct_id u)" unfolding handed_right_def by blast
          then show ?thesis by (simp add: s')
        qed
      qed
      moreover have "unregistered_empty s'"
        using un t True unfolding unregistered_empty_def s' by (auto split: if_splits)
      ultimately show ?thesis by (simp add: work_ok_def)
    next
      case False
      have s': "s' = ?s\<lparr>wk_pending := (wk_pending s)(i := None)\<rparr>"
        using reg Some t False by (simp add: register_work_conn_def pending_remove_def Let_def)
      have "ids_distinct s'" "unregistered_empty s'"
        using ids un by (simp_all add: s' ids_distinct_def unregistered_empty_def)
      moreover have "handed_right s'" using hr by (simp add: s' handed_right_def)
      moreover have "pending_sound s'"
        using ps unfolding pending_sound_def s' by (auto split: if_splits)
      moreover have "waiting_registered s'"
        unfolding waiting_registered_def
      proof (intro allI impI)
        fix j u assume u: "wk_tasks s' j = Some u" "receiver_alive (ct_phase u)" "ct_slot u = None"
        then have uj: "wk_tasks s j = Some u" by (simp add: s')
        with False t(1) u have "j \<noteq> k" by auto
        with same uj have "ct_id u \<noteq> i" by auto
        with uj u wr show "wk_pending s' (ct_id u) = Some j"
          unfolding waiting_registered_def by (simp add: s')
      qed
      ultimately show ?thesis by (simp add: work_ok_def)
    qed
  qed
qed

lemma work_step_allocated:
  assumes "work_step l s t"
  shows "wk_allocated s \<le> wk_allocated t"
  using assms
proof (cases rule: work_stepE)
  case (task k u sent expired)
  then show ?thesis
    by (auto simp: phase_defs split: phase.splits task_sort.splits option.splits if_splits)
next
  case (arrive f i ok)
  then show ?thesis
    by (auto simp: register_work_conn_def pending_remove_def Let_def split: option.splits if_splits)
qed (simp_all add: allocate_def)

lemma work_inv_step:
  assumes "work_inv s" "work_step l s t"
  shows "work_inv t"
  unfolding work_inv_def
proof
  assume b: "wk_allocated t < 2 ^ 64 - 1"
  then have "wk_allocated s < 2 ^ 64 - 1" using work_step_allocated [OF assms(2)] by simp
  then have ok: "work_ok s" and bs: "wk_allocated s < 2 ^ 64 - 1"
    using assms(1) by (simp_all add: work_inv_def)
  from assms(2) show "work_ok t"
  proof (cases rule: work_stepE)
    case (start k srt)
    with allocate_ok [OF ok _ bs] show ?thesis by simp
  next
    case (task k u sent expired)
    show ?thesis by (rule task_step_ok [OF ok task(2,3)])
  next
    case (arrive f i b)
    show ?thesis by (rule register_ok [OF ok arrive(2,3)])
  qed
qed

interpretation work: transition_system work_init "\<lambda>s t. \<exists>l. work_step l s t" work_inv
proof
  show "work_inv s" if "work_init s" for s
    using that by (simp add: work_init_def work_inv_def work_ok_def ids_distinct_def pending_sound_def
        waiting_registered_def handed_right_def unregistered_empty_def)
  show "work_inv t" if "work_inv s" "\<exists>l. work_step l s t" for s t
    using that work_inv_step by blast
qed

section \<open>The early answer\<close>

definition step_without_arrival :: "u64 \<Rightarrow> work_state \<Rightarrow> work_state \<Rightarrow> bool" where
  "step_without_arrival i s t \<longleftrightarrow> (\<exists>l. (\<forall>ok. l \<noteq> W_Arrive i ok) \<and> work_step l s t)"

definition empty_handed :: "nat \<Rightarrow> u64 \<Rightarrow> work_state \<Rightarrow> bool" where
  "empty_handed k i s \<longleftrightarrow> (\<exists>t. wk_tasks s k = Some t \<and> ct_id t = i \<and> held t = None \<and> ct_slot t = None)"

lemma empty_handed_step:
  assumes "empty_handed k i s" "step_without_arrival i s s'" "work_ok s"
  shows "empty_handed k i s'"
proof -
  from assms(2) obtain l where l: "\<forall>ok. l \<noteq> W_Arrive i ok" and st: "work_step l s s'"
    by (auto simp: step_without_arrival_def)
  from assms(1) obtain t where t: "wk_tasks s k = Some t" "ct_id t = i" "held t = None" "ct_slot t = None"
    by (auto simp: empty_handed_def)
  from st show ?thesis
  proof (cases rule: work_stepE)
    case (start j srt)
    then have "j \<noteq> k" using t(1) by auto
    with start t show ?thesis by (simp add: empty_handed_def allocate_def)
  next
    case (task j u sent expired)
    show ?thesis
    proof (cases "j = k")
      case True
      with task t have "u = t" by simp
      with task True t show ?thesis
        by (auto simp: empty_handed_def phase_defs split: phase.splits task_sort.splits if_splits)
    next
      case False
      have "wk_tasks s' k = wk_tasks s k"
        using task False by (auto simp: phase_defs split: phase.splits task_sort.splits option.splits if_splits)
      with t show ?thesis by (simp add: empty_handed_def)
    qed
  next
    case (arrive f j ok)
    then have ji: "j \<noteq> i" using l by auto
    have "wk_tasks s' k = wk_tasks s k"
    proof (cases "wk_pending s j")
      case None
      with arrive(3) show ?thesis by (auto simp: register_work_conn_def)
    next
      case (Some k')
      then obtain u where "wk_tasks s k' = Some u" "ct_id u = j"
        using assms(3) unfolding work_ok_def pending_sound_def by blast
      with t ji have "k' \<noteq> k" by auto
      with arrive Some show ?thesis
        by (auto simp: register_work_conn_def pending_remove_def Let_def split: option.splits if_splits)
    qed
    with t show ?thesis by (simp add: empty_handed_def)
  qed
qed

lemma empty_handed_steps:
  assumes "(step_without_arrival i)\<^sup>*\<^sup>* s t" "empty_handed k i s" "work_inv s" "wk_allocated t < 2 ^ 64 - 1"
  shows "empty_handed k i t"
proof -
  have "wk_allocated s \<le> wk_allocated t \<and> work_inv t \<and> (wk_allocated t < 2 ^ 64 - 1 \<longrightarrow> empty_handed k i t)"
    using assms(1)
  proof (induction rule: rtranclp_induct)
    case base
    with assms show ?case by simp
  next
    case (step y z)
    then obtain l where st: "work_step l y z" by (auto simp: step_without_arrival_def)
    have a: "wk_allocated y \<le> wk_allocated z" by (rule work_step_allocated [OF st])
    have "empty_handed k i z" if "wk_allocated z < 2 ^ 64 - 1"
    proof (rule empty_handed_step [OF _ step(2)])
      show "empty_handed k i y" "work_ok y"
        using that a step.IH by (simp_all add: work_inv_def)
    qed
    with step.IH a work_inv_step [OF _ st] show ?case by auto
  qed
  with assms(4) show ?thesis by simp
qed

section \<open>Properties\<close>

text \<open>
  C8. Users are never mixed up and nothing is left behind: however acceptances, sends, timeouts and
  arrivals interleave, as long as the 64-bit id counter has not wrapped, a user is bridged only to a work
  connection that announced that user's own id, no work connection serves two users, and every entry of the waiting table
  belongs to a task that is still going to remove it or be served.
\<close>
theorem work_connections_matched:
  assumes "work_init s0" and "(\<lambda>s t. \<exists>l. work_step l s t)\<^sup>*\<^sup>* s0 s" and "wk_allocated s < 2 ^ 64 - 1"
  shows "(\<forall>k t f. wk_tasks s k = Some t \<longrightarrow> ct_phase t = Bridged f \<longrightarrow>
      wk_claims s f = Some (ct_id t) \<and>
      (\<forall>k' t'. wk_tasks s k' = Some t' \<longrightarrow> ct_phase t' = Bridged f \<longrightarrow> k' = k)) \<and>
    (\<forall>i k. wk_pending s i = Some k \<longrightarrow>
      (\<exists>t. wk_tasks s k = Some t \<and> ct_id t = i \<and> ct_phase t \<in> {Registered, Waiting, Not_Sent, Wait_Failed}))"
proof -
  have "work_ok s"
    using work.inv_reachable [OF assms(1,2)] assms(3) by (simp add: work_inv_def)
  then have hr: "handed_right s" and ids: "ids_distinct s" and ps: "pending_sound s"
    by (simp_all add: work_ok_def)
  have claim: "wk_claims s f = Some (ct_id t)" if "wk_tasks s k = Some t" "ct_phase t = Bridged f" for k t f
  proof -
    from that(2) have "held t = Some f" by simp
    with hr that(1) show ?thesis unfolding handed_right_def by blast
  qed
  have "k' = k" if "wk_tasks s k = Some t" "ct_phase t = Bridged f"
    "wk_tasks s k' = Some t'" "ct_phase t' = Bridged f" for k k' t t' f
  proof -
    have "ct_id t' = ct_id t" using claim [OF that(1,2)] claim [OF that(3,4)] by simp
    with ids that(1,3) show ?thesis unfolding ids_distinct_def by blast
  qed
  moreover have "\<exists>t. wk_tasks s k = Some t \<and> ct_id t = i \<and>
      ct_phase t \<in> {Registered, Waiting, Not_Sent, Wait_Failed}" if "wk_pending s i = Some k" for i k
    using ps that unfolding pending_sound_def may_be_pending_def by blast
  ultimately show ?thesis using claim by blast
qed

definition work_start :: work_state where
  "work_start =
     \<lparr>wk_allocated = 0, wk_tasks = (\<lambda>_. None), wk_pending = (\<lambda>_. None), wk_claims = (\<lambda>_. None)\<rparr>"

lemma work_start_init [simp]: "work_init work_start"
  by (simp add: work_init_def work_start_def)

theorem work_connections_matched_witness:
  "\<forall>i k. wk_pending (allocate Stream_Task 7 work_start) i \<noteq> Some k"
proof -
  have "(\<lambda>s t. \<exists>l. work_step l s t)\<^sup>*\<^sup>* work_start (allocate Stream_Task 7 work_start)"
    by (rule r_into_rtranclp, rule exI, rule work_step.start) (simp add: work_start_def)
  from work_connections_matched [OF work_start_init this] show ?thesis
    by (auto simp: allocate_def work_start_def)
qed

text \<open>
  A waiting user is served: in every reachable state, a connection that announces the id of a task
  which is registered and has no connection yet is accepted and handed to exactly this task.
\<close>
theorem registered_task_is_served:
  assumes "work_init s0" and "(\<lambda>s t. \<exists>l. work_step l s t)\<^sup>*\<^sup>* s0 s" and "wk_allocated s < 2 ^ 64 - 1"
    and "wk_tasks s k = Some t" and "ct_phase t = Registered \<or> ct_phase t = Waiting" and "ct_slot t = None"
    and "register_work_conn (ct_id t) f s = (ok, s')"
  shows "ok \<and> wk_tasks s' = (wk_tasks s)(k \<mapsto> t\<lparr>ct_slot := Some f\<rparr>) \<and> wk_pending s' (ct_id t) = None"
proof -
  have "work_ok s"
    using work.inv_reachable [OF assms(1,2)] assms(3) by (simp add: work_inv_def)
  then have "wk_pending s (ct_id t) = Some k"
    using assms(4-6) unfolding work_ok_def waiting_registered_def by (metis receiver_alive.simps(1,2))
  with assms(4-7) show ?thesis
    by (auto simp: register_work_conn_def pending_remove_def Let_def)
qed

definition registered_start :: "task_sort \<Rightarrow> phase \<Rightarrow> work_state" where
  "registered_start srt p =
     \<lparr>wk_allocated = 1,
      wk_tasks = [7 \<mapsto> \<lparr>ct_sort = srt, ct_id = 1, ct_phase = p, ct_slot = None\<rparr>],
      wk_pending = (if p = Registered then [1 \<mapsto> 7] else Map.empty), wk_claims = Map.empty\<rparr>"

lemma registered_start_reachable:
  "(\<lambda>s t. \<exists>l. work_step l s t)\<^sup>*\<^sup>* work_start (registered_start Stream_Task Registered)"
  "(\<lambda>s t. \<exists>l. work_step l s t)\<^sup>*\<^sup>* work_start (registered_start Packet_Task Sent_Unregistered)"
proof -
  have a: "\<exists>l. work_step l work_start (registered_start srt Allocated)" for srt
  proof -
    have "registered_start srt Allocated = allocate srt 7 work_start"
      by (simp add: registered_start_def allocate_def work_start_def next_conn_id_def)
    then show ?thesis using work_step.start [of work_start 7 srt] by (auto simp: work_start_def)
  qed
  have st: "\<exists>l. work_step l (registered_start srt Allocated) (registered_start srt p)"
    if "task_step True False 7 \<lparr>ct_sort = srt, ct_id = 1, ct_phase = Allocated, ct_slot = None\<rparr>
      (registered_start srt Allocated) = Some (registered_start srt p)" for srt p
    using work_step.task [OF _ that] by (auto simp: registered_start_def)
  have "\<exists>l. work_step l (registered_start Stream_Task Allocated) (registered_start Stream_Task Registered)"
    "\<exists>l. work_step l (registered_start Packet_Task Allocated) (registered_start Packet_Task Sent_Unregistered)"
    by (rule st, simp add: registered_start_def phase_defs)+
  with a show "(\<lambda>s t. \<exists>l. work_step l s t)\<^sup>*\<^sup>* work_start (registered_start Stream_Task Registered)"
    "(\<lambda>s t. \<exists>l. work_step l s t)\<^sup>*\<^sup>* work_start (registered_start Packet_Task Sent_Unregistered)"
    by (blast intro: converse_rtranclp_into_rtranclp rtranclp.rtrancl_refl)+
qed

theorem registered_task_is_served_witness:
  "fst (register_work_conn 1 3 (registered_start Stream_Task Registered))"
proof -
  obtain ok s' where r: "register_work_conn 1 3 (registered_start Stream_Task Registered) = (ok, s')"
    by fastforce
  have "wk_tasks (registered_start Stream_Task Registered) 7 =
      Some \<lparr>ct_sort = Stream_Task, ct_id = 1, ct_phase = Registered, ct_slot = None\<rparr>"
    by (simp add: registered_start_def)
  from registered_task_is_served [OF work_start_init registered_start_reachable(1) _ this, of 3 ok s'] r
  show ?thesis by (simp add: registered_start_def)
qed

text \<open>
  A client that answers quickly is not heard on the UDP path: the request is sent before the sender is
  registered, so a work connection that arrives in between finds no entry and is refused, and unless another connection
  announces the same id, the waiting task is never bridged: its first datagram is lost and the source address
  stays blocked until the timeout.
\<close>
theorem udp_early_answer_lost:
  assumes "work_init s0" and "(\<lambda>s t. \<exists>l. work_step l s t)\<^sup>*\<^sup>* s0 s"
    and "wk_tasks s k = Some t" and "ct_phase t = Sent_Unregistered" and "ct_id t = i"
    and "work_step (W_Arrive i ok) s s1" and "(step_without_arrival i)\<^sup>*\<^sup>* s1 s2"
    and "wk_allocated s2 < 2 ^ 64 - 1"
  shows "\<not> ok \<and> (\<exists>t'. wk_tasks s2 k = Some t' \<and> (\<forall>f. ct_phase t' \<noteq> Bridged f))"
proof -
  have inv: "work_inv s" using work.inv_reachable [OF assms(1,2)] .
  have inv1: "work_inv s1" by (rule work_inv_step [OF inv assms(6)])
  have "wk_allocated s1 \<le> wk_allocated s2"
    using assms(7) by (induction rule: rtranclp_induct)
      (auto simp: step_without_arrival_def dest!: work_step_allocated)
  with assms(8) work_step_allocated [OF assms(6)] have "wk_allocated s < 2 ^ 64 - 1" by simp
  with inv have ok: "work_ok s" by (simp add: work_inv_def)
  have none: "wk_pending s i = None"
  proof (rule ccontr)
    assume "wk_pending s i \<noteq> None"
    then obtain j u where "wk_tasks s j = Some u" "ct_id u = i" "may_be_pending (ct_phase u)"
      using ok unfolding work_ok_def pending_sound_def by blast
    moreover from this ok assms(3,5) have "j = k"
      unfolding work_ok_def ids_distinct_def by blast
    ultimately show False using assms(3,4) by (simp add: may_be_pending_def)
  qed
  have slot: "ct_slot t = None"
    using ok assms(3,4) unfolding work_ok_def unregistered_empty_def by blast
  from assms(6) obtain f where
    "register_work_conn i f (s\<lparr>wk_claims := (wk_claims s)(f \<mapsto> i)\<rparr>) = (ok, s1)"
    by (cases rule: work_stepE) auto
  with none have nok: "\<not> ok" and tasks: "wk_tasks s1 = wk_tasks s"
    by (auto simp: register_work_conn_def)
  have "empty_handed k i s1"
    using assms(3-5) slot tasks by (simp add: empty_handed_def)
  from empty_handed_steps [OF assms(7) this inv1 assms(8)]
  obtain t' where t': "wk_tasks s2 k = Some t'" "held t' = None" by (auto simp: empty_handed_def)
  have "ct_phase t' \<noteq> Bridged f" for f using t'(2) by auto
  with nok t'(1) show ?thesis by blast
qed

theorem udp_early_answer_lost_witness:
  "\<exists>s1. work_step (W_Arrive 1 False) (registered_start Packet_Task Sent_Unregistered) s1 \<and>
    (\<exists>t'. wk_tasks s1 7 = Some t' \<and> (\<forall>f. ct_phase t' \<noteq> Bridged f))"
proof -
  define u where "u = registered_start Packet_Task Sent_Unregistered"
  define u1 where "u1 = u\<lparr>wk_claims := (wk_claims u)(3 \<mapsto> 1)\<rparr>"
  have "register_work_conn 1 3 (u\<lparr>wk_claims := (wk_claims u)(3 \<mapsto> 1)\<rparr>) = (False, u1)"
    by (simp add: register_work_conn_def u1_def u_def registered_start_def)
  moreover have "wk_claims u 3 = None" by (simp add: u_def registered_start_def)
  ultimately have a: "work_step (W_Arrive 1 False) u u1" by (intro work_step.arrive)
  have t: "wk_tasks u 7 =
      Some \<lparr>ct_sort = Packet_Task, ct_id = 1, ct_phase = Sent_Unregistered, ct_slot = None\<rparr>"
    by (simp add: u_def registered_start_def)
  have r: "(\<lambda>s t. \<exists>l. work_step l s t)\<^sup>*\<^sup>* work_start u"
    using registered_start_reachable(2) by (simp only: u_def)
  have b: "wk_allocated u1 < 2 ^ 64 - 1" by (simp add: u1_def u_def registered_start_def)
  have "\<not> False \<and> (\<exists>t'. wk_tasks u1 7 = Some t' \<and> (\<forall>f. ct_phase t' \<noteq> Bridged f))"
    by (rule udp_early_answer_lost [OF work_start_init r t _ _ a rtranclp.rtrancl_refl b]) simp_all
  with a show ?thesis unfolding u_def by blast
qed

end
