(* ===== verification/Bridge.thy ===== *)
theory Bridge
  imports Message "HOL-Library.Sublist"
begin

text \<open>
  The four copy loops between a local side (a user's stream or socket, a local service) and a framed
  work connection: \<^verbatim>\<open>bridge_stream_to_framed\<close> and \<^verbatim>\<open>udp_session_worker\<close> of
  \<^verbatim>\<open>crates/server/src/proxy_listener.rs\<close>, \<^verbatim>\<open>bridge_local_tcp_to_framed\<close> and
  \<^verbatim>\<open>bridge_udp_to_framed\<close> of \<^verbatim>\<open>crates/client/src/proxy_worker.rs\<close>. Each is one
  iteration of its \<^verbatim>\<open>select!\<close> as a function; what they share is a locale.
\<close>

section \<open>Events and state\<close>

text \<open>
  What a branch of \<^verbatim>\<open>select!\<close> delivers, together with the result of the operation it
  triggers: a chunk read from the local side (empty at the end of a stream, or for an empty datagram)
  and whether the framed send succeeds; the end of the packet channel; a read error; a message of the work
  connection, with \<open>Some k\<close> if writing it to the local side fails after \<open>k\<close> bytes; a codec error;
  the end of the work connection.
\<close>

datatype bridge_event =
    Local_Read bytes bool
  | Local_End
  | Local_Fail
  | Work_Message message "nat option"
  | Work_Fail
  | Work_End

text \<open>
  What a loop has done: the frames sent, the pieces written to the local side, the two byte counters and
  the traffic reports (server only), and whether it shut the local side and closed the work connection
  in order.
\<close>

record bridge =
  br_work :: "message list"
  br_local :: "bytes list"
  br_in :: u64
  br_out :: u64
  br_traffic :: "(u64 \<times> u64) list"
  br_shutdown :: bool
  br_closed :: bool

definition bridge_start :: bridge where
  "bridge_start =
     \<lparr>br_work = [], br_local = [], br_in = 0, br_out = 0, br_traffic = [], br_shutdown = False,
      br_closed = False\<rparr>"

abbreviation data_frame :: "u64 \<Rightarrow> bytes \<Rightarrow> message" where
  "data_frame cid d \<equiv> Data \<lparr>dm_conn_id = cid, dm_data = d\<rparr>"

definition send_frame :: "u64 \<Rightarrow> bytes \<Rightarrow> bridge \<Rightarrow> bridge" where
  "send_frame cid d b = b\<lparr>br_work := br_work b @ [data_frame cid d]\<rparr>"

definition write_piece :: "bytes \<Rightarrow> bridge \<Rightarrow> bridge" where
  "write_piece d b = b\<lparr>br_local := br_local b @ [d]\<rparr>"

definition count_in :: "bytes \<Rightarrow> bridge \<Rightarrow> bridge" where
  "count_in d b = b\<lparr>br_in := br_in b + of_nat (length d)\<rparr>"

definition count_out :: "bytes \<Rightarrow> bridge \<Rightarrow> bridge" where
  "count_out d b = b\<lparr>br_out := br_out b + of_nat (length d)\<rparr>"

definition report :: "u64 \<Rightarrow> u64 \<Rightarrow> bridge \<Rightarrow> bridge" where
  "report i o' b = b\<lparr>br_traffic := br_traffic b @ [(i, o')]\<rparr>"

lemmas bridge_ops = send_frame_def write_piece_def count_in_def count_out_def report_def

section \<open>The server's loops\<close>

text \<open>
  One iteration of \<^verbatim>\<open>bridge_stream_to_framed\<close>; the second component tells whether the loop
  goes on. A stream has no \<open>Local_End\<close>.
\<close>

fun stream_step :: "u64 \<Rightarrow> bridge_event \<Rightarrow> bridge \<Rightarrow> bridge \<times> bool" where
  "stream_step cid (Local_Read d sent) b =
     (if d = [] then ((if sent then send_frame cid [] b else b)\<lparr>br_closed := True\<rparr>, False)
      else
        let b = count_in d b in
        if sent then (report (of_nat (length d)) 0 (send_frame cid d b), True) else (b, False))"
| "stream_step cid Local_End b = (b, False)"
| "stream_step cid Local_Fail b = (b, False)"
| "stream_step cid (Work_Message (Data m) w) b =
     (if dm_data m = [] then (b\<lparr>br_shutdown := True\<rparr>, False)
      else
        let b = count_out (dm_data m) b in
        case w of
          Some k \<Rightarrow> (write_piece (take k (dm_data m)) b, False)
        | None \<Rightarrow> (report 0 (of_nat (length (dm_data m))) (write_piece (dm_data m) b), True))"
| "stream_step cid (Work_Message (Control c) w) b = (b, True)"
| "stream_step cid Work_Fail b = (b, False)"
| "stream_step cid Work_End b = (b, False)"

text \<open>
  One iteration of \<^verbatim>\<open>udp_session_worker\<close>: the local side is the channel of the user's
  datagrams and the socket they are answered on; a datagram is sent whole or not at all.
\<close>

fun udp_session_step :: "u64 \<Rightarrow> bridge_event \<Rightarrow> bridge \<Rightarrow> bridge \<times> bool" where
  "udp_session_step cid (Local_Read d sent) b =
     (let b = count_in d b in
      if sent then (report (of_nat (length d)) 0 (send_frame cid d b), True) else (b, False))"
| "udp_session_step cid Local_End b = (b, False)"
| "udp_session_step cid Local_Fail b = (b, False)"
| "udp_session_step cid (Work_Message (Data m) w) b =
     (if dm_data m = [] then (b, False)
      else
        let b = count_out (dm_data m) b in
        case w of
          Some k \<Rightarrow> (b, False)
        | None \<Rightarrow> (report 0 (of_nat (length (dm_data m))) (write_piece (dm_data m) b), True))"
| "udp_session_step cid (Work_Message (Control c) w) b = (b, True)"
| "udp_session_step cid Work_Fail b = (b, False)"
| "udp_session_step cid Work_End b = (b, False)"

section \<open>The client's loops\<close>

fun local_tcp_step :: "u64 \<Rightarrow> bridge_event \<Rightarrow> bridge \<Rightarrow> bridge \<times> bool" where
  "local_tcp_step cid (Local_Read d sent) b =
     (if d = [] then ((if sent then send_frame cid [] b else b)\<lparr>br_closed := True\<rparr>, False)
      else if sent then (send_frame cid d b, True) else (b, False))"
| "local_tcp_step cid Local_End b = (b, False)"
| "local_tcp_step cid Local_Fail b = (b, False)"
| "local_tcp_step cid (Work_Message (Data m) w) b =
     (if dm_data m = [] then (b\<lparr>br_shutdown := True\<rparr>, False)
      else
        case w of
          Some k \<Rightarrow> (write_piece (take k (dm_data m)) b, False)
        | None \<Rightarrow> (write_piece (dm_data m) b, True))"
| "local_tcp_step cid (Work_Message (Control c) w) b = (b, True)"
| "local_tcp_step cid Work_Fail b = (b, False)"
| "local_tcp_step cid Work_End b = (b, False)"

fun local_udp_step :: "u64 \<Rightarrow> bridge_event \<Rightarrow> bridge \<Rightarrow> bridge \<times> bool" where
  "local_udp_step cid (Local_Read d sent) b =
     (if sent then (send_frame cid d b, True) else (b, False))"
| "local_udp_step cid Local_End b = (b, False)"
| "local_udp_step cid Local_Fail b = (b, False)"
| "local_udp_step cid (Work_Message (Data m) w) b =
     (if dm_data m = [] then (b, False)
      else
        case w of
          Some k \<Rightarrow> (b, False)
        | None \<Rightarrow> (write_piece (dm_data m) b, True))"
| "local_udp_step cid (Work_Message (Control c) w) b = (b, True)"
| "local_udp_step cid Work_Fail b = (b, False)"
| "local_udp_step cid Work_End b = (b, False)"

text \<open>\<^verbatim>\<open>loop { select! { .. } }\<close> over the events in the order in which they are taken.\<close>

type_synonym bridge_step = "u64 \<Rightarrow> bridge_event \<Rightarrow> bridge \<Rightarrow> bridge \<times> bool"

fun bridge_run :: "bridge_step \<Rightarrow> u64 \<Rightarrow> bridge_event list \<Rightarrow> bridge \<Rightarrow> bridge \<times> bool" where
  "bridge_run step cid [] b = (b, True)"
| "bridge_run step cid (e # es) b =
     (case step cid e b of
        (b', True) \<Rightarrow> bridge_run step cid es b'
      | (b', False) \<Rightarrow> (b', False))"

section \<open>What goes in and what comes out\<close>

fun local_reads :: "bridge_event list \<Rightarrow> bytes list" where
  "local_reads [] = []"
| "local_reads (Local_Read d sent # es) = d # local_reads es"
| "local_reads (_ # es) = local_reads es"

fun work_messages :: "bridge_event list \<Rightarrow> message list" where
  "work_messages [] = []"
| "work_messages (Work_Message m w # es) = m # work_messages es"
| "work_messages (_ # es) = work_messages es"

fun payloads :: "message list \<Rightarrow> bytes list" where
  "payloads [] = []"
| "payloads (Data m # ms) = dm_data m # payloads ms"
| "payloads (Control c # ms) = payloads ms"

lemma payloads_append [simp]: "payloads (xs @ ys) = payloads xs @ payloads ys"
  by (induction xs rule: payloads.induct) simp_all

lemma payloads_frames [simp]: "payloads (map (data_frame cid) ds) = ds"
  by (induction ds) simp_all

lemma prefix_payloads: "prefix xs ys \<Longrightarrow> prefix (payloads xs) (payloads ys)"
  by (auto simp: prefix_def)

lemma prefix_concat: "prefix xs ys \<Longrightarrow> prefix (concat xs) (concat ys)"
  by (auto simp: prefix_def)


lemma local_reads_Cons: "local_reads (e # es) = local_reads [e] @ local_reads es"
  by (cases e) simp_all

lemma work_messages_Cons: "work_messages (e # es) = work_messages [e] @ work_messages es"
  by (cases e) simp_all

lemma local_reads_append: "local_reads (es @ fs) = local_reads es @ local_reads fs"
  by (induction es rule: local_reads.induct) simp_all

lemma work_messages_append: "work_messages (es @ fs) = work_messages es @ work_messages fs"
  by (induction es rule: work_messages.induct) simp_all

text \<open>What the peer of a loop may make of the payloads: everything before the first empty one.\<close>

definition until_close :: "bytes list \<Rightarrow> bytes list" where
  "until_close ds = takeWhile (\<lambda>d. d \<noteq> []) ds"

lemma until_close_append:
  "[] \<notin> set xs \<Longrightarrow> until_close (xs @ ys) = xs @ until_close ys"
  unfolding until_close_def by (rule takeWhile_append2) auto

lemma until_close_all: "[] \<notin> set xs \<Longrightarrow> until_close xs = xs"
  using until_close_append [of xs "[]"] by (simp add: until_close_def)

lemma prefix_until_close: "prefix xs ys \<Longrightarrow> prefix (until_close xs) (until_close ys)"
proof -
  assume "prefix xs ys"
  then obtain zs where "ys = xs @ zs" by (auto simp: prefix_def)
  then show ?thesis
    by (cases "[] \<in> set xs")
      (auto simp: until_close_def takeWhile_append takeWhile_eq_all_conv [THEN iffD2])
qed

lemma until_close_prefix: "prefix (until_close xs) xs"
  by (simp add: until_close_def takeWhile_is_prefix)

section \<open>The contract of a copy loop\<close>

text \<open>
  What an iteration does. If the loop goes on, a chunk that was read has become one frame and a
  message of the work connection, never an empty one, one piece written. If it ends, at most the last
  chunk has become a frame and at most a part of the last message was written.
\<close>

locale copy_loop =
  fixes step :: bridge_step
  assumes on: "step cid e b = (b', True) \<Longrightarrow>
      br_work b' = br_work b @ map (data_frame cid) (local_reads [e]) \<and>
      br_local b' = br_local b @ payloads (work_messages [e]) \<and>
      [] \<notin> set (payloads (work_messages [e]))"
    and off_work: "step cid e b = (b', False) \<Longrightarrow>
      \<exists>ds. br_work b' = br_work b @ map (data_frame cid) ds \<and> prefix ds (local_reads [e])"
    and off_local: "step cid e b = (b', False) \<Longrightarrow>
      \<exists>ps. br_local b' = br_local b @ ps \<and>
        prefix (concat ps) (concat (until_close (payloads (work_messages [e]))))"
begin

lemma run_on:
  "bridge_run step cid es b = (b', True) \<Longrightarrow>
     br_work b' = br_work b @ map (data_frame cid) (local_reads es) \<and>
     br_local b' = br_local b @ payloads (work_messages es) \<and>
     [] \<notin> set (payloads (work_messages es))"
proof (induction es arbitrary: b)
  case Nil
  then show ?case by simp
next
  case (Cons e es)
  obtain b1 c where s: "step cid e b = (b1, c)" by (cases "step cid e b")
  with Cons.prems have c by (cases c) simp_all
  with s have s: "step cid e b = (b1, True)" by simp
  with Cons.prems have "bridge_run step cid es b1 = (b', True)" by simp
  from Cons.IH [OF this] on [OF s] local_reads_Cons [of e es] work_messages_Cons [of e es]
  show ?case by simp
qed

lemma run_work:
  "bridge_run step cid es b = (b', c) \<Longrightarrow>
     \<exists>ds. br_work b' = br_work b @ map (data_frame cid) ds \<and> prefix ds (local_reads es)"
proof (induction es arbitrary: b)
  case Nil
  then show ?case by simp
next
  case (Cons e es)
  obtain b1 d where s: "step cid e b = (b1, d)" by (cases "step cid e b")
  show ?case
  proof (cases d)
    case True
    with s Cons.prems have "bridge_run step cid es b1 = (b', c)" by simp
    from Cons.IH [OF this] obtain ds where ds: "br_work b' = br_work b1 @ map (data_frame cid) ds"
      "prefix ds (local_reads es)" by blast
    have "br_work b' = br_work b @ map (data_frame cid) (local_reads [e] @ ds)"
      using on [of cid e b b1] s True ds(1) by simp
    moreover have "prefix (local_reads [e] @ ds) (local_reads (e # es))"
      unfolding local_reads_Cons [of e es] using ds(2) by simp
    ultimately show ?thesis by blast
  next
    case False
    with s Cons.prems have "step cid e b = (b', False)" by simp
    from off_work [OF this] obtain ds where ds: "br_work b' = br_work b @ map (data_frame cid) ds"
      "prefix ds (local_reads [e])" by blast
    from ds(2) have "prefix ds (local_reads (e # es))"
      unfolding local_reads_Cons [of e es] by (rule prefix_prefix)
    with ds(1) show ?thesis by blast
  qed
qed

lemma run_local:
  "bridge_run step cid es b = (b', c) \<Longrightarrow>
     \<exists>ps. br_local b' = br_local b @ ps \<and>
       prefix (concat ps) (concat (until_close (payloads (work_messages es))))"
proof (induction es arbitrary: b)
  case Nil
  then show ?case by simp
next
  case (Cons e es)
  obtain b1 d where s: "step cid e b = (b1, d)" by (cases "step cid e b")
  show ?case
  proof (cases d)
    case True
    with s Cons.prems have "bridge_run step cid es b1 = (b', c)" by simp
    from Cons.IH [OF this] obtain ps where ps: "br_local b' = br_local b1 @ ps"
      "prefix (concat ps) (concat (until_close (payloads (work_messages es))))" by blast
    let ?p = "payloads (work_messages [e])"
    have o: "br_local b1 = br_local b @ ?p" "[] \<notin> set ?p" using on [of cid e b b1] s True by simp_all
    have "br_local b' = br_local b @ (?p @ ps)" using ps(1) o(1) by simp
    moreover have "prefix (concat (?p @ ps)) (concat (until_close (payloads (work_messages (e # es)))))"
      unfolding work_messages_Cons [of e es] payloads_append until_close_append [OF o(2)]
      using ps(2) by simp
    ultimately show ?thesis by blast
  next
    case False
    with s Cons.prems have "step cid e b = (b', False)" by simp
    from off_local [OF this] obtain ps where ps: "br_local b' = br_local b @ ps"
      "prefix (concat ps) (concat (until_close (payloads (work_messages [e]))))" by blast
    have "prefix (until_close (payloads (work_messages [e]))) (until_close (payloads (work_messages (e # es))))"
      unfolding work_messages_Cons [of e es] payloads_append by (rule prefix_until_close) simp
    with ps(2) have "prefix (concat ps) (concat (until_close (payloads (work_messages (e # es)))))"
      using prefix_concat prefix_order.trans by blast
    with ps(1) show ?thesis by blast
  qed
qed

end


section \<open>The four loops keep it\<close>

lemmas loop_simps = bridge_ops Let_def until_close_def take_is_prefix

lemma close_marker_read [intro]:
  "\<exists>ds. [data_frame cid []] = map (data_frame cid) ds \<and> prefix ds [[]]"
  by (rule exI [of _ "[[]]"]) simp

interpretation stream: copy_loop stream_step
  by (unfold_locales; erule stream_step.elims; auto simp: loop_simps split: if_splits option.splits)

interpretation udp_session: copy_loop udp_session_step
  by (unfold_locales; erule udp_session_step.elims; auto simp: loop_simps split: if_splits option.splits)

interpretation local_tcp: copy_loop local_tcp_step
  by (unfold_locales; erule local_tcp_step.elims; auto simp: loop_simps split: if_splits option.splits)

interpretation local_udp: copy_loop local_udp_step
  by (unfold_locales; erule local_udp_step.elims; auto simp: loop_simps split: if_splits option.splits)


section \<open>Datagrams and counters\<close>

text \<open>The UDP loops write whole datagrams only.\<close>

locale packet_loop = copy_loop +
  assumes off_whole: "step cid e b = (b', False) \<Longrightarrow> br_local b' = br_local b"
begin

lemma run_packets:
  "bridge_run step cid es b = (b', c) \<Longrightarrow>
     \<exists>ps. br_local b' = br_local b @ ps \<and> prefix ps (until_close (payloads (work_messages es)))"
proof (induction es arbitrary: b)
  case Nil
  then show ?case by simp
next
  case (Cons e es)
  obtain b1 d where s: "step cid e b = (b1, d)" by (cases "step cid e b")
  show ?case
  proof (cases d)
    case True
    with s Cons.prems have "bridge_run step cid es b1 = (b', c)" by simp
    from Cons.IH [OF this] obtain ps where ps: "br_local b' = br_local b1 @ ps"
      "prefix ps (until_close (payloads (work_messages es)))" by blast
    let ?p = "payloads (work_messages [e])"
    have o: "br_local b1 = br_local b @ ?p" "[] \<notin> set ?p" using on [of cid e b b1] s True by simp_all
    have "br_local b' = br_local b @ (?p @ ps)" using ps(1) o(1) by simp
    moreover have "prefix (?p @ ps) (until_close (payloads (work_messages (e # es))))"
      unfolding work_messages_Cons [of e es] payloads_append until_close_append [OF o(2)]
      using ps(2) by simp
    ultimately show ?thesis by blast
  next
    case False
    with s Cons.prems have "step cid e b = (b', False)" by simp
    from off_whole [OF this] show ?thesis by (intro exI [of _ "[]"]) simp
  qed
qed

end

interpretation udp_session: packet_loop udp_session_step
  by (unfold_locales; erule udp_session_step.elims; auto simp: loop_simps split: if_splits option.splits)

interpretation local_udp: packet_loop local_udp_step
  by (unfold_locales; erule local_udp_step.elims; auto simp: loop_simps split: if_splits option.splits)

text \<open>The server's loops count and report bytes, modulo \<open>2 ^ 64\<close>.\<close>

definition byte_count :: "bytes list \<Rightarrow> u64" where
  "byte_count ds = of_nat (length (concat ds))"

lemma byte_count_simps [simp]:
  "byte_count [] = 0" "byte_count [d] = of_nat (length d)"
  "byte_count (xs @ ys) = byte_count xs + byte_count ys"
  by (simp_all add: byte_count_def)

definition reported_in :: "bridge \<Rightarrow> u64" where
  "reported_in b = sum_list (map fst (br_traffic b))"

definition reported_out :: "bridge \<Rightarrow> u64" where
  "reported_out b = sum_list (map snd (br_traffic b))"

text \<open>Counters, reports and forwarded bytes agree.\<close>

definition balanced :: "bridge \<Rightarrow> bool" where
  "balanced b \<longleftrightarrow>
     reported_in b = byte_count (payloads (br_work b)) \<and>
     reported_out b = byte_count (br_local b) \<and> br_in b = reported_in b \<and> br_out b = reported_out b"

locale counting_loop = copy_loop +
  assumes on_counts: "step cid e b = (b', True) \<Longrightarrow>
      br_in b' = br_in b + byte_count (local_reads [e]) \<and>
      br_out b' = br_out b + byte_count (payloads (work_messages [e])) \<and>
      reported_in b' = reported_in b + byte_count (local_reads [e]) \<and>
      reported_out b' = reported_out b + byte_count (payloads (work_messages [e]))"
    and off_counts: "step cid e b = (b', False) \<Longrightarrow>
      br_traffic b' = br_traffic b \<and>
      byte_count (payloads (br_work b')) = byte_count (payloads (br_work b))"
begin

lemma balanced_on: "step cid e b = (b', True) \<Longrightarrow> balanced b \<Longrightarrow> balanced b'"
  using on on_counts by (fastforce simp: balanced_def)

lemma run_counts:
  "bridge_run step cid es b = (b', c) \<Longrightarrow> balanced b \<Longrightarrow>
     reported_in b' = byte_count (payloads (br_work b')) \<and> (c \<longrightarrow> balanced b')"
proof (induction es arbitrary: b)
  case Nil
  then show ?case by (simp add: balanced_def)
next
  case (Cons e es)
  obtain b1 d where s: "step cid e b = (b1, d)" by (cases "step cid e b")
  show ?case
  proof (cases d)
    case True
    with s Cons.prems have "bridge_run step cid es b1 = (b', c)" "balanced b1"
      using balanced_on by simp_all
    from Cons.IH [OF this] show ?thesis .
  next
    case False
    with s Cons.prems have "b' = b1" "\<not> c" by simp_all
    with off_counts [of cid e b b1] s False Cons.prems(2) show ?thesis
      by (simp add: balanced_def reported_in_def)
  qed
qed

end

interpretation stream: counting_loop stream_step
  by (unfold_locales; erule stream_step.elims;
      auto simp: loop_simps reported_in_def reported_out_def split: if_splits option.splits)

interpretation udp_session: counting_loop udp_session_step
  by (unfold_locales; erule udp_session_step.elims;
      auto simp: loop_simps reported_in_def reported_out_def split: if_splits option.splits)


lemma balanced_start: "balanced bridge_start"
  by (simp add: balanced_def bridge_start_def reported_in_def reported_out_def)

lemma start_simps [simp]: "br_work bridge_start = []" "br_local bridge_start = []"
  by (simp_all add: bridge_start_def)

text \<open>A loop that goes on over some events goes on from there.\<close>

lemma bridge_run_append:
  "bridge_run step cid (es @ fs) b =
     (case bridge_run step cid es b of
        (b', True) \<Rightarrow> bridge_run step cid fs b'
      | (b', False) \<Rightarrow> (b', False))"
  by (induction es arbitrary: b) (auto split: prod.splits bool.splits)

lemma forwarded_prefix:
  assumes "br_work s = map (data_frame cid) ds" "prefix ds rs" "prefix (work_messages es) (br_work s)"
  shows "prefix (until_close (payloads (work_messages es))) (until_close rs)"
proof -
  have "prefix (payloads (work_messages es)) ds"
    using prefix_payloads [OF assms(3)] assms(1) by simp
  from this assms(2) have "prefix (payloads (work_messages es)) rs" by (rule prefix_order.trans)
  then show ?thesis by (rule prefix_until_close)
qed

lemma until_close_bytes: "prefix (concat (until_close rs)) (concat rs)"
  by (rule prefix_concat [OF until_close_prefix])

section \<open>Properties\<close>

text \<open>
  The tunnel does not invent, reorder or repeat bytes: whatever the order of reads, messages and
  failures on both ends, if each end receives the frames the other has sent in order, then at every moment
  the local service has got a prefix of the bytes the user sent, and the user a prefix of the bytes the
  local service sent.
\<close>
theorem stream_end_to_end:
  assumes "bridge_run stream_step cid es bridge_start = (s, c)"
    and "bridge_run local_tcp_step cid' es' bridge_start = (t, c')"
    and "prefix (work_messages es') (br_work s)" and "prefix (work_messages es) (br_work t)"
  shows "prefix (concat (br_local t)) (concat (local_reads es)) \<and>
    prefix (concat (br_local s)) (concat (local_reads es'))"
proof -
  obtain ds ps where s: "br_work s = map (data_frame cid) ds" "prefix ds (local_reads es)"
    "br_local s = ps" "prefix (concat ps) (concat (until_close (payloads (work_messages es))))"
    using stream.run_work [OF assms(1)] stream.run_local [OF assms(1)] by auto
  obtain ds' ps' where t: "br_work t = map (data_frame cid') ds'" "prefix ds' (local_reads es')"
    "br_local t = ps'" "prefix (concat ps') (concat (until_close (payloads (work_messages es'))))"
    using local_tcp.run_work [OF assms(2)] local_tcp.run_local [OF assms(2)] by auto
  note a = prefix_concat [OF forwarded_prefix [OF s(1,2) assms(3)]]
  note b = prefix_concat [OF forwarded_prefix [OF t(1,2) assms(4)]]
  show ?thesis
    using s(3,4) t(3,4) a b until_close_bytes prefix_order.trans by meson
qed

definition sample_request :: bytes where "sample_request = [71, 69, 84]"

theorem stream_end_to_end_witness:
  "\<exists>t. bridge_run local_tcp_step 5 [Work_Message (data_frame 5 sample_request) (Some 2)] bridge_start
      = (t, False) \<and> prefix (concat (br_local t)) sample_request"
proof -
  let ?es = "[Local_Read sample_request True]"
  let ?es' = "[Work_Message (data_frame 5 sample_request) (Some 2)]"
  obtain s where s: "bridge_run stream_step 5 ?es bridge_start = (s, True)"
    "br_work s = [data_frame 5 sample_request]"
    by (simp add: bridge_ops Let_def sample_request_def)
  obtain t where t: "bridge_run local_tcp_step 5 ?es' bridge_start = (t, False)" "br_work t = []"
    by (simp add: bridge_ops sample_request_def)
  from stream_end_to_end [OF s(1) t(1)] s(2) t show ?thesis by simp
qed

text \<open>
  A user who closes the stream is served to the end: once the server has forwarded everything and
  sent the close marker, a client that could write all it received has handed the local service exactly the
  bytes the user sent, and then shut its side down.
\<close>
theorem stream_close_delivers_all:
  assumes "bridge_run stream_step cid es bridge_start = (s1, True)"
    and "bridge_run stream_step cid (es @ [Local_Read [] True]) bridge_start = (s, c)"
    and "bridge_run local_tcp_step cid' es' bridge_start = (t1, True)"
    and "bridge_run local_tcp_step cid' (es' @ [Work_Message m w]) bridge_start = (t, c')"
    and "work_messages es' @ [m] = br_work s"
  shows "concat (br_local t) = concat (local_reads es) \<and> br_shutdown t \<and> br_closed s"
proof -
  have s: "br_work s = map (data_frame cid) (local_reads es) @ [data_frame cid []]" "br_closed s"
    using assms(2) stream.run_on [OF assms(1)]
    by (auto simp: bridge_run_append assms(1) send_frame_def)
  with assms(5) have m: "m = data_frame cid []"
    and w: "work_messages es' = map (data_frame cid) (local_reads es)" by simp_all
  have "br_local t1 = local_reads es"
    using local_tcp.run_on [OF assms(3)] w by simp
  moreover have "br_local t = br_local t1" "br_shutdown t"
    using assms(4) by (auto simp: bridge_run_append assms(3) m)
  ultimately show ?thesis using s(2) by simp
qed

theorem stream_close_delivers_all_witness:
  "\<exists>t. bridge_run local_tcp_step 5 [Work_Message (data_frame 5 sample_request) None,
      Work_Message (data_frame 5 []) None] bridge_start = (t, False) \<and>
    concat (br_local t) = sample_request \<and> br_shutdown t"
proof -
  let ?es = "[Local_Read sample_request True]"
  let ?es' = "[Work_Message (data_frame 5 sample_request) None]"
  obtain s1 where s1: "bridge_run stream_step 5 ?es bridge_start = (s1, True)"
    by (simp add: sample_request_def)
  obtain s where s: "bridge_run stream_step 5 (?es @ [Local_Read [] True]) bridge_start = (s, False)"
    "br_work s = [data_frame 5 sample_request, data_frame 5 []]"
    by (simp add: bridge_ops Let_def sample_request_def)
  obtain t1 where t1: "bridge_run local_tcp_step 5 ?es' bridge_start = (t1, True)"
    by (simp add: sample_request_def)
  obtain t where t: "bridge_run local_tcp_step 5 (?es' @ [Work_Message (data_frame 5 []) None])
      bridge_start = (t, False)"
    by (simp add: sample_request_def)
  from stream_close_delivers_all [OF s1 s(1) t1 t] s(2) t show ?thesis by simp
qed

text \<open>
  A user who only stops sending loses the answer: the end of the user's stream ends the server's
  loop, so the user gets nothing of what the local service answers afterwards, although the other direction
  of the stream is still open and whatever the work connection still holds.
\<close>
theorem half_close_loses_answer:
  assumes "bridge_run stream_step cid es bridge_start = (s, True)"
  shows "br_local (fst (bridge_run stream_step cid (es @ Local_Read [] sent # es') bridge_start)) =
    payloads (work_messages es)"
  using stream.run_on [OF assms]
  by (simp add: bridge_run_append assms send_frame_def)

theorem half_close_loses_answer_witness:
  "br_local (fst (bridge_run stream_step 5
      [Local_Read sample_request True, Local_Read [] True, Work_Message (data_frame 5 [79, 75]) None]
      bridge_start)) = []"
proof -
  obtain s where s: "bridge_run stream_step 5 [Local_Read sample_request True] bridge_start = (s, True)"
    by (simp add: sample_request_def)
  from half_close_loses_answer [OF s, of True "[Work_Message (data_frame 5 [79, 75]) None]"]
  show ?thesis by simp
qed

text \<open>
  C25. Datagrams keep their boundaries and order, up to an empty one: the local service gets a prefix
  of the user's datagrams, each as it was, and nothing from the first empty datagram on, which travels as the
  close marker and ends the session; in the other direction likewise.
\<close>
theorem udp_end_to_end:
  assumes "bridge_run udp_session_step cid es bridge_start = (s, c)"
    and "bridge_run local_udp_step cid' es' bridge_start = (t, c')"
    and "prefix (work_messages es') (br_work s)" and "prefix (work_messages es) (br_work t)"
  shows "prefix (br_local t) (takeWhile (\<lambda>d. d \<noteq> []) (local_reads es)) \<and>
    prefix (br_local s) (takeWhile (\<lambda>d. d \<noteq> []) (local_reads es'))"
proof -
  obtain ds ps where s: "br_work s = map (data_frame cid) ds" "prefix ds (local_reads es)"
    "br_local s = ps" "prefix ps (until_close (payloads (work_messages es)))"
    using udp_session.run_work [OF assms(1)] udp_session.run_packets [OF assms(1)] by auto
  obtain ds' ps' where t: "br_work t = map (data_frame cid') ds'" "prefix ds' (local_reads es')"
    "br_local t = ps'" "prefix ps' (until_close (payloads (work_messages es')))"
    using local_udp.run_work [OF assms(2)] local_udp.run_packets [OF assms(2)] by auto
  show ?thesis
    using s(3,4) t(3,4) forwarded_prefix [OF s(1,2) assms(3)] forwarded_prefix [OF t(1,2) assms(4)]
      prefix_order.trans unfolding until_close_def by meson
qed

theorem udp_end_to_end_witness:
  "\<exists>s t. bridge_run udp_session_step 5 [Local_Read [1] True, Local_Read [] True, Local_Read [2] True]
      bridge_start = (s, True) \<and>
    bridge_run local_udp_step 5 (map (\<lambda>m. Work_Message m None) (br_work s)) bridge_start = (t, False) \<and>
    prefix (br_local t) [[1]]"
proof -
  let ?es = "[Local_Read [1] True, Local_Read [] True, Local_Read [2] True]"
  obtain s where s: "bridge_run udp_session_step 5 ?es bridge_start = (s, True)"
    "br_work s = [data_frame 5 [1], data_frame 5 [], data_frame 5 [2]]"
    by (simp add: bridge_ops Let_def)
  obtain t where t: "bridge_run local_udp_step 5 (map (\<lambda>m. Work_Message m None) (br_work s)) bridge_start
      = (t, False)"
    by (simp add: s(2))
  from udp_end_to_end [OF s(1) t] s t show ?thesis by simp
qed

text \<open>
  The traffic report is exact: for both loops of the server the reported incoming bytes are those
  of the frames sent to the client, and while the loop runs the reported outgoing bytes are those written to the
  user and the two counters agree with the reports (all modulo \<open>2 ^ 64\<close>).
\<close>
theorem bridge_reports_exact:
  assumes "step = stream_step \<or> step = udp_session_step"
    and "bridge_run step cid es bridge_start = (s, c)"
  shows "sum_list (map fst (br_traffic s)) = of_nat (length (concat (payloads (br_work s)))) \<and>
    (c \<longrightarrow> sum_list (map snd (br_traffic s)) = of_nat (length (concat (br_local s))) \<and>
      br_in s = sum_list (map fst (br_traffic s)) \<and> br_out s = sum_list (map snd (br_traffic s)))"
proof -
  have "reported_in s = byte_count (payloads (br_work s)) \<and> (c \<longrightarrow> balanced s)"
    using assms stream.run_counts [OF _ balanced_start] udp_session.run_counts [OF _ balanced_start]
    by blast
  then show ?thesis by (auto simp: balanced_def reported_in_def reported_out_def byte_count_def)
qed

theorem bridge_reports_exact_witness:
  "\<exists>s. bridge_run stream_step 5 [Local_Read sample_request True, Local_Read [1] False] bridge_start
      = (s, False) \<and> sum_list (map fst (br_traffic s)) = 3"
proof -
  obtain s where s: "bridge_run stream_step 5 [Local_Read sample_request True, Local_Read [1] False]
      bridge_start = (s, False)" "br_work s = [data_frame 5 sample_request]"
    by (simp add: bridge_ops Let_def sample_request_def)
  from bridge_reports_exact [OF _ s(1)] s show ?thesis by (simp add: sample_request_def)
qed

end
