(* ===== verification/Ipv6_Text.thy ===== *)
theory Ipv6_Text
  imports Net_Addr
begin

text \<open>
  The IPv6 text form: what the standard library prints for an IPv6 address it also reads back, with the
  longest run of zero segments compressed and mapped IPv4 addresses in dotted form. The server prints the
  address of a user and the client parses it again.
\<close>

section \<open>Hexadecimal groups\<close>

lemma of_char_hex_digit: "d < 16 \<Longrightarrow> (of_char (hex_digit d) :: nat) = (if d < 10 then 48 + d else 87 + d)"
  by simp

lemma digit_val_hex [simp]: "d < 16 \<Longrightarrow> digit_val 16 (hex_digit d) = Some d"
  by (auto simp: digit_val_def of_char_hex_digit simp del: hex_digit.simps)

lemma hex_digit_plain:
  assumes "d < 16"
  shows "hex_digit d \<noteq> CHR ''.''" "hex_digit d \<noteq> CHR '':''"
proof -
  have "(of_char (hex_digit d) :: nat) \<noteq> of_char (CHR ''.'')"
    "(of_char (hex_digit d) :: nat) \<noteq> of_char (CHR '':'')"
    using assms by (simp_all add: of_char_hex_digit del: hex_digit.simps)
  then show "hex_digit d \<noteq> CHR ''.''" "hex_digit d \<noteq> CHR '':''" by metis+
qed

lemma hex_small: "n < 16 \<Longrightarrow> hex n = [hex_digit n]"
  by (subst hex.simps) simp

lemma hex_big: "\<not> n < 16 \<Longrightarrow> hex n = hex (n div 16) @ [hex_digit (n mod 16)]"
  by (subst hex.simps) simp

declare hex_digit.simps [simp del]

lemma hex_nonempty [simp]: "hex n \<noteq> []"
  by (cases "n < 16") (simp_all add: hex_small hex_big)

lemma hex_plain: "c \<in> set (hex n) \<Longrightarrow> c \<noteq> CHR ''.'' \<and> c \<noteq> CHR '':''"
proof (induction n rule: hex.induct)
  case (1 n)
  show ?case
  proof (cases "n < 16")
    case True
    with 1 show ?thesis by (simp add: hex_small hex_digit_plain)
  next
    case False
    with 1(2) have "c \<in> set (hex (n div 16)) \<or> c = hex_digit (n mod 16)" by (auto simp: hex_big)
    with 1(1) [OF False] hex_digit_plain [of "n mod 16"] show ?thesis by auto
  qed
qed

lemma length_hex_group: "n < 65536 \<Longrightarrow> length (hex n) \<le> 4"
  by (subst hex.simps, subst hex.simps, subst hex.simps, subst hex.simps) simp

text \<open>Where a group stops.\<close>

definition ends_hex :: "string \<Rightarrow> bool" where
  "ends_hex r \<longleftrightarrow> r = [] \<or> digit_val 16 (hd r) = None \<and> hd r \<noteq> CHR ''.''"

lemma ends_hex_simps [simp]: "ends_hex []" "ends_hex (CHR '':'' # r)" "ends_hex (CHR '']'' # r)"
  "ends_hex (CHR '' '' # r)"
  by (simp_all add: ends_hex_def digit_val_def)

lemma read_digits_hex:
  assumes "ends_hex r" and "cnt + length (hex n) \<le> k"
  shows "read_digits 16 (Some k) cnt acc (hex n @ r) =
    Some (cnt + length (hex n), acc * 16 ^ length (hex n) + n, r)"
proof -
  have "read_digits 16 (Some k) cnt acc (hex n @ r) =
      read_digits 16 (Some k) (cnt + length (hex n)) (acc * 16 ^ length (hex n) + n) r"
    if "cnt + length (hex n) \<le> k" for r
    using that
  proof (induction n arbitrary: r rule: hex.induct)
    case (1 n)
    show ?case
    proof (cases "n < 16")
      case True
      then have "hex n = [hex_digit n]" by (subst hex.simps) simp
      with True 1 show ?thesis by (auto simp del: hex_digit.simps)
    next
      case False
      then have d: "hex n = hex (n div 16) @ [hex_digit (n mod 16)]" by (subst hex.simps) simp
      have "read_digits 16 (Some k) cnt acc (hex (n div 16) @ (hex_digit (n mod 16) # r)) =
          read_digits 16 (Some k) (cnt + length (hex (n div 16)))
            (acc * 16 ^ length (hex (n div 16)) + n div 16) (hex_digit (n mod 16) # r)"
        by (rule "1.IH" [OF False]) (use 1(2) d in simp)
      also have "\<dots> = read_digits 16 (Some k) (cnt + length (hex n))
          ((acc * 16 ^ length (hex (n div 16)) + n div 16) * 16 + n mod 16) r"
        using 1(2) d by (simp del: hex_digit.simps)
      also have "(acc * 16 ^ length (hex (n div 16)) + n div 16) * 16 + n mod 16 =
          acc * 16 ^ length (hex n) + n"
        by (simp add: d algebra_simps)
      finally show ?thesis by (simp add: d)
    qed
  qed
  moreover have "read_digits 16 (Some k) c a r = Some (c, a, r)" for c a
    using assms(1) by (cases r) (auto simp: ends_hex_def)
  ultimately show ?thesis using assms(2) by simp
qed

lemma read_group_hex:
  assumes "ends_hex r"
  shows "read_number 16 (Some 4) True 65535 (hex (unat (g :: u16)) @ r) = Some (unat g, r)"
proof -
  have b: "unat g < 65536" using unat_bound [of g] by simp
  then have "length (hex (unat g)) \<le> 4" by (rule length_hex_group)
  with read_digits_hex [OF assms, of 0 "unat g" 4 0] b show ?thesis by (simp add: read_number_def)
qed

section \<open>A group is no IPv4 address\<close>

lemma read_digits_rest:
  "read_digits radix l cnt acc s = Some (c, v, r) \<Longrightarrow>
     r = dropWhile (\<lambda>x. digit_val radix x \<noteq> None) s"
  by (induction s arbitrary: cnt acc) (auto split: option.splits if_splits)

lemma read_octet_rest:
  "read_octet s = Some (v, r) \<Longrightarrow> r = dropWhile (\<lambda>x. digit_val 10 x \<noteq> None) s"
  by (auto simp: read_octet_def read_number_def dest: read_digits_rest split: option.splits if_splits)

lemma no_ipv4:
  assumes "\<forall>c \<in> set g. c \<noteq> CHR ''.''" and "ends_hex r"
  shows "read_ipv4 (g @ r) = None"
proof (rule ccontr)
  assume "read_ipv4 (g @ r) \<noteq> None"
  then obtain v s b s' where o: "read_octet (g @ r) = Some (v, s)"
    and d: "read_separator CHR ''.'' 1 read_octet s = Some (b, s')"
    by (auto simp: read_ipv4_def read_separator_def bind_eq_Some_conv split: prod.splits)
  from d have "s \<noteq> [] \<and> hd s = CHR ''.''"
    by (auto simp: read_separator_def read_given_char_def bind_eq_Some_conv split: list.splits if_splits)
  moreover from o have "s = dropWhile (\<lambda>x. digit_val 10 x \<noteq> None) (g @ r)" by (rule read_octet_rest)
  moreover have "s \<noteq> [] \<Longrightarrow> hd s \<noteq> CHR ''.''"
  proof -
    assume ne: "s \<noteq> []"
    show ?thesis
    proof (cases "\<forall>x \<in> set g. digit_val 10 x \<noteq> None")
      case True
      then have s: "s = dropWhile (\<lambda>x. digit_val 10 x \<noteq> None) r"
        using calculation(2) by (simp add: dropWhile_append2)
      have "digit_val 10 (hd r) = None" if "r \<noteq> []"
        using assms(2) that by (auto simp: ends_hex_def digit_val_def Let_def split: if_splits)
      then have "s = r" using s by (cases r) auto
      with ne assms(2) show ?thesis by (auto simp: ends_hex_def)
    next
      case False
      then obtain x where "x \<in> set g" "digit_val 10 x = None" by blast
      then have "s = dropWhile (\<lambda>x. digit_val 10 x \<noteq> None) g @ r"
        and "dropWhile (\<lambda>x. digit_val 10 x \<noteq> None) g \<noteq> []"
        using calculation(2) by (auto simp: dropWhile_append1)
      then have "hd s \<in> set g" by (metis hd_append2 hd_in_set set_dropWhileD)
      with assms(1) show ?thesis by blast
    qed
  qed
  ultimately show False by blast
qed


section \<open>Lists of groups\<close>

text \<open>Text at which a list of groups ends, before the first group and after one.\<close>

definition no_group :: "string \<Rightarrow> bool" where
  "no_group r \<longleftrightarrow> read_ipv4 r = None \<and> read_number 16 (Some 4) True 65535 r = None"

lemma no_group_ends: "ends_hex r \<Longrightarrow> no_group r"
  using no_ipv4 [of "[]" r]
  by (cases r) (auto simp: no_group_def read_number_def ends_hex_def)

lemma no_group_start: "no_group r \<Longrightarrow> read_groups k 0 r = ([], False, r)"
  by (cases k) (auto simp: no_group_def read_separator_def)

definition stops_groups :: "string \<Rightarrow> bool" where
  "stops_groups r \<longleftrightarrow> (case r of [] \<Rightarrow> True | c # t \<Rightarrow> c \<noteq> CHR '':'' \<or> no_group t)"

lemma stops_groups_read: "stops_groups r \<Longrightarrow> read_groups k (Suc i) r = ([], False, r)"
  by (cases k; cases r)
    (auto simp: stops_groups_def no_group_def read_separator_def read_given_char_def)

lemma stops_groups_simps [simp]:
  "stops_groups []" "stops_groups (CHR '':'' # CHR '':'' # r)" "stops_groups (CHR '']'' # r)"
  "stops_groups (CHR '' '' # r)"
  by (simp_all add: stops_groups_def no_group_ends)

definition lead :: "nat \<Rightarrow> string \<Rightarrow> string" where
  "lead i s = (if i = 0 then s else CHR '':'' # s)"

lemma read_separator_lead [simp]: "read_separator CHR '':'' i f (lead i s) = f s"
  by (simp add: read_separator_def lead_def read_given_char_def)

lemma read_groups_group:
  assumes "ends_hex r"
  shows "read_groups (Suc k) i (lead i (hex (unat g) @ r)) =
    (let (gs, v4, r') = read_groups k (Suc i) r in (g # gs, v4, r'))"
proof -
  have "read_ipv4 (hex (unat g) @ r) = None" using hex_plain by (intro no_ipv4 assms) blast
  then show ?thesis
    by (simp add: read_group_hex [OF assms])
qed

lemma read_groups_show:
  assumes "ends_hex r" "stops_groups r"
  shows "gs \<noteq> [] \<Longrightarrow> length gs \<le> k \<Longrightarrow>
    read_groups k i (lead i (show_segments gs @ r)) = (gs, False, r)"
proof (induction gs arbitrary: k i rule: show_segments.induct)
  case 1
  then show ?case by simp
next
  case (2 x)
  then obtain k' where k: "k = Suc k'" by (cases k) auto
  show ?case
    by (simp add: k read_groups_group [OF assms(1)] stops_groups_read [OF assms(2)]
        del: read_groups.simps)
next
  case (3 x y ys)
  then obtain k' where k: "k = Suc k'" "length (y # ys) \<le> k'" by (cases k) auto
  have "read_groups k' (Suc i) (CHR '':'' # show_segments (y # ys) @ r) = (y # ys, False, r)"
    using 3(1) [of k' "Suc i"] k(2) by (simp add: lead_def)
  then show ?case
    by (simp add: k(1) read_groups_group del: read_groups.simps)
qed

text \<open>The same at the start of an address or after the compressed run, with possibly no group.\<close>

lemma read_groups_show0:
  assumes "ends_hex r" "stops_groups r" "length gs \<le> k"
  shows "read_groups k 0 (show_segments gs @ r) = (gs, False, r)"
proof (cases "gs = []")
  case True
  then show ?thesis using no_group_start [OF no_group_ends [OF assms(1)]] by simp
next
  case False
  then show ?thesis using read_groups_show [OF assms(1,2) False assms(3), of 0] by (simp add: lead_def)
qed

section \<open>The compressed run\<close>

definition zero_run :: "u16 list \<Rightarrow> nat \<times> nat \<Rightarrow> bool" where
  "zero_run segs b \<longleftrightarrow> (\<forall>j. fst b \<le> j \<and> j < fst b + snd b \<longrightarrow> segs ! j = 0)"

lemma longest_zeros_run:
  assumes "longest_zeros i cur best xs = b"
    and "segs = ys @ xs" "length ys = i"
    and "zero_run segs cur" "0 < snd cur \<Longrightarrow> fst cur + snd cur = i"
    and "zero_run segs best" "fst best + snd best \<le> i"
  shows "zero_run segs b \<and> fst b + snd b \<le> length segs"
  using assms
proof (induction i cur best xs arbitrary: ys rule: longest_zeros.induct)
  case (1 i cur best)
  then show ?case by auto
next
  case (2 i cs cl bs bl x xs)
  show ?case
  proof (cases "x = 0")
    case True
    define cur where "cur = (if cl = 0 then i else cs, cl + 1)"
    have at: "segs ! i = 0" using 2(4,5) True by auto
    have cur: "zero_run segs cur" "fst cur + snd cur = i + 1"
      using 2(6,7) at by (auto simp: cur_def zero_run_def less_Suc_eq)
    let ?best = "if snd cur > bl then cur else (bs, bl)"
    have "longest_zeros (i + 1) cur ?best xs = b"
      using 2(3) True by (cases "cl = 0"; cases "bl < Suc cl"; simp add: cur_def Let_def)
    from 2(1) [OF True cur_def refl this, of "ys @ [x]"] cur 2(4,5,8,9)
    show ?thesis by simp
  next
    case False
    from 2(2) [OF False, of "ys @ [x]"] 2(3,4,5,8,9) False show ?thesis by (simp add: zero_run_def)
  qed
qed

lemma zero_run_split:
  assumes "zero_run segs (s, l)" "s + l \<le> length segs"
  shows "segs = take s segs @ replicate l 0 @ drop (s + l) segs"
proof -
  have "take l (drop s segs) = replicate l 0"
    using assms by (intro nth_equalityI) (auto simp: zero_run_def)
  then have "drop s segs = replicate l 0 @ drop (s + l) segs"
    by (metis add.commute append_take_drop_id drop_drop)
  then show ?thesis by (metis append_take_drop_id)
qed

section \<open>Round trip\<close>

lemma join_octets_be [simp]: "join_octets (u16_to_be x ! 0) (u16_to_be x ! 1) = x"
proof -
  have "unat x < 65536" using unat_bound [of x] by simp
  then show ?thesis
    by (simp add: join_octets_def u16_to_be_def numeral_2_eq_2 unat_of_nat)
qed


lemma read_ipv6_compressed:
  assumes "ends_hex r" "stops_groups r" and "length h + length t \<le> 6"
  shows "read_ipv6 (show_segments h @ ''::'' @ show_segments t @ r) =
    Some (h @ replicate (8 - length h - length t) 0 @ t, r)"
proof -
  have "read_groups 8 0 (show_segments h @ CHR '':'' # CHR '':'' # show_segments t @ r) =
      (h, False, CHR '':'' # CHR '':'' # show_segments t @ r)"
    using assms(3) by (intro read_groups_show0) simp_all
  moreover have "read_groups (8 - Suc (length h)) 0 (show_segments t @ r) = (t, False, r)"
    using assms by (intro read_groups_show0) simp_all
  ultimately show ?thesis
    using assms(3) by (simp add: read_ipv6_def read_given_char_def del: read_groups.simps)
qed

lemma ends_hex_dot4: "ends_hex r \<Longrightarrow> stops r"
  by (auto simp: ends_hex_def stops_def digit_val_def Let_def split: if_splits)

lemma read_ipv6_mapped:
  assumes "ends_hex r" "length o4 = 4"
  shows "read_ipv6 (''::ffff:'' @ show_ipv4 o4 @ r) =
    Some ([0, 0, 0, 0, 0, 65535, join_octets (o4 ! 0) (o4 ! 1), join_octets (o4 ! 2) (o4 ! 3)], r)"
proof -
  let ?v = "show_ipv4 o4 @ r"
  have a: "read_groups 8 0 (CHR '':'' # CHR '':'' # s) = ([], False, CHR '':'' # CHR '':'' # s)" for s
    by (intro no_group_start no_group_ends) simp
  have "hex_digit 15 = CHR ''f''" by code_simp
  then have f: "hex 65535 = ''ffff''" by (simp add: hex_big hex_small)
  have z: "replicate 5 (0 :: u16) = [0, 0, 0, 0, 0]" by (simp add: numeral_eq_Suc)
  have g: "read_groups 6 1 (CHR '':'' # ?v) =
      ([join_octets (o4 ! 0) (o4 ! 1), join_octets (o4 ! 2) (o4 ! 3)], True, r)"
    using read_ipv4_show [OF assms(2) ends_hex_dot4 [OF assms(1)]]
    by (simp add: eval_nat_numeral read_separator_def read_given_char_def)
  have "read_groups 7 0 (''ffff'' @ CHR '':'' # ?v) =
      ([65535, join_octets (o4 ! 0) (o4 ! 1), join_octets (o4 ! 2) (o4 ! 3)], True, r)"
    using read_groups_group [of "CHR '':'' # ?v" 6 0 65535] g
    by (simp add: f lead_def del: read_groups.simps)
  then show ?thesis
    using a by (simp add: read_ipv6_def read_given_char_def z del: read_groups.simps)
qed

lemma read_ipv6_show:
  assumes "length segs = 8" "ends_hex r" "stops_groups r"
  shows "read_ipv6 (show_ipv6 segs @ r) = Some (segs, r)"
proof (cases "take 6 segs = [0, 0, 0, 0, 0, 65535]")
  case True
  then obtain x y where segs: "segs = [0, 0, 0, 0, 0, 65535, x, y]"
    using assms(1) by (auto simp: numeral_eq_Suc length_Suc_conv)
  let ?o = "u16_to_be x @ u16_to_be y"
  have "read_ipv6 (''::ffff:'' @ show_ipv4 ?o @ r) =
      Some ([0, 0, 0, 0, 0, 65535, join_octets (?o ! 0) (?o ! 1), join_octets (?o ! 2) (?o ! 3)], r)"
    using assms(2) by (intro read_ipv6_mapped) simp_all
  then show ?thesis
    using join_octets_be [of x] join_octets_be [of y] by (simp add: show_ipv6_def segs nth_append)
next
  case False
  obtain s l where sl: "longest_zeros 0 (0, 0) (0, 0) segs = (s, l)"
    by (cases "longest_zeros 0 (0, 0) (0, 0) segs")
  then have run: "zero_run segs (s, l)" "s + l \<le> length segs"
    using longest_zeros_run [OF sl, of segs "[]"] by (simp_all add: zero_run_def)
  show ?thesis
  proof (cases "1 < l")
    case True
    let ?h = "take s segs" and ?t = "drop (s + l) segs"
    have len: "length ?h = s" "length ?t = 8 - (s + l)" using run(2) assms(1) by simp_all
    then have "8 - length ?h - length ?t = l" using run(2) assms(1) by simp
    moreover have "read_ipv6 (show_segments ?h @ ''::'' @ show_segments ?t @ r) =
        Some (?h @ replicate (8 - length ?h - length ?t) 0 @ ?t, r)"
      using len True run(2) assms by (intro read_ipv6_compressed) simp_all
    ultimately show ?thesis
      using False True sl zero_run_split [OF run] by (simp add: show_ipv6_def)
  next
    case l: False
    have "read_groups 8 0 (show_segments segs @ r) = (segs, False, r)"
      using assms by (intro read_groups_show0) simp_all
    with False l sl assms(1) show ?thesis by (simp add: show_ipv6_def read_ipv6_def del: read_groups.simps)
  qed
qed

text \<open>The address of a peer, printed by the server and parsed by the client, is the same address.\<close>

lemma parse_show_v6:
  assumes "length segs = 8"
  shows "parse_socket_addr (show_socket_addr (SockV6 segs port)) = Some (SockV6 segs port)"
proof -
  have "read_ipv4 (CHR ''['' # s) = None" for s
    by (simp add: read_ipv4_def read_separator_def read_octet_def read_number_def digit_val_def)
  moreover have "read_ipv6 (show_ipv6 segs @ CHR '']'' # s) = Some (segs, CHR '']'' # s)" for s
    using assms by (intro read_ipv6_show) simp_all
  moreover have "read_scope_id (CHR '']'' # s) = CHR '']'' # s" for s
    by (simp add: read_scope_id_def read_given_char_def)
  ultimately show ?thesis
    using read_port_dec [of "[]" port]
    by (simp add: parse_socket_addr_def parse_with_def read_socket_addr_def read_given_char_def)
qed

end
