(* ===== verification/Proxy_Protocol.thy ===== *)
theory Proxy_Protocol
  imports Ipv6_Text
begin

text \<open>
  The PROXY protocol headers of \<^verbatim>\<open>crates/client/src/proxy_worker.rs\<close>: before the first byte of
  the user's stream the client writes the user's address to the local service, as text (version 1) or in
  binary (version 2). The readers of a local service, after the published description of the protocol, are
  the reference the headers are proved against.
\<close>

section \<open>Headers\<close>

datatype inject_error = Bad_User_Addr string | Bad_Version string | Write_Failed

definition crlf :: string where
  "crlf = [CHR 0x0D, CHR 0x0A]"

definition build_proxy_protocol_v1 :: "string option \<Rightarrow> inject_error + bytes" where
  "build_proxy_protocol_v1 user_addr =
     (case user_addr of
        Some addr_str \<Rightarrow>
          (case parse_socket_addr addr_str of
             None \<Rightarrow> Inl (Bad_User_Addr addr_str)
           | Some (SockV4 ip port) \<Rightarrow>
               Inr (as_bytes (''PROXY TCP4 '' @ show_ipv4 ip @ '' 127.0.0.1 '' @ dec (unat port) @
                 '' '' @ dec 0 @ crlf))
           | Some (SockV6 ip port) \<Rightarrow>
               Inr (as_bytes (''PROXY TCP6 '' @ show_ipv6 ip @ '' ::1 '' @ dec (unat port) @
                 '' '' @ dec 0 @ crlf)))
      | None \<Rightarrow> Inr (as_bytes (''PROXY UNKNOWN'' @ crlf)))"

definition SIGNATURE :: bytes where
  "SIGNATURE = [0x0d, 0x0a, 0x0d, 0x0a, 0x00, 0x0d, 0x0a, 0x51, 0x55, 0x49, 0x54, 0x0a]"

definition CMD_PROXY :: u8 where
  "CMD_PROXY = 0x21"

text \<open>\<^verbatim>\<open>Ipv6Addr::octets\<close>.\<close>

definition octets_v6 :: "u16 list \<Rightarrow> bytes" where
  "octets_v6 segs = concat (map u16_to_be segs)"

definition build_proxy_protocol_v2 :: "string option \<Rightarrow> inject_error + bytes" where
  "build_proxy_protocol_v2 user_addr =
     (case user_addr of
        Some addr_str \<Rightarrow>
          (case parse_socket_addr addr_str of
             None \<Rightarrow> Inl (Bad_User_Addr addr_str)
           | Some (SockV4 ip port) \<Rightarrow>
               Inr (SIGNATURE @ [CMD_PROXY] @ [0x11] @ u16_to_be 12 @ ip @ [127, 0, 0, 1] @
                 u16_to_be port @ u16_to_be 0)
           | Some (SockV6 ip port) \<Rightarrow>
               Inr (SIGNATURE @ [CMD_PROXY] @ [0x21] @ u16_to_be 36 @ octets_v6 ip @ replicate 16 0 @
                 u16_to_be port @ u16_to_be 0))
      | None \<Rightarrow> Inr (SIGNATURE @ [0x20] @ [0x00] @ u16_to_be 0))"

text \<open>
  \<^verbatim>\<open>inject_proxy_protocol\<close>: what reaches the local stream, and the result. \<open>Some k\<close> for a write
  that fails after \<open>k\<close> bytes.
\<close>

definition inject_proxy_protocol ::
  "nat option \<Rightarrow> string option \<Rightarrow> string \<Rightarrow> bytes \<times> (inject_error + unit)" where
  "inject_proxy_protocol write user_addr version =
     (case (if version = ''v1'' then build_proxy_protocol_v1 user_addr
            else if version = ''v2'' then build_proxy_protocol_v2 user_addr
            else Inl (Bad_Version version)) of
        Inl e \<Rightarrow> ([], Inl e)
      | Inr header \<Rightarrow>
          (case write of
             None \<Rightarrow> (header, Inr ())
           | Some k \<Rightarrow> (take k header, Inl Write_Failed)))"

section \<open>Reference readers\<close>

text \<open>
  A service that expects a header takes it off the stream and returns the source address (none for
  \<^verbatim>\<open>UNKNOWN\<close> and \<^verbatim>\<open>LOCAL\<close>) and the rest.
\<close>

type_synonym proxy_reader = "bytes \<Rightarrow> (socket_addr option \<times> bytes) option"

definition read_v1_line :: "'a parser \<Rightarrow> ('a \<Rightarrow> u16 \<Rightarrow> socket_addr) \<Rightarrow> string \<Rightarrow>
    (socket_addr option \<times> bytes) option" where
  "read_v1_line addr mk s =
     do { (src, s) \<leftarrow> addr s;
          s \<leftarrow> read_given_char CHR '' '' s;
          (dst, s) \<leftarrow> addr s;
          s \<leftarrow> read_given_char CHR '' '' s;
          (sport, s) \<leftarrow> read_number 10 None True 65535 s;
          s \<leftarrow> read_given_char CHR '' '' s;
          (dport, s) \<leftarrow> read_number 10 None True 65535 s;
          s \<leftarrow> strip_prefix crlf s;
          Some (Some (mk src (of_nat sport)), as_bytes s) }"

definition read_proxy_v1 :: proxy_reader where
  "read_proxy_v1 b =
     (let s = chars_of_bytes b in
      case strip_prefix (''PROXY UNKNOWN'' @ crlf) s of
        Some r \<Rightarrow> Some (None, as_bytes r)
      | None \<Rightarrow>
          (case strip_prefix ''PROXY TCP4 '' s of
             Some s \<Rightarrow> read_v1_line read_ipv4 SockV4 s
           | None \<Rightarrow>
               (case strip_prefix ''PROXY TCP6 '' s of
                  Some s \<Rightarrow> read_v1_line read_ipv6 SockV6 s
                | None \<Rightarrow> None)))"

fun segments :: "bytes \<Rightarrow> u16 list" where
  "segments (a # b # r) = join_octets a b # segments r"
| "segments _ = []"

definition read_proxy_v2 :: proxy_reader where
  "read_proxy_v2 b =
     (let len = be_to_nat (take 2 (drop 14 b)); addr = take len (drop 16 b); r = drop (16 + len) b in
      if length b < 16 + len \<or> take 12 b \<noteq> SIGNATURE \<or> b ! 12 div 16 \<noteq> 2 then None
      else if b ! 12 = 0x21 \<and> b ! 13 = 0x11 \<and> 12 \<le> len then
        Some (Some (SockV4 (take 4 addr) (of_nat (be_to_nat (take 2 (drop 8 addr))))), r)
      else if b ! 12 = 0x21 \<and> b ! 13 = 0x21 \<and> 36 \<le> len then
        Some (Some (SockV6 (segments (take 16 addr)) (of_nat (be_to_nat (take 2 (drop 32 addr))))), r)
      else Some (None, r))"

section \<open>Lemmas\<close>

fun valid_addr :: "socket_addr \<Rightarrow> bool" where
  "valid_addr (SockV4 ip port) \<longleftrightarrow> length ip = 4"
| "valid_addr (SockV6 ip port) \<longleftrightarrow> length ip = 8"

lemma parse_show: "valid_addr a \<Longrightarrow> parse_socket_addr (show_socket_addr a) = Some a"
  by (cases a) (simp_all add: parse_show_v4 parse_show_v6 del: show_socket_addr.simps)

lemma parsed_valid: "parse_socket_addr s = Some a \<Longrightarrow> valid_addr a"
  by (drule read_socket_addr_shape) auto

lemma length_octets_v6: "length (octets_v6 segs) = 2 * length segs"
  by (induction segs) (simp_all add: octets_v6_def)

lemma u16_to_be_two: "\<exists>a b. u16_to_be x = [a, b]"
  using length_u_to_be(1) [of x] by (auto simp: numeral_2_eq_2 length_Suc_conv simp del: length_u_to_be)

lemma segments_octets: "segments (octets_v6 segs) = segs"
proof (induction segs)
  case (Cons x xs)
  obtain a b where "u16_to_be x = [a, b]" using u16_to_be_two by blast
  with join_octets_be [of x] Cons show ?case by (simp add: octets_v6_def)
qed (simp add: octets_v6_def)

lemma stops_space [simp]: "stops (CHR '' '' # r)" "stops (CHR 0x0D # r)"
  by (simp_all add: stops_def digit_val_def)

lemma stops_crlf [simp]: "stops (crlf @ r)"
  by (simp add: crlf_def)

lemma read_decimal:
  assumes "stops r" "n \<le> 65535"
  shows "read_number 10 None True 65535 (dec n @ r) = Some (n, r)"
  using read_digits_dec [OF assms(1), of None 0 n 0] assms(2) dec_nonempty [of n]
  by (simp add: read_number_def del: dec_nonempty)

lemma read_given_Cons [simp]: "read_given_char c (c # s) = Some s"
  by (simp add: read_given_char_def)


lemma read_v1_line_ok:
  assumes "\<And>r. addr (src_text @ CHR '' '' # r) = Some (src, CHR '' '' # r)"
    and "\<And>r. addr (dst_text @ CHR '' '' # r) = Some (dst, CHR '' '' # r)"
  shows "read_v1_line addr mk
      (src_text @ CHR '' '' # dst_text @ CHR '' '' # dec (unat (port :: u16)) @ CHR '' '' # dec 0 @ crlf @ s) =
    Some (Some (mk src port), as_bytes s)"
proof -
  have "unat port \<le> 65535" using unat_bound [of port] by simp
  then show ?thesis
    by (simp add: read_v1_line_def assms read_decimal del: dec_zero)
qed

lemma v4_localhost: "read_ipv4 (''127.0.0.1'' @ CHR '' '' # r) = Some ([127, 0, 0, 1], CHR '' '' # r)"
proof -
  have "show_ipv4 [127, 0, 0, 1] = ''127.0.0.1''" by code_simp
  with read_ipv4_show [of "[127, 0, 0, 1]" "CHR '' '' # r"] show ?thesis by simp
qed

lemma v6_localhost: "read_ipv6 (''::1'' @ CHR '' '' # r) = Some ([0, 0, 0, 0, 0, 0, 0, 1], CHR '' '' # r)"
proof -
  have "show_ipv6 [0, 0, 0, 0, 0, 0, 0, 1] = ''::1''" by code_simp
  with read_ipv6_show [of "[0, 0, 0, 0, 0, 0, 0, 1]" "CHR '' '' # r"] show ?thesis by simp
qed

lemma read_v1_v4:
  "length ip = 4 \<Longrightarrow> read_v1_line read_ipv4 SockV4
      (show_ipv4 ip @ '' 127.0.0.1 '' @ dec (unat port) @ '' '' @ dec 0 @ crlf @ s) =
    Some (Some (SockV4 ip port), as_bytes s)"
  using read_v1_line_ok [OF read_ipv4_show v4_localhost, of ip SockV4 port s] by simp

lemma read_v1_v6:
  "length ip = 8 \<Longrightarrow> read_v1_line read_ipv6 SockV6
      (show_ipv6 ip @ '' ::1 '' @ dec (unat port) @ '' '' @ dec 0 @ crlf @ s) =
    Some (Some (SockV6 ip port), as_bytes s)"
  using read_v1_line_ok [OF read_ipv6_show v6_localhost, of ip SockV6 port s] by simp

lemma read_proxy_v1_tcp:
  "read_proxy_v1 (as_bytes (''PROXY TCP4 '' @ t)) = read_v1_line read_ipv4 SockV4 t"
  "read_proxy_v1 (as_bytes (''PROXY TCP6 '' @ t)) = read_v1_line read_ipv6 SockV6 t"
  by (simp_all add: read_proxy_v1_def strip_prefix_def crlf_def del: as_bytes_append)

lemma read_proxy_v1_then:
  "read_proxy_v1 (as_bytes t @ s) = read_proxy_v1 (as_bytes (t @ chars_of_bytes s))"
  by simp

lemma v1_header_read:
  assumes "valid_addr a"
  shows "\<exists>h. build_proxy_protocol_v1 (Some (show_socket_addr a)) = Inr h \<and>
    read_proxy_v1 (h @ s) = Some (Some a, s)"
proof -
  show ?thesis
  proof (cases a)
    case (SockV4 ip port)
    let ?t = "show_ipv4 ip @ '' 127.0.0.1 '' @ dec (unat port) @ '' '' @ dec 0 @ crlf"
    have "build_proxy_protocol_v1 (Some (show_socket_addr a)) = Inr (as_bytes (''PROXY TCP4 '' @ ?t))"
      using SockV4 parse_show [OF assms] by (simp add: build_proxy_protocol_v1_def)
    moreover have "read_proxy_v1 (as_bytes (''PROXY TCP4 '' @ ?t) @ s) = Some (Some a, s)"
      using assms SockV4 read_v1_v4 [of ip port "chars_of_bytes s"]
      unfolding read_proxy_v1_then append_assoc read_proxy_v1_tcp by (simp del: dec_zero)
    ultimately show ?thesis by blast
  next
    case (SockV6 ip port)
    let ?t = "show_ipv6 ip @ '' ::1 '' @ dec (unat port) @ '' '' @ dec 0 @ crlf"
    have "build_proxy_protocol_v1 (Some (show_socket_addr a)) = Inr (as_bytes (''PROXY TCP6 '' @ ?t))"
      using SockV6 parse_show [OF assms] by (simp add: build_proxy_protocol_v1_def)
    moreover have "read_proxy_v1 (as_bytes (''PROXY TCP6 '' @ ?t) @ s) = Some (Some a, s)"
      using assms SockV6 read_v1_v6 [of ip port "chars_of_bytes s"]
      unfolding read_proxy_v1_then append_assoc read_proxy_v1_tcp by (simp del: dec_zero)
    ultimately show ?thesis by blast
  qed
qed

lemma v2_header_read:
  assumes "valid_addr a"
  shows "\<exists>h. build_proxy_protocol_v2 (Some (show_socket_addr a)) = Inr h \<and>
    read_proxy_v2 (h @ s) = Some (Some a, s)"
proof (cases a)
  case (SockV4 ip port)
  obtain p q where p: "u16_to_be port = [p, q]" using u16_to_be_two by blast
  obtain i j k l where ip: "ip = [i, j, k, l]"
    using assms SockV4 by (auto simp: numeral_eq_Suc length_Suc_conv)
  have u: "u16_to_be 12 = [0, 12]" "u16_to_be 0 = [0, 0]" by code_simp+
  have "be_to_nat [0, 12] = 12" by code_simp
  moreover have "be_to_nat [p, q] = unat port" using be_to_nat_u16 [of port] p by simp
  ultimately show ?thesis
    using assms parse_show [OF assms]
    by (simp add: SockV4 build_proxy_protocol_v2_def read_proxy_v2_def SIGNATURE_def CMD_PROXY_def p u ip
        Let_def del: show_socket_addr.simps)
next
  case (SockV6 ip port)
  obtain p q where p: "u16_to_be port = [p, q]" using u16_to_be_two by blast
  have o6: "length (octets_v6 ip) = 16" using assms SockV6 by (simp add: length_octets_v6)
  have u: "u16_to_be 36 = [0, 36]" "u16_to_be 0 = [0, 0]" by code_simp+
  have "be_to_nat [0, 36] = 36" by code_simp
  moreover have "be_to_nat [p, q] = unat port" using be_to_nat_u16 [of port] p by simp
  ultimately show ?thesis
    using assms parse_show [OF assms]
    by (simp add: SockV6 build_proxy_protocol_v2_def read_proxy_v2_def SIGNATURE_def CMD_PROXY_def p u o6
        segments_octets Let_def del: show_socket_addr.simps)
qed


section \<open>Lengths\<close>

lemma length_dec_port: "length (dec (unat (p :: u16))) \<le> 5"
proof -
  have "unat p < 65536" using unat_bound [of p] by simp
  then show ?thesis
    by (subst dec.simps, subst dec.simps, subst dec.simps, subst dec.simps, subst dec.simps) simp
qed

lemma length_show_ipv4: "length (show_ipv4 ip) \<le> 15"
proof -
  have "length (dec (unat (b :: u8))) \<le> 3" for b
    using unat_bound [of b] by (intro length_dec_octet) simp
  from this [of "ip ! 0"] this [of "ip ! 1"] this [of "ip ! 2"] this [of "ip ! 3"]
  show ?thesis by (simp add: show_ipv4_def)
qed

lemma length_show_segments: "length (show_segments segs) \<le> 5 * length segs"
proof (induction segs rule: show_segments.induct)
  case (2 x)
  show ?case using length_hex_group [of "unat x"] unat_bound [of x] by simp
next
  case (3 x y ys)
  then show ?case using length_hex_group [of "unat x"] unat_bound [of x] by simp
qed simp

lemma length_show_around:
  "length (show_segments (take a segs)) + length (show_segments (drop (a + b) segs)) \<le> 5 * length segs"
  using length_show_segments [of "take a segs"] length_show_segments [of "drop (a + b) segs"] by simp

lemma length_show_ipv6: "length segs = 8 \<Longrightarrow> length (show_ipv6 segs) \<le> 42"
  using length_show_ipv4 [of "u16_to_be (segs ! 6) @ u16_to_be (segs ! 7)"]
    length_show_segments [of segs] length_show_around [of _ segs]
  by (auto simp: show_ipv6_def split: prod.splits)

section \<open>Printing concrete numbers\<close>

lemma digit_chars:
  "digit 0 = CHR ''0''" "digit (Suc 0) = CHR ''1''" "digit 2 = CHR ''2''" "digit 3 = CHR ''3''"
  "digit 4 = CHR ''4''" "digit 5 = CHR ''5''" "digit 6 = CHR ''6''" "digit 7 = CHR ''7''"
  "digit 8 = CHR ''8''" "digit 9 = CHR ''9''"
  by code_simp+

lemma hex_digit_chars:
  "hex_digit 0 = CHR ''0''" "hex_digit (Suc 0) = CHR ''1''" "hex_digit 2 = CHR ''2''"
  "hex_digit 7 = CHR ''7''" "hex_digit 8 = CHR ''8''" "hex_digit 11 = CHR ''b''"
  "hex_digit 13 = CHR ''d''"
  by code_simp+

lemmas number_text = digit_chars hex_digit_chars dec.simps hex_small hex_big

section \<open>Properties\<close>

text \<open>
  C40. The local service learns the user's address: whatever IPv4 or IPv6 peer address the server prints
  into its request, the client builds a header in both versions, and a service that reads the header off
  the stream gets exactly this address, with the rest of the stream unchanged.
\<close>
theorem proxy_header_roundtrip:
  assumes "valid_addr a"
  shows "(\<exists>h. build_proxy_protocol_v1 (Some (show_socket_addr a)) = Inr h \<and>
      read_proxy_v1 (h @ stream) = Some (Some a, stream)) \<and>
    (\<exists>h. build_proxy_protocol_v2 (Some (show_socket_addr a)) = Inr h \<and>
      read_proxy_v2 (h @ stream) = Some (Some a, stream))"
  using v1_header_read [OF assms] v2_header_read [OF assms] by blast

theorem proxy_header_roundtrip_witness:
  "\<exists>h. build_proxy_protocol_v1 (Some ''[2001:db8::7]:443'') = Inr h \<and>
    read_proxy_v1 (h @ [71]) = Some (Some (SockV6 [0x2001, 0xdb8, 0, 0, 0, 0, 0, 7] 443), [71])"
proof -
  let ?a = "SockV6 [0x2001, 0xdb8, 0, 0, 0, 0, 0, 7] 443"
  have "hex 0x2001 = ''2001''" "hex 0xdb8 = ''db8''" "hex 7 = ''7''" "dec 443 = ''443''"
    by (simp_all add: number_text del: digit.simps)
  then have "show_socket_addr ?a = ''[2001:db8::7]:443''" by (simp add: show_ipv6_def)
  then show ?thesis using proxy_header_roundtrip [of ?a "[71]"] by simp
qed

text \<open>
  Headers keep the limits of the protocol: for any address the client accepts, the text header has
  at most 107 bytes, the binary one 16, 28 or 52, and its length field counts exactly the bytes after the
  first sixteen.
\<close>
theorem proxy_header_bounds:
  assumes "build_proxy_protocol_v1 u = Inr h1" and "build_proxy_protocol_v2 u = Inr h2"
  shows "length h1 \<le> 107 \<and> length h2 \<in> {16, 28, 52} \<and> be_to_nat (take 2 (drop 14 h2)) = length h2 - 16"
proof -
  have z: "length (dec 0) = 1" by simp
  have l: "be_to_nat (u16_to_be 0) = 0" "be_to_nat (u16_to_be 12) = 12" "be_to_nat (u16_to_be 36) = 36"
    by simp_all
  show ?thesis
  proof (cases u)
    case None
    with assms l show ?thesis
      by (auto simp: build_proxy_protocol_v1_def build_proxy_protocol_v2_def crlf_def SIGNATURE_def)
  next
    case (Some t)
    with assms obtain a where a: "parse_socket_addr t = Some a"
      by (auto simp: build_proxy_protocol_v1_def split: option.splits)
    note v = parsed_valid [OF a]
    show ?thesis
    proof (cases a)
      case (SockV4 ip port)
      with assms Some a v l length_show_ipv4 [of ip] length_dec_port [of port] show ?thesis
        by (auto simp: build_proxy_protocol_v1_def build_proxy_protocol_v2_def crlf_def SIGNATURE_def
            CMD_PROXY_def)
    next
      case (SockV6 ip port)
      with assms Some a v l length_show_ipv6 [of ip] length_dec_port [of port] show ?thesis
        by (auto simp: build_proxy_protocol_v1_def build_proxy_protocol_v2_def crlf_def SIGNATURE_def
            CMD_PROXY_def length_octets_v6)
    qed
  qed
qed

theorem proxy_header_bounds_witness:
  "\<exists>h1 h2. build_proxy_protocol_v1 (Some ''10.1.2.3:50000'') = Inr h1 \<and>
    build_proxy_protocol_v2 (Some ''10.1.2.3:50000'') = Inr h2 \<and>
    length h1 \<le> 107 \<and> be_to_nat (take 2 (drop 14 h2)) = length h2 - 16"
proof -
  have "valid_addr (SockV4 [10, 1, 2, 3] 50000)" by simp
  moreover have "dec 10 = ''10''" "dec 1 = ''1''" "dec 2 = ''2''" "dec 3 = ''3''" "dec 50000 = ''50000''"
    by (simp_all add: number_text del: digit.simps)
  then have "show_socket_addr (SockV4 [10, 1, 2, 3] 50000) = ''10.1.2.3:50000''"
    by (simp add: show_ipv4_def)
  ultimately obtain h1 h2 where "build_proxy_protocol_v1 (Some ''10.1.2.3:50000'') = Inr h1"
    "build_proxy_protocol_v2 (Some ''10.1.2.3:50000'') = Inr h2"
    using v1_header_read v2_header_read by metis
  with proxy_header_bounds show ?thesis by blast
qed

text \<open>
  The destination of a binary IPv6 header is the unspecified address, not the loopback address the text
  header names.
\<close>

lemma v2_destination_unspecified:
  assumes "length ip = 8"
  shows "\<exists>h. build_proxy_protocol_v2 (Some (show_socket_addr (SockV6 ip port))) = Inr h \<and>
    segments (take 16 (drop 32 h)) = replicate 8 0"
proof -
  have "join_octets 0 0 = 0" by (simp add: join_octets_def)
  moreover have "length (octets_v6 ip) = 16" using assms by (simp add: length_octets_v6)
  ultimately show ?thesis
    using assms parse_show [of "SockV6 ip port"]
    by (simp add: build_proxy_protocol_v2_def SIGNATURE_def CMD_PROXY_def eval_nat_numeral
        del: show_socket_addr.simps)
qed

end
