(* ===== verification/Client_Tls.thy ===== *)
theory Client_Tls
  imports Config
begin

text \<open>
  The client's side of TLS: the two configuration builders (\<^verbatim>\<open>build_client_tls_config\<close> of
  \<^verbatim>\<open>crates/client/src/connector.rs\<close> for the tunnel, \<^verbatim>\<open>build_work_tls_config\<close> of
  \<^verbatim>\<open>proxy_worker.rs\<close> for work connections), the verifier that accepts everything, and the name
  the certificate is checked against. The file system and the TLS library are parameters.
\<close>

record 'c tls_lib =
  tl_read :: "string \<Rightarrow> bytes option"
  tl_certs :: "bytes \<Rightarrow> 'c list option"
  tl_add_root :: "'c \<Rightarrow> bool"
  tl_server_name :: "string \<Rightarrow> bool"
  tl_verify :: "'c list \<Rightarrow> string \<Rightarrow> 'c list \<Rightarrow> bool"

text \<open>
  \<open>tl_read\<close>: a file's contents; \<open>tl_certs\<close>: the certificates of a PEM file; \<open>tl_add_root\<close>: whether a
  certificate can be a trust anchor; \<open>tl_server_name\<close>: whether a text is a DNS name or an address;
  \<open>tl_verify roots name chain\<close>: the default verifier.
\<close>

datatype tls_error =
    Ca_Unreadable string | Ca_Unparsable | Ca_Rejected | Bad_Server_Name string | Io_Error

datatype 'c client_tls = No_Verifier | Roots "'c list"

fun add_roots :: "'c tls_lib \<Rightarrow> 'c list \<Rightarrow> 'c list \<Rightarrow> 'c list option" where
  "add_roots L store [] = Some store"
| "add_roots L store (c # cs) = (if tl_add_root L c then add_roots L (store @ [c]) cs else None)"

definition build_client_tls_config :: "'c tls_lib \<Rightarrow> string \<Rightarrow> tls_error + 'c client_tls" where
  "build_client_tls_config L ca_cert_path =
     (if ca_cert_path = [] then Inr No_Verifier
      else
        case tl_read L ca_cert_path of
          None \<Rightarrow> Inl (Ca_Unreadable ca_cert_path)
        | Some ca_pem \<Rightarrow>
            (case tl_certs L ca_pem of
               None \<Rightarrow> Inl Ca_Unparsable
             | Some ca_certs \<Rightarrow>
                 (case add_roots L [] ca_certs of
                    None \<Rightarrow> Inl Ca_Rejected
                  | Some store \<Rightarrow> Inr (Roots store))))"

definition build_work_tls_config :: "'c tls_lib \<Rightarrow> string \<Rightarrow> tls_error + 'c client_tls" where
  "build_work_tls_config L ca_cert_path =
     (if ca_cert_path = [] then Inr No_Verifier
      else
        case tl_read L ca_cert_path of
          None \<Rightarrow> Inl Io_Error
        | Some ca_pem \<Rightarrow>
            (case tl_certs L ca_pem of
               None \<Rightarrow> Inl Io_Error
             | Some ca_certs \<Rightarrow>
                 (case add_roots L [] ca_certs of
                    None \<Rightarrow> Inl Ca_Rejected
                  | Some store \<Rightarrow> Inr (Roots store))))"

text \<open>\<^verbatim>\<open>NoVerifier\<close>: certificate and both signature checks assert success.\<close>

definition verify_server_cert :: "'c list \<Rightarrow> string \<Rightarrow> bool" where
  "verify_server_cert end_entity server_name = True"

fun accepts :: "'c tls_lib \<Rightarrow> 'c client_tls \<Rightarrow> string \<Rightarrow> 'c list \<Rightarrow> bool" where
  "accepts L No_Verifier name chain = verify_server_cert chain name"
| "accepts L (Roots store) name chain = tl_verify L store name chain"

definition resolve_server_name :: "'c tls_lib \<Rightarrow> string \<Rightarrow> string \<Rightarrow> tls_error + string" where
  "resolve_server_name L server_name server_addr =
     (let name = (if server_name = [] then server_addr else server_name) in
      if tl_server_name L name then Inr name else Inl (Bad_Server_Name name))"

lemma add_roots_all: "add_roots L store cs = (if list_all (tl_add_root L) cs then Some (store @ cs) else None)"
  by (induction cs arbitrary: store) simp_all

text \<open>
  The tunnel and the work connections trust the same servers: for every CA path and every file
  system the two builders, written twice, fail together or give the same configuration, which accepts any
  certificate if the path is empty and otherwise exactly what the default verifier accepts with all
  certificates of the file as trust anchors.
\<close>
theorem tls_builders_agree:
  "(\<forall>cfg. build_work_tls_config L ca = Inr cfg \<longleftrightarrow> build_client_tls_config L ca = Inr cfg) \<and>
   (\<forall>cfg name chain. build_client_tls_config L ca = Inr cfg \<longrightarrow>
      accepts L cfg name chain =
        (if ca = [] then True
         else tl_verify L (the (Option.bind (tl_read L ca) (tl_certs L))) name chain))"
  by (auto simp: build_work_tls_config_def build_client_tls_config_def add_roots_all
      verify_server_cert_def split: option.splits if_splits)

definition sample_tls :: "nat tls_lib" where
  "sample_tls =
     \<lparr>tl_read = (\<lambda>p. if p = ''ca.pem'' then Some [1, 2] else None),
      tl_certs = (\<lambda>b. Some (map unat b)), tl_add_root = (\<lambda>c. c < 100),
      tl_server_name = (\<lambda>n. n \<noteq> []), tl_verify = (\<lambda>roots name chain. set chain \<subseteq> set roots)\<rparr>"

theorem tls_builders_agree_witness:
  "\<exists>cfg. build_client_tls_config sample_tls ''ca.pem'' = Inr cfg \<and>
    accepts sample_tls cfg ''h'' [2] \<and> \<not> accepts sample_tls cfg ''h'' [3]"
proof -
  have c: "build_client_tls_config sample_tls ''ca.pem'' = Inr (Roots [1, 2])"
    by (simp add: build_client_tls_config_def sample_tls_def)
  have "Option.bind (tl_read sample_tls ''ca.pem'') (tl_certs sample_tls) = Some [1, 2]"
    by (simp add: sample_tls_def)
  with tls_builders_agree [of sample_tls "''ca.pem''"] c have
    "accepts sample_tls (Roots [1, 2]) ''h'' chain = tl_verify sample_tls [1, 2] ''h'' chain" for chain
    by auto
  then show ?thesis using c by (simp add: sample_tls_def)
qed

end
