(* ===== verification/Worker.thy ===== *)
theory Worker
  imports Proxy_Protocol Client_Tls Bridge App_State
begin

text \<open>
  \<^verbatim>\<open>crates/client/src/proxy_worker.rs\<close>: the client's table of assigned rules and the life of
  one work connection, from the dial to the end of its copy loop. What the network does is a record of
  outcomes; the copy loops are those of \<^verbatim>\<open>Bridge\<close>.
\<close>

section \<open>Table of assigned rules\<close>

record worker_manager =
  wm_local_addrs :: "string \<Rightarrow> string option"
  wm_proxy_types :: "string \<Rightarrow> string option"
  wm_proxy_protocols :: "string \<Rightarrow> string option"
  wm_tasks :: "string \<Rightarrow> nat option"

definition worker_manager_new :: worker_manager where
  "worker_manager_new =
     \<lparr>wm_local_addrs = Map.empty, wm_proxy_types = Map.empty, wm_proxy_protocols = Map.empty,
      wm_tasks = Map.empty\<rparr>"

definition local_addr_of :: "server_assign_proxy_request \<Rightarrow> string" where
  "local_addr_of req = sap_local_ip req @ '':'' @ dec (unat (sap_local_port req))"

definition start_proxy :: "server_assign_proxy_request \<Rightarrow> worker_manager \<Rightarrow> worker_manager" where
  "start_proxy req m =
     m\<lparr>wm_local_addrs := (wm_local_addrs m)(sap_name req \<mapsto> local_addr_of req),
       wm_proxy_types := (wm_proxy_types m)(sap_name req \<mapsto> sap_proxy_type req),
       wm_proxy_protocols := (wm_proxy_protocols m)(sap_name req \<mapsto> sap_proxy_protocol req)\<rparr>"

definition stop_proxy :: "string \<Rightarrow> worker_manager \<Rightarrow> worker_manager" where
  "stop_proxy name m =
     m\<lparr>wm_local_addrs := (wm_local_addrs m)(name := None),
       wm_proxy_types := (wm_proxy_types m)(name := None),
       wm_proxy_protocols := (wm_proxy_protocols m)(name := None),
       wm_tasks := (wm_tasks m)(name := None)\<rparr>"

definition stop_all_proxies :: "worker_manager \<Rightarrow> worker_manager" where
  "stop_all_proxies m =
     m\<lparr>wm_local_addrs := Map.empty, wm_proxy_types := Map.empty, wm_proxy_protocols := Map.empty,
       wm_tasks := Map.empty\<rparr>"

definition get_local_addr :: "string \<Rightarrow> worker_manager \<Rightarrow> string option" where
  "get_local_addr name m = wm_local_addrs m name"

definition get_proxy_type :: "string \<Rightarrow> worker_manager \<Rightarrow> string option" where
  "get_proxy_type name m = wm_proxy_types m name"

definition get_proxy_protocol :: "string \<Rightarrow> worker_manager \<Rightarrow> string option" where
  "get_proxy_protocol name m = wm_proxy_protocols m name"

section \<open>A work connection\<close>

text \<open>
  What the operations of one call find: whether connecting to an address succeeds, the TLS handshake, the
  send of the confirmation, the local UDP socket, the send of the error marker, the write of the header,
  and the events of the copy loop.
\<close>

record work_outcomes =
  wo_connect :: "string \<Rightarrow> bool"
  wo_handshake :: bool
  wo_confirm :: bool
  wo_udp_bind :: bool
  wo_udp_connect :: bool
  wo_marker :: bool
  wo_header :: "nat option"
  wo_events :: "bridge_event list"

datatype work_error =
    Dial_Failed string | Tls_Failed tls_error | Handshake_Failed | Confirm_Failed | Local_Failed

definition bridge_udp_to_framed :: "work_outcomes \<Rightarrow> u64 \<Rightarrow> bridge \<Rightarrow> bridge" where
  "bridge_udp_to_framed W conn_id b =
     (if \<not> wo_udp_bind W then b
      else if \<not> wo_udp_connect W then b
      else fst (bridge_run local_udp_step conn_id (wo_events W) b))"

text \<open>The header goes out before the first byte of the user; a failure is logged and the stream goes on.\<close>

definition write_header ::
  "work_outcomes \<Rightarrow> string option \<Rightarrow> string option \<Rightarrow> bridge \<Rightarrow> bridge" where
  "write_header W user_addr proxy_protocol b =
     (let pp_version = (case proxy_protocol of Some v \<Rightarrow> v | None \<Rightarrow> []) in
      if pp_version \<noteq> [] then
        let header = fst (inject_proxy_protocol (wo_header W) user_addr pp_version) in
        (if header = [] then b else write_piece header b)
      else b)"

definition server_socket :: "client_section \<Rightarrow> string" where
  "server_socket cfg = cl_server_addr cfg @ '':'' @ dec (unat (cl_server_port cfg))"

definition open_work_connection ::
  "'c tls_lib \<Rightarrow> work_outcomes \<Rightarrow> client_section \<Rightarrow> string \<Rightarrow> u64 \<Rightarrow> string \<Rightarrow> string \<Rightarrow>
   string option \<Rightarrow> string option \<Rightarrow> (work_error + unit) \<times> bridge" where
  "open_work_connection L W cfg proxy_name conn_id local_addr proxy_type user_addr proxy_protocol =
     (if \<not> wo_connect W (server_socket cfg) then (Inl (Dial_Failed (server_socket cfg)), bridge_start)
      else case build_work_tls_config L (cl_ca_cert cfg) of
        Inl e \<Rightarrow> (Inl (Tls_Failed e), bridge_start)
      | Inr tls_config \<Rightarrow>
          (case resolve_server_name L (cl_server_name cfg) (cl_server_addr cfg) of
             Inl e \<Rightarrow> (Inl (Tls_Failed e), bridge_start)
           | Inr domain \<Rightarrow>
               if \<not> wo_handshake W then (Inl Handshake_Failed, bridge_start)
               else if \<not> wo_confirm W then (Inl Confirm_Failed, bridge_start)
               else
                 let b = bridge_start\<lparr>br_work := [Control (NewWorkConnResp
                           \<lparr>wcr_proxy_name = proxy_name, wcr_conn_id = conn_id, wcr_success = True\<rparr>)]\<rparr>
                 in if proxy_type = ''udp'' then (Inr (), bridge_udp_to_framed W conn_id b)
                    else if \<not> wo_connect W local_addr then
                      (Inl Local_Failed, if wo_marker W then send_frame conn_id [] b else b)
                    else
                      let b = write_header W user_addr proxy_protocol b
                      in (Inr (), fst (bridge_run local_tcp_step conn_id (wo_events W) b))))"

section \<open>Lemmas\<close>

lemma started [simp]:
  "get_local_addr n (start_proxy req m) =
     (if n = sap_name req then Some (local_addr_of req) else get_local_addr n m)"
  "get_proxy_type n (start_proxy req m) =
     (if n = sap_name req then Some (sap_proxy_type req) else get_proxy_type n m)"
  "get_proxy_protocol n (start_proxy req m) =
     (if n = sap_name req then Some (sap_proxy_protocol req) else get_proxy_protocol n m)"
  "wm_tasks (start_proxy req m) = wm_tasks m"
  by (simp_all add: start_proxy_def get_local_addr_def get_proxy_type_def get_proxy_protocol_def)

lemma stopped [simp]:
  "get_local_addr n (stop_proxy name m) = (if n = name then None else get_local_addr n m)"
  "get_proxy_type n (stop_proxy name m) = (if n = name then None else get_proxy_type n m)"
  "get_proxy_protocol n (stop_proxy name m) = (if n = name then None else get_proxy_protocol n m)"
  "wm_tasks (stop_proxy name m) = (wm_tasks m)(name := None)"
  by (simp_all add: stop_proxy_def get_local_addr_def get_proxy_type_def get_proxy_protocol_def)

text \<open>What a successful call has done, by the type of the rule.\<close>

lemma open_work_Inr:
  assumes "open_work_connection L W cfg n cid la pt ua pp = (Inr (), b)"
  shows "\<exists>b0. br_work b0 = [Control (NewWorkConnResp
      \<lparr>wcr_proxy_name = n, wcr_conn_id = cid, wcr_success = True\<rparr>)] \<and> br_local b0 = [] \<and>
    b = (if pt = ''udp'' then bridge_udp_to_framed W cid b0
         else fst (bridge_run local_tcp_step cid (wo_events W) (write_header W ua pp b0)))"
  using assms
  by (auto simp: open_work_connection_def Let_def split: if_splits sum.splits
      intro!: exI [of _ "bridge_start\<lparr>br_work := [Control (NewWorkConnResp
        \<lparr>wcr_proxy_name = n, wcr_conn_id = cid, wcr_success = True\<rparr>)]\<rparr>"])

definition header_bytes :: "work_outcomes \<Rightarrow> string option \<Rightarrow> string option \<Rightarrow> bytes" where
  "header_bytes W ua pp =
     (case pp of
        Some v \<Rightarrow> if v \<noteq> [] then fst (inject_proxy_protocol (wo_header W) ua v) else []
      | None \<Rightarrow> [])"

lemma header_local:
  "concat (br_local (write_header W ua pp b)) = concat (br_local b) @ header_bytes W ua pp"
  "br_work (write_header W ua pp b) = br_work b"
  by (auto simp: write_header_def header_bytes_def write_piece_def Let_def split: option.splits)

text \<open>What a local TCP service gets: the header, then a prefix of what came over the work connection.\<close>

lemma tcp_service_bytes:
  assumes "open_work_connection L W cfg n cid la pt ua pp = (Inr (), b)" and "pt \<noteq> ''udp''"
  shows "\<exists>r. concat (br_local b) = header_bytes W ua pp @ r \<and>
    prefix r (concat (payloads (work_messages (wo_events W))))"
proof -
  obtain b0 where b0: "br_local b0 = []"
    "b = fst (bridge_run local_tcp_step cid (wo_events W) (write_header W ua pp b0))"
    using open_work_Inr [OF assms(1)] assms(2) by auto
  obtain s c where r: "bridge_run local_tcp_step cid (wo_events W) (write_header W ua pp b0) = (s, c)"
    by (cases "bridge_run local_tcp_step cid (wo_events W) (write_header W ua pp b0)")
  from local_tcp.run_local [OF r] obtain ps where ps:
    "br_local s = br_local (write_header W ua pp b0) @ ps"
    "prefix (concat ps) (concat (until_close (payloads (work_messages (wo_events W)))))" by blast
  have "prefix (concat ps) (concat (payloads (work_messages (wo_events W))))"
    using ps(2) until_close_bytes by (rule prefix_order.trans)
  with ps(1) b0 r show ?thesis by (auto simp: header_local)
qed

section \<open>Properties\<close>

text \<open>
  A local service behind a rule with a PROXY protocol version sees the user first: on a work
  connection whose header could be written, the bytes it gets are a header of that version that reads back
  as exactly the address the server saw, followed by a prefix of the bytes the user's side sent.
\<close>
theorem proxied_service_sees_user:
  assumes "open_work_connection L W cfg name cid local_addr pt (Some (show_socket_addr a)) (Some v) = (Inr (), b)"
    and "pt \<noteq> ''udp''" and "valid_addr a" and "wo_header W = None" and "v = ''v1'' \<or> v = ''v2''"
  shows "\<exists>r. (if v = ''v1'' then read_proxy_v1 else read_proxy_v2) (concat (br_local b)) = Some (Some a, r) \<and>
    prefix r (concat (payloads (work_messages (wo_events W))))"
proof -
  obtain r where r: "concat (br_local b) = header_bytes W (Some (show_socket_addr a)) (Some v) @ r"
    "prefix r (concat (payloads (work_messages (wo_events W))))"
    using tcp_service_bytes [OF assms(1,2)] by blast
  obtain h1 where h1: "build_proxy_protocol_v1 (Some (show_socket_addr a)) = Inr h1"
    "read_proxy_v1 (h1 @ r) = Some (Some a, r)" using v1_header_read [OF assms(3)] by blast
  obtain h2 where h2: "build_proxy_protocol_v2 (Some (show_socket_addr a)) = Inr h2"
    "read_proxy_v2 (h2 @ r) = Some (Some a, r)" using v2_header_read [OF assms(3)] by blast
  from assms(5) r h1 h2 show ?thesis
    by (auto simp: header_bytes_def inject_proxy_protocol_def assms(4))
qed

definition sample_client :: client_section where
  "sample_client =
     \<lparr>cl_id = ''c1'', cl_server_addr = ''10.0.0.1'', cl_server_port = 7000, cl_token = ''t'', cl_ca_cert = [],
      cl_server_name = []\<rparr>"

definition sample_outcomes :: "bridge_event list \<Rightarrow> work_outcomes" where
  "sample_outcomes es =
     \<lparr>wo_connect = (\<lambda>_. True), wo_handshake = True, wo_confirm = True, wo_udp_bind = True,
      wo_udp_connect = True, wo_marker = True, wo_header = None, wo_events = es\<rparr>"

lemma sample_opens:
  "\<exists>b. open_work_connection sample_tls (sample_outcomes es) sample_client n cid la pt ua pp = (Inr (), b)"
  by (simp add: open_work_connection_def sample_outcomes_def sample_client_def sample_tls_def
      build_work_tls_config_def resolve_server_name_def Let_def)

theorem proxied_service_sees_user_witness:
  "\<exists>b r. open_work_connection sample_tls (sample_outcomes [Work_Message (data_frame 9 [71]) None])
      sample_client ''web'' 9 ''127.0.0.1:80'' ''tcp'' (Some (show_socket_addr (SockV4 [10, 1, 2, 3] 50000)))
      (Some ''v2'') = (Inr (), b) \<and>
    read_proxy_v2 (concat (br_local b)) = Some (Some (SockV4 [10, 1, 2, 3] 50000), r) \<and> prefix r [71]"
proof -
  let ?a = "SockV4 [10, 1, 2, 3] 50000" and ?es = "[Work_Message (data_frame 9 [71]) None]"
  obtain b where b: "open_work_connection sample_tls (sample_outcomes ?es) sample_client ''web'' 9
      ''127.0.0.1:80'' ''tcp'' (Some (show_socket_addr ?a)) (Some ''v2'') = (Inr (), b)"
    using sample_opens by blast
  have "wo_header (sample_outcomes ?es) = None" "wo_events (sample_outcomes ?es) = ?es"
    by (simp_all add: sample_outcomes_def)
  with proxied_service_sees_user [OF b] b show ?thesis by (auto simp del: show_socket_addr.simps)
qed

text \<open>
  The type of a rule survives the trip as a text: after the server has assigned a rule, the client's
  table gives back exactly its local address and its type, and the work connection of the rule runs the UDP loop
  if and only if the rule is a UDP rule; the text is never read as another type.
\<close>
theorem assigned_type_selects_loop:
  assumes "m' = start_proxy (assign_of_rule r) m" and "get_proxy_type (r_name r) m' = Some pt"
    and "open_work_connection L W cfg (r_name r) cid la pt ua pp = (Inr (), b)"
  shows "get_local_addr (r_name r) m' = Some (r_local_ip r @ '':'' @ dec (unat (r_local_port r))) \<and>
    parse_proxy_type pt = r_type r \<and>
    (\<exists>b0. br_work b0 = [Control (NewWorkConnResp
        \<lparr>wcr_proxy_name = r_name r, wcr_conn_id = cid, wcr_success = True\<rparr>)] \<and>
      b = (if r_type r = Udp then bridge_udp_to_framed W cid b0
           else fst (bridge_run local_tcp_step cid (wo_events W) b0)))"
proof -
  have pt: "pt = as_str (r_type r)" using assms(1,2) by (simp add: assign_of_rule_def)
  then have "pt = ''udp'' \<longleftrightarrow> r_type r = Udp" by (cases "r_type r") simp_all
  with open_work_Inr [OF assms(3)] obtain b0 where b0: "br_work b0 = [Control (NewWorkConnResp
        \<lparr>wcr_proxy_name = r_name r, wcr_conn_id = cid, wcr_success = True\<rparr>)]"
    "b = (if r_type r = Udp then bridge_udp_to_framed W cid b0
           else fst (bridge_run local_tcp_step cid (wo_events W) (write_header W ua pp b0)))"
    by auto
  have "\<exists>b1. br_work b1 = br_work b0 \<and> b = (if r_type r = Udp then bridge_udp_to_framed W cid b1
           else fst (bridge_run local_tcp_step cid (wo_events W) b1))"
    using b0(2) header_local(2) [of W ua pp b0]
    by (intro exI [of _ "if r_type r = Udp then b0 else write_header W ua pp b0"]) simp
  with b0(1) assms(1) pt show ?thesis
    by (auto simp: assign_of_rule_def local_addr_of_def)
qed

theorem assigned_type_selects_loop_witness:
  "\<exists>m'. m' = start_proxy (assign_of_rule (sample_rule ''dns'')) worker_manager_new \<and>
    get_local_addr ''dns'' m' = Some (r_local_ip (sample_rule ''dns'') @ '':'' @
      dec (unat (r_local_port (sample_rule ''dns''))))"
proof -
  let ?r = "sample_rule ''dns''"
  define m' where "m' = start_proxy (assign_of_rule ?r) worker_manager_new"
  have n: "r_name ?r = ''dns''" by (simp add: sample_rule_def)
  have t: "get_proxy_type (r_name ?r) m' = Some (as_str (r_type ?r))"
    by (simp add: m'_def assign_of_rule_def)
  obtain b where b: "open_work_connection sample_tls (sample_outcomes []) sample_client (r_name ?r) 1
      ''127.0.0.1:80'' (as_str (r_type ?r)) None None = (Inr (), b)"
    using sample_opens by blast
  from assigned_type_selects_loop [OF m'_def t b] n m'_def show ?thesis by metis
qed

end
