(* ===== verification/Connector.thy ===== *)
theory Connector
  imports Worker Session
begin

text \<open>
  \<^verbatim>\<open>crates/client/src/connector.rs\<close> and \<^verbatim>\<open>main.rs\<close>: one connection of the client to
  the server (dial, TLS, authentication, message loop) and the loop that reconnects with growing delays.
  The message loop is a step function on what \<^verbatim>\<open>select!\<close> delivers.
\<close>

section \<open>Authentication\<close>

datatype connect_error =
    Connect_Failed string | Connect_Tls tls_error | Connect_Handshake | Auth_Not_Sent
  | Auth_Unexpected | Auth_Unparsable | Auth_Closed | Auth_Timeout | Auth_Refused string

text \<open>The outcome of \<^verbatim>\<open>timeout(10s, framed.next())\<close> is of the same type as on the server.\<close>

fun wait_auth_response :: "first_msg \<Rightarrow> connect_error + auth_response" where
  "wait_auth_response (First (Control (AuthResp resp))) = Inr resp"
| "wait_auth_response (First _) = Inl Auth_Unexpected"
| "wait_auth_response First_Error = Inl Auth_Unparsable"
| "wait_auth_response First_Closed = Inl Auth_Closed"
| "wait_auth_response First_Timeout = Inl Auth_Timeout"

definition client_auth_request :: "client_section \<Rightarrow> auth_request" where
  "client_auth_request cfg =
     \<lparr>ar_client_id = cl_id cfg, ar_token = cl_token cfg, ar_version = ''0.1.8''\<rparr>"

section \<open>Message loop\<close>

text \<open>The arguments of a spawned \<^verbatim>\<open>open_work_connection\<close>.\<close>

record work_call =
  wc_proxy_name :: string
  wc_conn_id :: u64
  wc_local_addr :: string
  wc_proxy_type :: string
  wc_user_addr :: "string option"
  wc_proxy_protocol :: "string option"

definition new_work_conn :: "new_work_conn_request \<Rightarrow> worker_manager \<Rightarrow> work_call list" where
  "new_work_conn req m =
     (case get_local_addr (wcq_proxy_name req) m of
        None \<Rightarrow> []
      | Some addr \<Rightarrow>
          [\<lparr>wc_proxy_name = wcq_proxy_name req, wc_conn_id = wcq_conn_id req, wc_local_addr = addr,
            wc_proxy_type = (case get_proxy_type (wcq_proxy_name req) m of Some t \<Rightarrow> t | None \<Rightarrow> ''tcp''),
            wc_user_addr = wcq_user_addr req,
            wc_proxy_protocol = get_proxy_protocol (wcq_proxy_name req) m\<rparr>])"

fun handle_control :: "control_message \<Rightarrow> worker_manager \<Rightarrow> worker_manager \<times> work_call list" where
  "handle_control (ServerAssignProxy req) m = (start_proxy req m, [])"
| "handle_control (ServerCloseProxy req) m = (stop_proxy (scp_name req) m, [])"
| "handle_control (NewWorkConn req) m = (m, new_work_conn req m)"
| "handle_control _ m = (m, [])"

text \<open>A message, an error or the end from the server; a ping tick with the success of its send.\<close>

datatype client_event = From_Server message | Server_Error | Server_Closed | Ping_Tick bool

record client_state =
  cs_manager :: worker_manager
  cs_calls :: "work_call list"
  cs_sent :: "message list"

fun client_step :: "client_event \<Rightarrow> client_state \<Rightarrow> client_state \<times> bool" where
  "client_step (From_Server (Control ctrl)) s =
     (let (m, calls) = handle_control ctrl (cs_manager s)
      in (s\<lparr>cs_manager := m, cs_calls := cs_calls s @ calls\<rparr>, True))"
| "client_step (From_Server (Data d)) s = (s, True)"
| "client_step Server_Error s = (s, False)"
| "client_step Server_Closed s = (s, False)"
| "client_step (Ping_Tick sent) s =
     (if sent then (s\<lparr>cs_sent := cs_sent s @ [Control Ping]\<rparr>, True) else (s, False))"

fun client_loop :: "client_event list \<Rightarrow> client_state \<Rightarrow> client_state" where
  "client_loop [] s = s"
| "client_loop (e # es) s =
     (case client_step e s of
        (s', True) \<Rightarrow> client_loop es s'
      | (s', False) \<Rightarrow> s')"

text \<open>What one connection finds on its way.\<close>

record connect_outcomes =
  co_connect :: bool
  co_handshake :: bool
  co_auth_sent :: bool
  co_first :: first_msg
  co_events :: "client_event list"

definition client_start :: "client_section \<Rightarrow> client_state" where
  "client_start cfg =
     \<lparr>cs_manager = worker_manager_new, cs_calls = [], cs_sent = [Control (Auth (client_auth_request cfg))]\<rparr>"

definition connect_and_run ::
  "'c tls_lib \<Rightarrow> connect_outcomes \<Rightarrow> client_section \<Rightarrow> (connect_error + unit) \<times> client_state option" where
  "connect_and_run L C cfg =
     (if \<not> co_connect C then (Inl (Connect_Failed (server_socket cfg)), None)
      else case build_client_tls_config L (cl_ca_cert cfg) of
        Inl e \<Rightarrow> (Inl (Connect_Tls e), None)
      | Inr tls_config \<Rightarrow>
          (case resolve_server_name L (cl_server_name cfg) (cl_server_addr cfg) of
             Inl e \<Rightarrow> (Inl (Connect_Tls e), None)
           | Inr domain \<Rightarrow>
               if \<not> co_handshake C then (Inl Connect_Handshake, None)
               else if \<not> co_auth_sent C then (Inl Auth_Not_Sent, None)
               else
                 (case wait_auth_response (co_first C) of
                    Inl e \<Rightarrow> (Inl e, None)
                  | Inr auth_resp \<Rightarrow>
                      if \<not> as_success auth_resp then (Inl (Auth_Refused (as_message auth_resp)), None)
                      else
                        let s = client_loop (co_events C) (client_start cfg) in
                        (Inr (), Some (s\<lparr>cs_manager := stop_all_proxies (cs_manager s)\<rparr>)))))"

section \<open>Reconnecting\<close>

text \<open>
  The delays, in seconds, that \<^verbatim>\<open>main\<close> sleeps after its attempts; \<open>True\<close> stands for \<^verbatim>\<open>Ok(())\<close>.
\<close>

definition max_delay :: nat where
  "max_delay = 60"

fun retry_delays :: "nat \<Rightarrow> bool list \<Rightarrow> nat list" where
  "retry_delays retry_delay [] = []"
| "retry_delays retry_delay (ok # oks) =
     (let retry_delay = (if ok then 1 else retry_delay)
      in retry_delay # retry_delays (min (retry_delay * 2) max_delay) oks)"

definition client_main :: "'c tls_lib \<Rightarrow> client_section \<Rightarrow> connect_outcomes list \<Rightarrow> nat list" where
  "client_main L cfg Cs = retry_delays 1 (map (\<lambda>C. fst (connect_and_run L C cfg) = Inr ()) Cs)"

section \<open>The table the client keeps\<close>

text \<open>
  Specification: one finite map from names to assignments, changed by the two messages that are meant
  to change it; a request for a work connection is served with the assignment in force.
\<close>

fun assign_spec :: "control_message \<Rightarrow> (string \<Rightarrow> server_assign_proxy_request option) \<Rightarrow>
    (string \<Rightarrow> server_assign_proxy_request option)" where
  "assign_spec (ServerAssignProxy req) T = T(sap_name req \<mapsto> req)"
| "assign_spec (ServerCloseProxy req) T = T(scp_name req := None)"
| "assign_spec _ T = T"

fun call_spec :: "control_message \<Rightarrow> (string \<Rightarrow> server_assign_proxy_request option) \<Rightarrow> work_call list" where
  "call_spec (NewWorkConn req) T =
     (case T (wcq_proxy_name req) of
        None \<Rightarrow> []
      | Some a \<Rightarrow>
          [\<lparr>wc_proxy_name = wcq_proxy_name req, wc_conn_id = wcq_conn_id req,
            wc_local_addr = local_addr_of a, wc_proxy_type = sap_proxy_type a,
            wc_user_addr = wcq_user_addr req, wc_proxy_protocol = Some (sap_proxy_protocol a)\<rparr>])"
| "call_spec _ T = []"

fun controls :: "client_event list \<Rightarrow> control_message list" where
  "controls [] = []"
| "controls (From_Server (Control c) # es) = c # controls es"
| "controls (From_Server (Data d) # es) = controls es"
| "controls (Server_Error # es) = []"
| "controls (Server_Closed # es) = []"
| "controls (Ping_Tick sent # es) = (if sent then controls es else [])"

fun run_spec :: "control_message list \<Rightarrow> (string \<Rightarrow> server_assign_proxy_request option) \<Rightarrow>
    (string \<Rightarrow> server_assign_proxy_request option) \<times> work_call list" where
  "run_spec [] T = (T, [])"
| "run_spec (c # cs) T =
     (let (T', calls) = run_spec cs (assign_spec c T) in (T', call_spec c T @ calls))"

text \<open>The abstraction relation: the three tables hold the parts of one map.\<close>

definition table_of :: "worker_manager \<Rightarrow> (string \<Rightarrow> server_assign_proxy_request option) \<Rightarrow> bool" where
  "table_of m T \<longleftrightarrow>
     wm_local_addrs m = map_option local_addr_of \<circ> T \<and>
     wm_proxy_types m = map_option sap_proxy_type \<circ> T \<and>
     wm_proxy_protocols m = map_option sap_proxy_protocol \<circ> T \<and> wm_tasks m = Map.empty"

lemma table_new: "table_of worker_manager_new Map.empty"
  by (auto simp: table_of_def worker_manager_new_def)

lemma handle_control_table:
  assumes "table_of m T" "handle_control c m = (m', calls)"
  shows "table_of m' (assign_spec c T) \<and> calls = call_spec c T"
  using assms
  by (cases "(c, m)" rule: handle_control.cases)
    (auto simp: table_of_def start_proxy_def stop_proxy_def new_work_conn_def get_local_addr_def
      get_proxy_type_def get_proxy_protocol_def fun_eq_iff split: option.splits)

lemma client_loop_table:
  assumes "table_of (cs_manager s) T" "run_spec (controls es) T = (T', calls)"
  shows "table_of (cs_manager (client_loop es s)) T' \<and> cs_calls (client_loop es s) = cs_calls s @ calls"
  using assms
proof (induction es arbitrary: s T T' calls rule: controls.induct)
  case (2 c es)
  obtain m' cs where h: "handle_control c (cs_manager s) = (m', cs)" by (cases "handle_control c (cs_manager s)")
  note t = handle_control_table [OF 2(2) h]
  obtain T1 calls1 where r: "run_spec (controls es) (assign_spec c T) = (T1, calls1)"
    by (cases "run_spec (controls es) (assign_spec c T)")
  let ?s = "s\<lparr>cs_manager := m', cs_calls := cs_calls s @ cs\<rparr>"
  have "table_of (cs_manager (client_loop es ?s)) T1 \<and> cs_calls (client_loop es ?s) = cs_calls ?s @ calls1"
    by (rule 2(1)) (use t r in simp_all)
  with 2(3) h r t show ?case by simp
qed (auto split: if_splits)


section \<open>Delays\<close>

lemma length_retry_delays [simp]: "length (retry_delays d oks) = length oks"
  by (induction d oks rule: retry_delays.induct) (simp_all add: Let_def)

lemma retry_delays_bounds:
  "1 \<le> d \<Longrightarrow> d \<le> 60 \<Longrightarrow> x \<in> set (retry_delays d oks) \<Longrightarrow> 1 \<le> x \<and> x \<le> 60"
  by (induction d oks rule: retry_delays.induct) (auto simp: Let_def max_delay_def split: if_splits)

lemma min_capped:
  assumes "1 \<le> (m :: nat)"
  shows "min (min a c * m) c = min (a * m) c"
proof (cases "a \<le> c")
  case False
  have "c * 1 \<le> c * m" using assms by (intro mult_le_mono2)
  moreover have "c * m \<le> a * m" using False by (intro mult_le_mono1) simp
  ultimately have "c \<le> c * m" "c \<le> a * m" by linarith+
  moreover have "min a c = c" using False by simp
  ultimately show ?thesis by (simp only: min_absorb2)
qed simp

lemma retry_delays_failures:
  "d \<le> 60 \<Longrightarrow> j < k \<Longrightarrow> retry_delays d (replicate k False) ! j = min (d * 2 ^ j) 60"
proof (induction k arbitrary: d j)
  case (Suc k)
  show ?case
  proof (cases j)
    case 0
    with Suc.prems(1) show ?thesis by simp
  next
    case (Suc i)
    have "retry_delays (min (d * 2) 60) (replicate k False) ! i = min (min (d * 2) 60 * 2 ^ i) 60"
      using Suc Suc.prems(2) by (intro Suc.IH) simp_all
    moreover have "min (min (d * 2) 60 * 2 ^ i) 60 = min (d * 2 ^ Suc i) (60 :: nat)"
      using min_capped [of "2 ^ i" "d * 2" 60] by simp
    ultimately show ?thesis using Suc by (simp add: max_delay_def)
  qed
qed simp

lemma retry_delays_split:
  "\<exists>d'. retry_delays d (xs @ ys) = retry_delays d xs @ retry_delays d' ys"
  by (induction xs arbitrary: d) (auto simp: Let_def)

lemma retry_delays_after_ok:
  assumes "j \<le> k"
  shows "retry_delays d (oks @ True # replicate k False) ! (length oks + j) = min (2 ^ j) 60"
proof -
  obtain d' where "retry_delays d (oks @ True # replicate k False) =
      retry_delays d oks @ retry_delays d' (True # replicate k False)"
    using retry_delays_split by blast
  moreover have "retry_delays d' (True # replicate k False) ! j = min (2 ^ j) 60"
    using assms retry_delays_failures [of 2 "j - 1" k]
    by (cases j) (auto simp: max_delay_def)
  ultimately show ?thesis by (simp add: nth_append)
qed

text \<open>Exactly the sessions that were authenticated count as clean, however they end.\<close>

lemma connect_ok_iff:
  "fst (connect_and_run L C cfg) = Inr () \<longleftrightarrow>
     co_connect C \<and> (\<exists>t. build_client_tls_config L (cl_ca_cert cfg) = Inr t) \<and>
     (\<exists>d. resolve_server_name L (cl_server_name cfg) (cl_server_addr cfg) = Inr d) \<and>
     co_handshake C \<and> co_auth_sent C \<and>
     (\<exists>resp. co_first C = First (Control (AuthResp resp)) \<and> as_success resp)"
proof -
  have "(\<exists>resp. wait_auth_response (co_first C) = Inr resp \<and> as_success resp) \<longleftrightarrow>
      (\<exists>resp. co_first C = First (Control (AuthResp resp)) \<and> as_success resp)"
    by (cases "co_first C" rule: wait_auth_response.cases) auto
  then show ?thesis
    by (auto simp: connect_and_run_def Let_def split: sum.splits)
qed

section \<open>Properties\<close>

text \<open>
  The client's three tables are one map: after any events of a connection they hold exactly the
  address, type and protocol version of the assignments in force (last assigned and not closed since), and the
  work connections it opened are exactly those requested for a name with an assignment, each with
  the data of the assignment in force at that moment.
\<close>
theorem client_refines_assignments:
  assumes "run_spec (controls es) Map.empty = (T, calls)"
  shows "(\<forall>n. get_local_addr n (cs_manager (client_loop es (client_start cfg))) =
        map_option local_addr_of (T n) \<and>
      get_proxy_type n (cs_manager (client_loop es (client_start cfg))) = map_option sap_proxy_type (T n) \<and>
      get_proxy_protocol n (cs_manager (client_loop es (client_start cfg))) =
        map_option sap_proxy_protocol (T n)) \<and>
    cs_calls (client_loop es (client_start cfg)) = calls"
  using client_loop_table [of "client_start cfg" Map.empty es T calls] assms table_new
  by (simp add: client_start_def table_of_def get_local_addr_def get_proxy_type_def get_proxy_protocol_def)

definition sample_assign :: "string \<Rightarrow> u16 \<Rightarrow> server_assign_proxy_request" where
  "sample_assign n p =
     \<lparr>sap_name = n, sap_proxy_type = ''tcp'', sap_local_ip = ''127.0.0.1'', sap_local_port = p,
      sap_remote_port = 8080, sap_custom_domains = [], sap_proxy_protocol = []\<rparr>"

definition sample_events :: "client_event list" where
  "sample_events =
     map (\<lambda>c. From_Server (Control c))
       [ServerAssignProxy (sample_assign ''a'' 80), ServerAssignProxy (sample_assign ''a'' 81),
        NewWorkConn \<lparr>wcq_proxy_name = ''a'', wcq_conn_id = 5, wcq_user_addr = None\<rparr>,
        ServerCloseProxy \<lparr>scp_name = ''a''\<rparr>,
        NewWorkConn \<lparr>wcq_proxy_name = ''a'', wcq_conn_id = 6, wcq_user_addr = None\<rparr>]"

theorem client_refines_assignments_witness:
  "map wc_conn_id (cs_calls (client_loop sample_events (client_start sample_client))) = [5] \<and>
    get_local_addr ''a'' (cs_manager (client_loop sample_events (client_start sample_client))) = None"
proof -
  obtain T calls where r: "run_spec (controls sample_events) Map.empty = (T, calls)"
    by (cases "run_spec (controls sample_events) Map.empty")
  then have "T ''a'' = None" "map wc_conn_id calls = [5]"
    by (auto simp: sample_events_def sample_assign_def)
  with client_refines_assignments [OF r, of sample_client] show ?thesis by simp
qed

text \<open>
  The client never gives up and never hammers the server: every attempt is followed by another one
  after at least one and at most sixty seconds; after a session that was authenticated the delay starts
  again at one second and doubles with each failed attempt up to sixty.
\<close>
theorem reconnect_delays:
  assumes "map (\<lambda>C. fst (connect_and_run L C cfg) = Inr ()) Cs = oks @ True # replicate k False"
    and "j \<le> k"
  shows "length (client_main L cfg Cs) = length Cs \<and>
    (\<forall>d \<in> set (client_main L cfg Cs). 1 \<le> d \<and> d \<le> 60) \<and>
    client_main L cfg Cs ! (length oks + j) = min (2 ^ j) 60"
proof -
  have "client_main L cfg Cs = retry_delays 1 (oks @ True # replicate k False)"
    by (simp add: client_main_def assms(1))
  moreover have "length (client_main L cfg Cs) = length Cs" by (simp add: client_main_def)
  ultimately show ?thesis
    using retry_delays_after_ok [OF assms(2), of 1 oks]
      retry_delays_bounds [of 1 _ "oks @ True # replicate k False"] by auto
qed

definition sample_outcome :: "bool \<Rightarrow> connect_outcomes" where
  "sample_outcome granted =
     \<lparr>co_connect = True, co_handshake = True, co_auth_sent = True,
      co_first = First (Control (AuthResp
        \<lparr>as_success = granted, as_message = [], as_server_version = []\<rparr>)),
      co_events = [Server_Error]\<rparr>"

lemma sample_outcome_ok: "fst (connect_and_run sample_tls (sample_outcome g) sample_client) = Inr () \<longleftrightarrow> g"
  unfolding connect_ok_iff
  by (simp add: sample_outcome_def build_client_tls_config_def resolve_server_name_def sample_client_def
      sample_tls_def)

theorem reconnect_delays_witness:
  "client_main sample_tls sample_client
      (sample_outcome False # sample_outcome True # replicate 7 (sample_outcome False)) ! 7 = 60"
proof -
  let ?Cs = "sample_outcome False # sample_outcome True # replicate 7 (sample_outcome False)"
  have "map (\<lambda>C. fst (connect_and_run sample_tls C sample_client) = Inr ()) ?Cs =
      [False] @ True # replicate 7 False"
    by (simp only: list.map map_replicate sample_outcome_ok) simp
  from reconnect_delays [OF this, of 6] show ?thesis by simp
qed

text \<open>A client the server refuses tries again ever more slowly: the answer of the server meets the client.\<close>

lemma refused_client_backs_off:
  assumes "list_all (\<lambda>C. co_first C =
      First (Control (AuthResp (auth_answer texts (authenticate U srv (client_auth_request cfg)))))) Cs"
    and "cl_token cfg \<noteq> srv_token (cfg_server srv)" and "j < length Cs"
  shows "client_main L cfg Cs ! j = min (2 ^ j) 60"
proof -
  have "\<not> as_success (auth_answer texts (authenticate U srv (client_auth_request cfg)))"
    using assms(2)
    by (simp add: auth_answer_def authenticate_def constant_time_token_eq_iff client_auth_request_def)
  then have "fst (connect_and_run L C cfg) \<noteq> Inr ()" if "C \<in> set Cs" for C
    using assms(1) that by (auto simp: connect_ok_iff list_all_iff)
  then have "map (\<lambda>C. fst (connect_and_run L C cfg) = Inr ()) Cs = replicate (length Cs) False"
    by (intro nth_equalityI) auto
  then show ?thesis
    using retry_delays_failures [of 1 j "length Cs"] assms(3) by (simp add: client_main_def)
qed

end
