(* ===== verification/Udp_Table.thy ===== *)
theory Udp_Table
  imports Net_Addr
begin

text \<open>
  \<^verbatim>\<open>crates/server/src/proxy_listener.rs\<close>, UDP: the two tables of a UDP listener. Every received
  datagram is handled by a task of its own, which finds the session of its source or opens one; the
  tasks, the session workers and the rest of the server interleave between the locked sections.
  What travels over a session's work connection is in \<open>Bridge\<close>, how the connection is found in \<open>Work_Conn\<close>.
\<close>

section \<open>Tables\<close>

text \<open>
  Where a task stands: it has the datagram; it found a session; it found the session's channel closed;
  it found none; it has entered a new id; it has asked the client and waits; it was given a work connection and
  has stored the channel's sender; it is done.
\<close>

datatype packet_phase =
    Arrived | Known u64 | Stale u64 | New | Entered u64 | Asked u64 | Connected u64 | Finished

record packet_task =
  pk_source :: socket_addr
  pk_phase :: packet_phase

text \<open>The worker of a session: in its loop, after the loop, and with the source removed.\<close>

datatype worker_phase = Looping | Loop_Over | Source_Removed

text \<open>
  \<open>us_sessions\<close> and \<open>us_senders\<close> are the two hash maps (a sender is known by its id), \<open>us_open\<close> the channels whose
  receiver exists, \<open>us_channel\<close> the datagrams (by task) put into a channel so far, \<open>us_peer\<close> the address the
  answers of a session go to.
\<close>

record udp_state =
  us_allocated :: nat
  us_sessions :: "socket_addr \<Rightarrow> u64 option"
  us_senders :: "u64 set"
  us_open :: "u64 set"
  us_channel :: "u64 \<Rightarrow> nat list"
  us_peer :: "u64 \<Rightarrow> socket_addr option"
  us_tasks :: "nat \<Rightarrow> packet_task option"
  us_workers :: "u64 \<Rightarrow> worker_phase option"

definition udp_new :: "nat \<Rightarrow> udp_state" where
  "udp_new n =
     \<lparr>us_allocated = n, us_sessions = Map.empty, us_senders = {}, us_open = {}, us_channel = (\<lambda>_. []),
      us_peer = Map.empty, us_tasks = Map.empty, us_workers = Map.empty\<rparr>"

definition set_packet :: "nat \<Rightarrow> packet_task \<Rightarrow> packet_phase \<Rightarrow> udp_state \<Rightarrow> udp_state" where
  "set_packet k p ph s = s\<lparr>us_tasks := (us_tasks s)(k \<mapsto> p\<lparr>pk_phase := ph\<rparr>)\<rparr>"

definition forget_source :: "socket_addr \<Rightarrow> udp_state \<Rightarrow> udp_state" where
  "forget_source a s = s\<lparr>us_sessions := (us_sessions s)(a := None)\<rparr>"

definition forget_sender :: "u64 \<Rightarrow> udp_state \<Rightarrow> udp_state" where
  "forget_sender i s = s\<lparr>us_senders := us_senders s - {i}\<rparr>"

definition put_packet :: "u64 \<Rightarrow> nat \<Rightarrow> udp_state \<Rightarrow> udp_state" where
  "put_packet i k s = s\<lparr>us_channel := (us_channel s)(i := us_channel s i @ [k])\<rparr>"

section \<open>Steps\<close>

text \<open>
  \<^verbatim>\<open>handle_udp_packet\<close>. \<open>ok\<close> is the answer of \<^verbatim>\<open>send_to\<close>, and of the wait for the work
  connection. The task that stores the sender holds the receiver until it has sent its own datagram and
  started the worker, so this send does not fail.
\<close>

definition packet_step :: "bool \<Rightarrow> nat \<Rightarrow> packet_task \<Rightarrow> udp_state \<Rightarrow> udp_state" where
  "packet_step ok k p s =
     (case pk_phase p of
        Arrived \<Rightarrow>
          (case us_sessions s (pk_source p) of
             Some i \<Rightarrow> set_packet k p (Known i) s
           | None \<Rightarrow> set_packet k p New s)
      | Known i \<Rightarrow>
          if i \<in> us_senders s then
            if i \<in> us_open s then put_packet i k (set_packet k p Finished s)
            else set_packet k p (Stale i) s
          else set_packet k p Finished s
      | Stale i \<Rightarrow> forget_sender i (forget_source (pk_source p) (set_packet k p Finished s))
      | New \<Rightarrow>
          let i = of_nat (Suc (us_allocated s)) in
          set_packet k p (Entered i)
            (s\<lparr>us_allocated := Suc (us_allocated s),
               us_sessions := (us_sessions s)(pk_source p \<mapsto> i),
               us_peer := (us_peer s)(i \<mapsto> pk_source p)\<rparr>)
      | Entered i \<Rightarrow>
          if ok then set_packet k p (Asked i) s
          else forget_source (pk_source p) (set_packet k p Finished s)
      | Asked i \<Rightarrow>
          if ok then
            set_packet k p (Connected i)
              (s\<lparr>us_senders := insert i (us_senders s), us_open := insert i (us_open s)\<rparr>)
          else forget_source (pk_source p) (set_packet k p Finished s)
      | Connected i \<Rightarrow>
          (put_packet i k (set_packet k p Finished s))\<lparr>us_workers := (us_workers s)(i \<mapsto> Looping)\<rparr>
      | Finished \<Rightarrow> s)"

text \<open>The end of \<^verbatim>\<open>udp_session_worker\<close>, which drops the receiver, and the two removals after it.\<close>

definition session_end_step :: "u64 \<Rightarrow> worker_phase \<Rightarrow> udp_state \<Rightarrow> udp_state" where
  "session_end_step i w s =
     (case w of
        Looping \<Rightarrow> s\<lparr>us_open := us_open s - {i}, us_workers := (us_workers s)(i \<mapsto> Loop_Over)\<rparr>
      | Loop_Over \<Rightarrow>
          (case us_peer s i of Some a \<Rightarrow> forget_source a s | None \<Rightarrow> s)
            \<lparr>us_workers := (us_workers s)(i \<mapsto> Source_Removed)\<rparr>
      | Source_Removed \<Rightarrow> forget_sender i (s\<lparr>us_workers := (us_workers s)(i := None)\<rparr>))"

text \<open>A datagram is received, a task or a worker goes on, or another listener takes an id.\<close>

inductive udp_step :: "udp_state \<Rightarrow> udp_state \<Rightarrow> bool" where
  received: "us_tasks s k = None \<Longrightarrow>
     udp_step s (s\<lparr>us_tasks := (us_tasks s)(k \<mapsto> \<lparr>pk_source = a, pk_phase = Arrived\<rparr>)\<rparr>)"
| packet: "us_tasks s k = Some p \<Longrightarrow> udp_step s (packet_step ok k p s)"
| worker: "us_workers s i = Some w \<Longrightarrow> udp_step s (session_end_step i w s)"
| id_taken: "udp_step s (s\<lparr>us_allocated := Suc (us_allocated s)\<rparr>)"

inductive_cases udp_stepE [consumes 1, case_names received packet worker id_taken]: "udp_step s t"

section \<open>Invariant\<close>

fun phase_id :: "packet_phase \<Rightarrow> u64 option" where
  "phase_id (Known i) = Some i"
| "phase_id (Stale i) = Some i"
| "phase_id (Entered i) = Some i"
| "phase_id (Asked i) = Some i"
| "phase_id (Connected i) = Some i"
| "phase_id _ = None"

text \<open>Ids belong to the source they were taken for, wherever they are kept.\<close>

definition ids_of_source :: "udp_state \<Rightarrow> bool" where
  "ids_of_source s \<longleftrightarrow>
     (\<forall>a i. us_sessions s a = Some i \<longrightarrow> us_peer s i = Some a) \<and>
     (\<forall>k p i. us_tasks s k = Some p \<longrightarrow> phase_id (pk_phase p) = Some i \<longrightarrow>
        us_peer s i = Some (pk_source p)) \<and>
     (\<forall>i a. us_peer s i = Some a \<longrightarrow> unat i \<le> us_allocated s)"

text \<open>A datagram in a channel is its task's, done, and of the session's source; it is in one place only.\<close>

definition channels_ok :: "udp_state \<Rightarrow> bool" where
  "channels_ok s \<longleftrightarrow>
     (\<forall>i k. k \<in> set (us_channel s i) \<longrightarrow>
        (\<exists>p. us_tasks s k = Some p \<and> pk_phase p = Finished \<and> us_peer s i = Some (pk_source p))) \<and>
     (\<forall>i. distinct (us_channel s i)) \<and>
     (\<forall>i j k. k \<in> set (us_channel s i) \<longrightarrow> k \<in> set (us_channel s j) \<longrightarrow> i = j)"

definition udp_ok :: "udp_state \<Rightarrow> bool" where
  "udp_ok s \<longleftrightarrow> ids_of_source s \<and> channels_ok s"

definition udp_inv :: "udp_state \<Rightarrow> bool" where
  "udp_inv s \<longleftrightarrow> (us_allocated s < 2 ^ 64 - 1 \<longrightarrow> udp_ok s)"

lemmas packet_defs = set_packet_def forget_source_def forget_sender_def put_packet_def

lemma udp_ok_new: "udp_ok (udp_new n)"
  by (simp add: udp_ok_def ids_of_source_def channels_ok_def udp_new_def)

text \<open>Moving a task without touching sessions or peers.\<close>

lemma ids_set_packet:
  assumes "ids_of_source s" "\<And>i. phase_id ph = Some i \<Longrightarrow> us_peer s i = Some (pk_source p)"
  shows "ids_of_source (set_packet k p ph s)"
  using assms by (auto simp: ids_of_source_def set_packet_def)

lemma ids_forget [simp]:
  "ids_of_source s \<Longrightarrow> ids_of_source (forget_source a s)"
  "ids_of_source (forget_sender i s) = ids_of_source s"
  "ids_of_source (put_packet i k s) = ids_of_source s"
  by (auto simp: ids_of_source_def packet_defs)

lemma channels_set_packet:
  assumes "channels_ok s" "us_tasks s k = Some p" "pk_phase p \<noteq> Finished"
  shows "channels_ok (set_packet k p ph s)"
  using assms unfolding channels_ok_def set_packet_def by fastforce

lemma channels_forget [simp]:
  "channels_ok (forget_source a s) = channels_ok s" "channels_ok (forget_sender i s) = channels_ok s"
  by (simp_all add: channels_ok_def packet_defs)

lemma channels_put:
  assumes "channels_ok s" "us_tasks s k = Some p" "pk_phase p \<noteq> Finished" "us_peer s i = Some (pk_source p)"
  shows "channels_ok (put_packet i k (set_packet k p Finished s))"
proof -
  have new: "k \<notin> set (us_channel s j)" for j
    using assms(1-3) unfolding channels_ok_def by fastforce
  let ?s = "set_packet k p Finished s"
  have ok: "channels_ok ?s" by (rule channels_set_packet [OF assms(1-3)])
  have put: "us_channel (put_packet i k ?s) j = (if j = i then us_channel s i @ [k] else us_channel s j)"
    "us_tasks (put_packet i k ?s) = us_tasks ?s" "us_peer (put_packet i k ?s) = us_peer s" for j
    by (simp_all add: packet_defs)
  have mem: "l = k \<and> j = i \<or> l \<in> set (us_channel s j)" if "l \<in> set (us_channel (put_packet i k ?s) j)" for j l
    using that unfolding put by (auto split: if_splits)
  have same: "us_channel ?s = us_channel s" "us_peer ?s = us_peer s" by (simp_all add: packet_defs)
  show ?thesis
    unfolding channels_ok_def
  proof (intro conjI allI impI)
    fix j l assume "l \<in> set (us_channel (put_packet i k ?s) j)"
    with mem consider "l = k" "j = i" | "l \<in> set (us_channel s j)" by blast
    then show "\<exists>q. us_tasks (put_packet i k ?s) l = Some q \<and> pk_phase q = Finished \<and>
        us_peer (put_packet i k ?s) j = Some (pk_source q)"
    proof cases
      case 1
      with assms(4) show ?thesis by (simp add: packet_defs)
    next
      case 2
      with ok show ?thesis unfolding put(2,3) channels_ok_def same by blast
    qed
  next
    show "distinct (us_channel (put_packet i k ?s) j)" for j
      using ok new unfolding put channels_ok_def same by simp
  next
    fix j j' l assume "l \<in> set (us_channel (put_packet i k ?s) j)" "l \<in> set (us_channel (put_packet i k ?s) j')"
    with mem new have "l = k \<and> j = i \<and> j' = i \<or> l \<in> set (us_channel s j) \<and> l \<in> set (us_channel s j')" by blast
    with ok show "j = j'" unfolding channels_ok_def same by blast
  qed
qed

lemma packet_step_ok:
  assumes "udp_ok s" "us_tasks s k = Some p" "us_allocated s < 2 ^ 64 - 1"
  shows "udp_ok (packet_step ok k p s)"
proof -
  have ids: "ids_of_source s" and ch: "channels_ok s" using assms(1) by (simp_all add: udp_ok_def)
  have pid: "us_peer s i = Some (pk_source p)" if "phase_id (pk_phase p) = Some i" for i
    using ids assms(2) that unfolding ids_of_source_def by blast
  show ?thesis
  proof (cases "pk_phase p")
    case Arrived
    have "us_peer s i = Some (pk_source p)" if "us_sessions s (pk_source p) = Some i" for i
      using ids that unfolding ids_of_source_def by blast
    with Arrived ids ch assms(2) show ?thesis
      by (auto simp: packet_step_def udp_ok_def intro!: ids_forget(1) ids_set_packet channels_set_packet
          split: option.splits)
  next
    case New
    let ?i = "of_nat (Suc (us_allocated s)) :: u64"
    have n: "unat ?i = Suc (us_allocated s)" using assms(3) by (simp only: unat_of_nat) simp
    have fresh: "us_peer s ?i = None"
    proof (rule ccontr)
      assume "us_peer s ?i \<noteq> None"
      then have "unat ?i \<le> us_allocated s" using ids unfolding ids_of_source_def by blast
      with n show False by simp
    qed
    let ?s = "s\<lparr>us_allocated := Suc (us_allocated s),
               us_sessions := (us_sessions s)(pk_source p \<mapsto> ?i), us_peer := (us_peer s)(?i \<mapsto> pk_source p)\<rparr>"
    have old: "us_peer ?s j = Some a" if "us_peer s j = Some a" for j a
      using that fresh by auto
    have "ids_of_source ?s"
      unfolding ids_of_source_def
    proof (intro conjI allI impI)
      show "us_peer ?s j = Some a" if "us_sessions ?s a = Some j" for a j
      proof (cases "a = pk_source p")
        case False
        with that have "us_sessions s a = Some j" by simp
        with ids have "us_peer s j = Some a" unfolding ids_of_source_def by blast
        then show ?thesis by (rule old)
      qed (use that in simp)
      show "us_peer ?s j = Some (pk_source q)" if "us_tasks ?s l = Some q" "phase_id (pk_phase q) = Some j" for l q j
        using that ids by (intro old) (auto simp: ids_of_source_def)
      show "unat j \<le> us_allocated ?s" if "us_peer ?s j = Some a" for j a
        using that ids n unfolding ids_of_source_def by (auto split: if_splits intro: le_SucI)
    qed
    moreover have "channels_ok ?s"
      using ch fresh unfolding channels_ok_def by fastforce
    ultimately show ?thesis
      using New assms(2) ids_set_packet [of ?s "Entered ?i" p k] channels_set_packet [of ?s k p "Entered ?i"]
      by (simp add: packet_step_def udp_ok_def Let_def)
  next
    case (Asked i)
    have "ids_of_source (s\<lparr>us_senders := a, us_open := b\<rparr>) = ids_of_source s"
      "channels_ok (s\<lparr>us_senders := a, us_open := b\<rparr>) = channels_ok s" for a b
      by (simp_all add: ids_of_source_def channels_ok_def)
    with Asked ids ch assms(2) pid show ?thesis
      by (auto simp: packet_step_def udp_ok_def intro!: ids_forget(1) ids_set_packet channels_set_packet)
  next
    case (Connected i)
    have "ids_of_source (t\<lparr>us_workers := b\<rparr>) = ids_of_source t"
      "channels_ok (t\<lparr>us_workers := b\<rparr>) = channels_ok t" for t b
      by (simp_all add: ids_of_source_def channels_ok_def)
    with Connected ids ch assms(2) pid show ?thesis
      by (auto simp: packet_step_def udp_ok_def intro!: ids_set_packet channels_put)
  qed (use ids ch assms pid in \<open>auto simp: packet_step_def udp_ok_def
      intro!: ids_forget(1) ids_set_packet channels_set_packet channels_put\<close>)
qed

lemma session_end_ok:
  assumes "udp_ok s"
  shows "udp_ok (session_end_step i w s)"
proof -
  have "ids_of_source (t\<lparr>us_workers := b\<rparr>) = ids_of_source t"
    "channels_ok (t\<lparr>us_workers := b\<rparr>) = channels_ok t"
    "ids_of_source (t\<lparr>us_open := a, us_workers := b\<rparr>) = ids_of_source t"
    "channels_ok (t\<lparr>us_open := a, us_workers := b\<rparr>) = channels_ok t" for t a b
    by (simp_all add: ids_of_source_def channels_ok_def)
  with assms show ?thesis
    by (auto simp: session_end_step_def udp_ok_def split: worker_phase.splits option.splits)
qed

lemma packet_step_allocated: "us_allocated s \<le> us_allocated (packet_step ok k p s)"
  by (simp add: packet_step_def packet_defs Let_def split: packet_phase.splits option.splits)

lemma udp_step_inv:
  assumes "udp_inv s" "udp_step s t"
  shows "udp_inv t"
  unfolding udp_inv_def
proof
  assume b: "us_allocated t < 2 ^ 64 - 1"
  have le: "us_allocated s \<le> us_allocated t"
    using assms(2)
    by (cases rule: udp_stepE) (use packet_step_allocated in \<open>simp_all add: session_end_step_def
        packet_defs split: worker_phase.splits option.splits\<close>)
  with b assms(1) have ok: "udp_ok s" and bs: "us_allocated s < 2 ^ 64 - 1" by (simp_all add: udp_inv_def)
  from assms(2) show "udp_ok t"
  proof (cases rule: udp_stepE)
    case (received k a)
    with ok show ?thesis
      unfolding udp_ok_def ids_of_source_def channels_ok_def by (fastforce split: if_splits)
  next
    case (packet k p ok')
    with packet_step_ok [OF ok packet(2) bs] show ?thesis by simp
  next
    case (worker i w)
    with session_end_ok [OF ok] show ?thesis by simp
  next
    case id_taken
    with ok show ?thesis
      unfolding udp_ok_def ids_of_source_def channels_ok_def by (auto intro: le_SucI)
  qed
qed

interpretation udp: transition_system "\<lambda>s. \<exists>n. s = udp_new n" udp_step udp_inv
  by unfold_locales (use udp_ok_new udp_step_inv in \<open>auto simp: udp_inv_def\<close>)

section \<open>Concrete runs\<close>

definition receive :: "nat \<Rightarrow> socket_addr \<Rightarrow> udp_state \<Rightarrow> udp_state" where
  "receive k a s = s\<lparr>us_tasks := (us_tasks s)(k \<mapsto> \<lparr>pk_source = a, pk_phase = Arrived\<rparr>)\<rparr>"

definition drive :: "bool \<Rightarrow> nat \<Rightarrow> udp_state \<Rightarrow> udp_state" where
  "drive ok k s = packet_step ok k (the (us_tasks s k)) s"

definition end_worker :: "u64 \<Rightarrow> udp_state \<Rightarrow> udp_state" where
  "end_worker i s = session_end_step i (the (us_workers s i)) s"

lemma run_receive:
  "udp_step\<^sup>*\<^sup>* s0 s \<Longrightarrow> us_tasks s k = None \<Longrightarrow> udp_step\<^sup>*\<^sup>* s0 (receive k a s)"
  unfolding receive_def by (erule rtranclp.rtrancl_into_rtrancl) (erule udp_step.received)

lemma run_drive:
  "udp_step\<^sup>*\<^sup>* s0 s \<Longrightarrow> us_tasks s k = Some p \<Longrightarrow> udp_step\<^sup>*\<^sup>* s0 (drive ok k s)"
  by (simp add: drive_def) (erule rtranclp.rtrancl_into_rtrancl, erule udp_step.packet)

lemma run_end_worker:
  "udp_step\<^sup>*\<^sup>* s0 s \<Longrightarrow> us_workers s i = Some w \<Longrightarrow> udp_step\<^sup>*\<^sup>* s0 (end_worker i s)"
  by (simp add: end_worker_def) (erule rtranclp.rtrancl_into_rtrancl, erule udp_step.worker)

lemmas run_defs = receive_def drive_def end_worker_def packet_step_def session_end_step_def packet_defs
  udp_new_def Let_def

section \<open>A datagram that is lost\<close>

definition lost :: "nat \<Rightarrow> udp_state \<Rightarrow> bool" where
  "lost k s \<longleftrightarrow>
     (\<exists>p. us_tasks s k = Some p \<and> pk_phase p = Finished) \<and> (\<forall>i. k \<notin> set (us_channel s i))"

lemma packet_step_other:
  assumes "j \<noteq> k"
  shows "us_tasks (packet_step ok k p s) j = us_tasks s j"
    and "j \<in> set (us_channel (packet_step ok k p s) i) \<longleftrightarrow> j \<in> set (us_channel s i)"
  using assms
  by (auto simp: packet_step_def packet_defs Let_def split: packet_phase.splits option.splits)

lemma lost_step:
  assumes "lost k s" "udp_step s t"
  shows "lost k t"
  using assms(2)
proof (cases rule: udp_stepE)
  case (received j a)
  then show ?thesis using assms(1) by (auto simp: lost_def)
next
  case (packet j p ok)
  show ?thesis
  proof (cases "j = k")
    case True
    with packet assms(1) have "pk_phase p = Finished" by (auto simp: lost_def)
    with packet assms(1) show ?thesis by (simp add: packet_step_def)
  next
    case False
    then show ?thesis
      using assms(1) packet_step_other [of k j ok p s] by (simp add: packet(1) lost_def)
  qed
next
  case (worker i w)
  then show ?thesis
    using assms(1) by (auto simp: lost_def session_end_step_def packet_defs split: worker_phase.splits option.splits)
next
  case id_taken
  then show ?thesis using assms(1) by (simp add: lost_def)
qed

lemma lost_steps: "udp_step\<^sup>*\<^sup>* s t \<Longrightarrow> lost k s \<Longrightarrow> lost k t"
  by (induction rule: rtranclp_induct) (auto intro: lost_step)

section \<open>Properties\<close>

text \<open>
  C10. Users of a UDP rule are kept apart: whatever the order in which the tasks of the datagrams and the
  sessions run, a datagram is put into at most one session's channel, at most once, and only into a
  session whose answers go to the address the datagram came from; and the table gives each address a
  session of its own.
\<close>
theorem udp_sources_separate:
  assumes "udp_step\<^sup>*\<^sup>* (udp_new n) s" and "us_allocated s < 2 ^ 64 - 1"
  shows "distinct (us_channel s i) \<and>
    (k \<in> set (us_channel s i) \<longrightarrow> us_peer s i = map_option pk_source (us_tasks s k)) \<and>
    (k \<in> set (us_channel s i) \<and> k \<in> set (us_channel s j) \<longrightarrow> i = j) \<and>
    (us_sessions s a = Some i \<longrightarrow> us_peer s i = Some a)"
proof -
  have "udp_inv s" by (rule udp.inv_reachable [OF _ assms(1)]) blast
  with assms(2) have ok: "ids_of_source s" "channels_ok s" by (simp_all add: udp_inv_def udp_ok_def)
  have "us_peer s i = map_option pk_source (us_tasks s k)" if k: "k \<in> set (us_channel s i)"
  proof -
    from k ok(2) obtain p where "us_tasks s k = Some p" "us_peer s i = Some (pk_source p)"
      unfolding channels_ok_def by blast
    then show ?thesis by simp
  qed
  with ok show ?thesis unfolding ids_of_source_def channels_ok_def by blast
qed

definition sample_source :: socket_addr where
  "sample_source = SockV4 [10, 0, 0, 1] 4000"

definition sample_session :: udp_state where
  "sample_session =
     drive True 0 (drive True 0 (drive True 0 (drive True 0 (drive True 0
       (receive 0 sample_source (udp_new 0))))))"

lemma sample_session_run: "udp_step\<^sup>*\<^sup>* (udp_new 0) sample_session"
  unfolding sample_session_def
  by (intro run_drive run_receive rtranclp.rtrancl_refl) (simp_all add: run_defs)

theorem udp_sources_separate_witness:
  "us_channel sample_session 1 = [0] \<and> us_peer sample_session 1 = Some sample_source"
proof -
  have c: "us_channel sample_session 1 = [0]" "us_allocated sample_session = 1"
    "us_tasks sample_session 0 = Some \<lparr>pk_source = sample_source, pk_phase = Finished\<rparr>"
    by (simp_all add: sample_session_def run_defs)
  from udp_sources_separate [OF sample_session_run, of 1 0] c show ?thesis by simp
qed

text \<open>
  Datagrams that follow the first one too soon are lost: while a session is being set up (its id is in the
  table, its work connection not yet there) every datagram from the same address whose task looks the
  session up is dropped, and no later step of the system ever puts it into a channel.
\<close>
theorem setup_datagrams_lost:
  assumes "udp_step\<^sup>*\<^sup>* (udp_new n) s" and "us_allocated s < 2 ^ 64 - 1"
    and "us_tasks s k = Some p" and "pk_phase p = Arrived"
    and "us_sessions s (pk_source p) = Some i" and "i \<notin> us_senders s"
    and "udp_step\<^sup>*\<^sup>* (drive ok' k (drive ok k s)) t"
  shows "k \<notin> set (us_channel t j)"
proof -
  have "udp_inv s" by (rule udp.inv_reachable [OF _ assms(1)]) blast
  with assms(2) have "channels_ok s" by (simp add: udp_inv_def udp_ok_def)
  with assms(3,4) have "k \<notin> set (us_channel s i)" for i unfolding channels_ok_def by fastforce
  with assms(3-6) have "lost k (drive ok' k (drive ok k s))"
    by (simp add: lost_def run_defs)
  with assms(7) have "lost k t" by (rule lost_steps)
  then show ?thesis by (simp add: lost_def)
qed

text \<open>The second datagram comes while the first one's task waits for the work connection.\<close>

definition sample_waiting :: udp_state where
  "sample_waiting =
     receive 1 sample_source (drive True 0 (drive True 0 (drive True 0
       (receive 0 sample_source (udp_new 0)))))"

lemma sample_waiting_run: "udp_step\<^sup>*\<^sup>* (udp_new 0) sample_waiting"
  unfolding sample_waiting_def
  by (intro run_drive run_receive rtranclp.rtrancl_refl) (simp_all add: run_defs)

theorem setup_datagrams_lost_witness:
  "1 \<notin> set (us_channel (drive True 1 (drive True 1 sample_waiting)) 1)"
proof -
  have "us_allocated sample_waiting < 2 ^ 64 - 1" by (simp add: sample_waiting_def run_defs)
  moreover have "us_tasks sample_waiting 1 = Some \<lparr>pk_source = sample_source, pk_phase = Arrived\<rparr>"
    "us_sessions sample_waiting sample_source = Some 1" "1 \<notin> us_senders sample_waiting"
    by (simp_all add: sample_waiting_def run_defs)
  ultimately show ?thesis
    using setup_datagrams_lost [OF sample_waiting_run _ _ _ _ _ rtranclp.rtrancl_refl, of 1] by simp
qed

text \<open>
  Two datagrams of one address that are looked up before either has entered an id open two sessions;
  when the first of them ends it takes the second one's entry away although that session still runs.
\<close>

definition sample_race :: udp_state where
  "sample_race =
     end_worker 1 (end_worker 1
       (drive True 1 (drive True 1 (drive True 1 (drive True 1
       (drive True 0 (drive True 0 (drive True 0 (drive True 0
       (drive True 1 (drive True 0
       (receive 1 sample_source (receive 0 sample_source (udp_new 0))))))))))))))"

lemma raced_session_forgotten:
  "udp_step\<^sup>*\<^sup>* (udp_new 0) sample_race \<and> us_workers sample_race 2 = Some Looping \<and>
   us_peer sample_race 2 = Some sample_source \<and> us_sessions sample_race sample_source = None"
proof
  show "udp_step\<^sup>*\<^sup>* (udp_new 0) sample_race"
    unfolding sample_race_def
    by (intro run_end_worker run_drive run_receive rtranclp.rtrancl_refl) (simp_all add: run_defs)
qed (simp add: sample_race_def run_defs)

end
