(* ===== verification/Client_Mirror.thy ===== *)
theory Client_Mirror
  imports Server_Props Connector
begin

text \<open>
  Server and client together: the rule table of the server, the channel of a client's session, the
  messages on the way and the tables of the client. Whatever is changed through the HTTP interface
  reaches the client; once nothing is on the way, the client holds exactly its rules.
  The two steps of the session start, which the handler takes without a lock between them, are
  steps of their own.
\<close>

section \<open>Messages replayed on a table\<close>

type_synonym table = "string \<Rightarrow> server_assign_proxy_request option"

definition replay :: "message list \<Rightarrow> table \<Rightarrow> table" where
  "replay ms T = fst (run_spec (controls (map From_Server ms)) T)"

lemma replay_simps [simp]:
  "replay [] T = T" "replay (Control c # ms) T = replay ms (assign_spec c T)"
  "replay (Data d # ms) T = replay ms T"
  by (simp_all add: replay_def Let_def split: prod.splits)

lemma replay_append [simp]: "replay (ms @ ns) T = replay ns (replay ms T)"
proof (induction ms arbitrary: T)
  case (Cons m ms)
  then show ?case by (cases m) simp_all
qed simp

text \<open>What is replayed decides on a name alone or not at all, so that replaying twice changes nothing.\<close>

lemma assign_spec_cases: "(\<forall>T. assign_spec c T n = T n) \<or> (\<exists>v. \<forall>T. assign_spec c T n = v)"
  by (cases c) auto

lemma replay_cases: "(\<forall>T. replay ms T n = T n) \<or> (\<exists>v. \<forall>T. replay ms T n = v)"
proof (induction ms)
  case (Cons m ms)
  show ?case
  proof (cases m)
    case (Control c)
    with Cons assign_spec_cases [of c n] show ?thesis by auto
  qed (use Cons in simp)
qed simp

lemma replay_twice: "replay ms (replay ms T) = replay ms T"
proof (rule ext)
  show "replay ms (replay ms T) n = replay ms T n" for n
    using replay_cases [of ms n] by auto
qed

text \<open>The client table a rule table asks for.\<close>

definition expected :: "string \<Rightarrow> rule_map \<Rightarrow> table" where
  "expected cid m n =
     (case m n of Some r \<Rightarrow> if r_client_id r = cid then Some (assign_of_rule r) else None | None \<Rightarrow> None)"

lemma replay_pushed:
  "distinct (map r_name rs) \<Longrightarrow>
   replay (map (\<lambda>r. Control (ServerAssignProxy (assign_of_rule r))) rs) T =
     T ++ map_of (map (\<lambda>r. (r_name r, assign_of_rule r)) rs)"
proof (induction rs arbitrary: T)
  case (Cons r rs)
  let ?m = "map_of (map (\<lambda>r. (r_name r, assign_of_rule r)) rs)"
  have n: "sap_name (assign_of_rule r) = r_name r" by (simp add: assign_of_rule_def)
  have "?m (r_name r) = None" using Cons.prems by (auto simp: map_of_eq_None_iff)
  then have "T(r_name r \<mapsto> assign_of_rule r) ++ ?m = T ++ (?m(r_name r \<mapsto> assign_of_rule r))"
    by (auto simp: fun_eq_iff map_add_def split: option.splits)
  moreover have "distinct (map r_name rs)" using Cons.prems by simp
  ultimately show ?case
    using Cons.IH by (simp only: list.map replay_simps assign_spec.simps n map_of.simps fst_conv snd_conv)
qed simp

lemma expected_pushed:
  assumes "distinct (row_names pm)"
  shows "map_of (map (\<lambda>r. (r_name r, assign_of_rule r))
      (filter (\<lambda>r. r_client_id r = cid) (map (rule_of_row V) (pool pm)))) = expected cid (lookup_rule V pm)"
proof (rule ext)
  fix n
  have "map_of (map (\<lambda>r. (r_name r, assign_of_rule r))
      (filter (\<lambda>r. r_client_id r = cid) (map (rule_of_row V) rows))) n =
    expected cid (\<lambda>n. map_option (rule_of_row V) (find (\<lambda>q. row_name q = n) rows)) n"
    if "distinct (map row_name rows)" for rows
    using that
  proof (induction rows)
    case (Cons q rows)
    have "r_name (rule_of_row V q) = row_name q" by (simp add: rule_of_row_def)
    moreover have "find (\<lambda>p. row_name p = n) rows = None" if "row_name q = n"
      using that Cons.prems by (auto simp: find_name_None)
    ultimately show ?case using Cons by (auto simp: expected_def)
  qed (simp add: expected_def)
  with assms show "map_of (map (\<lambda>r. (r_name r, assign_of_rule r))
      (filter (\<lambda>r. r_client_id r = cid) (map (rule_of_row V) (pool pm)))) n =
    expected cid (lookup_rule V pm) n"
    by (simp add: row_names_def expected_def lookup_rule_def query_rule_def)
qed

text \<open>What the session start writes gives a fresh client its table.\<close>

lemma replay_session_start:
  assumes "pm_inv pm"
  shows "replay (push_rules (\<lambda>_. True) 0 (map pe_rule (list_proxies_by_client V False cid pm))) Map.empty =
    expected cid (lookup_rule V pm)"
proof -
  let ?rs = "filter (\<lambda>r. r_client_id r = cid) (map (rule_of_row V) (pool pm))"
  have d: "distinct (row_names pm)" using assms by (simp add: pm_inv_def)
  then have "distinct (map r_name (map (rule_of_row V) (pool pm)))"
    by (simp add: row_names_def rule_of_row_def comp_def)
  then have "distinct (map r_name ?rs)" by (rule distinct_map_filter)
  then show ?thesis
    using replay_pushed [of ?rs Map.empty] expected_pushed [OF d, where V = V and cid = cid]
    by (simp only: push_rules_all rules_of_client map_add_empty empty_map_add)
qed

section \<open>One call of the HTTP interface\<close>

text \<open>Every control message has a JSON text (all fields are strings, numbers, booleans and lists).\<close>

definition serde_total :: "serde \<Rightarrow> bool" where
  "serde_total J \<longleftrightarrow> (\<forall>m. ctrl_to_string J m \<noteq> None)"

text \<open>An update that does not take a rule away from the client.\<close>

fun keeps_client :: "string \<Rightarrow> api_call \<Rightarrow> rule_map \<Rightarrow> bool" where
  "keeps_client cid (Update n payload) m =
     (case m n of
        Some r \<Rightarrow> r_client_id r = cid \<longrightarrow> r_client_id (merge_rule n payload r) = cid
      | None \<Rightarrow> True)"
| "keeps_client cid _ m = True"

lemma expected_set:
  assumes "r_name r = n" "\<And>r'. m n = Some r' \<Longrightarrow> r_client_id r' = cid \<Longrightarrow> r_client_id r = cid"
  shows "expected cid (m(n \<mapsto> r)) =
    (if r_client_id r = cid then assign_spec (ServerAssignProxy (assign_of_rule r)) (expected cid m)
     else expected cid m)"
  using assms by (auto simp: expected_def fun_eq_iff assign_of_rule_def split: option.splits)

lemma expected_unset:
  assumes "m n = Some r" "r_name r = n"
  shows "expected cid (m(n := None)) =
    (if r_client_id r = cid then assign_spec (ServerCloseProxy \<lparr>scp_name = n\<rparr>) (expected cid m)
     else expected cid m)"
  using assms by (auto simp: expected_def fun_eq_iff split: option.splits)

lemma notify_total:
  assumes "serde_roundtrip J" "serde_total J"
  shows "sessions_of (snd (notify_callback J c (to_string_or_default J m) w)) =
      snd (send_to c (Control m) (sessions_of w))"
  using notify_sessions [OF assms(1)] assms(2) unfolding serde_total_def by blast

lemma created_sessions:
  assumes "serde_roundtrip J" "serde_total J"
  shows "sessions_of (created (server_params U V J jwt bc) r pm w) =
      snd (send_to (r_client_id r) (Control (ServerAssignProxy (assign_of_rule r))) (sessions_of w))"
    and "sessions_of (updated (server_params U V J jwt bc) old r pm w) =
      snd (send_to (r_client_id r) (Control (ServerAssignProxy (assign_of_rule r))) (sessions_of w))"
    and "sessions_of (deleted (server_params U V J jwt bc) r pm w) =
      snd (send_to (r_client_id r) (Control (ServerCloseProxy \<lparr>scp_name = r_name r\<rparr>)) (sessions_of w))"
proof -
  note n = notify_total [OF assms]
  show "sessions_of (created (server_params U V J jwt bc) r pm w) =
      snd (send_to (r_client_id r) (Control (ServerAssignProxy (assign_of_rule r))) (sessions_of w))"
    "sessions_of (updated (server_params U V J jwt bc) old r pm w) =
      snd (send_to (r_client_id r) (Control (ServerAssignProxy (assign_of_rule r))) (sessions_of w))"
    "sessions_of (deleted (server_params U V J jwt bc) r pm w) =
      snd (send_to (r_client_id r) (Control (ServerCloseProxy \<lparr>scp_name = r_name r\<rparr>)) (sessions_of w))"
    by (simp_all add: created_def updated_def deleted_def notify_assign_def n)
qed

text \<open>
  Whatever the database does, a call changes nothing, or sends one message to one client, and this message is
  exactly the change of the table that the client should have; the other clients' tables stay.
\<close>

lemma api_exec_message:
  assumes "vec_json_ok V" "serde_roundtrip J" "serde_total J"
    and "api_exec (server_params U V J jwt bc) F c w = (code, w')"
    and "keeps_client cid c (rules_of V w)"
  obtains (same) "w' = w"
  | (sent) to m where
      "sessions_of w' = snd (send_to to (Control m) (sessions_of w))"
      "expected cid (rules_of V w') =
         (if to = cid then assign_spec m (expected cid (rules_of V w)) else expected cid (rules_of V w))"
      "pm_inv (pm_of w) \<Longrightarrow> pm_inv (pm_of w')"
proof -
  let ?P = "server_params U V J jwt bc"
  note ses = created_sessions [OF assms(2,3), of U V jwt bc]
  have inv: "w' = w \<or> (pm_inv (pm_of w) \<longrightarrow> pm_inv (pm_of w'))"
    by (rule server.api_exec_cases [OF assms(4)]) (use assms(1) in auto)
  show ?thesis
  proof (cases c)
    case (Create payload)
    then obtain resp where cr: "create_proxy ?P F payload w = (resp, w')"
      using assms(4) by (auto split: prod.splits)
    from cr show ?thesis
    proof (cases rule: create_proxy_cases)
      case (changed t pm)
      let ?r = "create_rule t payload"
      have add: "add_proxy V (F 0) ?r (pm_of w) = (Inr (), pm)" using changed(3) by simp
      have "rules_of V w' = (rules_of V w)(r_name ?r \<mapsto> ?r)"
        using server.view_same [OF server.created_store [where U = U and V = V and J = J and jwt = jwt and bc = bc and pm = pm and w = w and rule = "?r"]]
          add_proxy_Inr(1) [OF assms(1) add] by (simp add: changed(4) rules_of_def)
      moreover have "rules_of V w (r_name ?r) = None"
        using add_proxy_Inr(4) [OF assms(1) add] by (simp add: rules_of_def)
      ultimately have "expected cid (rules_of V w') =
          (if r_client_id ?r = cid then
             assign_spec (ServerAssignProxy (assign_of_rule ?r)) (expected cid (rules_of V w))
           else expected cid (rules_of V w))"
        by (simp only:) (rule expected_set, simp_all)
      from sent [OF _ this] ses(1) inv same show ?thesis unfolding changed(4) by blast
    qed (use same in blast)
  next
    case (Update n payload)
    then obtain resp where up: "api_update_proxy ?P F n payload w = (resp, w')"
      using assms(4) by (auto split: prod.splits)
    from up show ?thesis
    proof (cases rule: update_proxy_cases)
      case (changed existing pm)
      let ?r = "merge_rule n payload existing"
      have upd: "update_proxy V (F 1) n ?r (pm_of w) = (Inr (), pm)" using changed(3) by simp
      have nm: "?r\<lparr>r_name := n\<rparr> = ?r" "r_name ?r = n" by (simp_all add: merge_rule_def)
      have "rules_of V w' = (rules_of V w)(n \<mapsto> ?r)"
        using server.view_same [OF server.updated_store [where U = U and V = V and J = J and jwt = jwt and bc = bc and pm = pm and w = w and rule = "?r"]]
          update_proxy_Inr(1) [OF assms(1) upd] by (simp add: changed(4) rules_of_def nm)
      moreover have "rules_of V w n = Some existing" using changed(1) by (simp add: rules_of_def)
      ultimately have "expected cid (rules_of V w') =
          (if r_client_id ?r = cid then
             assign_spec (ServerAssignProxy (assign_of_rule ?r)) (expected cid (rules_of V w))
           else expected cid (rules_of V w))"
        using assms(5) unfolding Update by (simp only:) (rule expected_set, simp_all add: nm)
      from sent [OF _ this] ses(2) inv same show ?thesis unfolding changed(4) by blast
    qed (use same in blast)
  next
    case (Delete n)
    then obtain resp where dl: "delete_proxy ?P F n w = (resp, w')"
      using assms(4) by (auto split: prod.splits)
    from dl show ?thesis
    proof (cases rule: delete_proxy_cases)
      case (changed rule pm)
      have rem: "remove_proxy V (F 1) (F 2) n (pm_of w) = (Inr rule, pm)" using changed(2) by simp
      have l: "rules_of V w n = Some rule" using changed(1) by (simp add: rules_of_def)
      then have nm: "r_name rule = n" by (auto simp: rules_of_def dest: lookup_rule_name)
      have "rules_of V w' = (rules_of V w)(n := None)"
        using server.view_same [OF server.deleted_store [where U = U and V = V and J = J and jwt = jwt and bc = bc and pm = pm and w = w and rule = rule]]
          remove_proxy_Inr(1) [OF rem] by (simp add: changed(3) rules_of_def)
      then have "expected cid (rules_of V w') =
          (if r_client_id rule = cid then
             assign_spec (ServerCloseProxy \<lparr>scp_name = r_name rule\<rparr>) (expected cid (rules_of V w))
           else expected cid (rules_of V w))"
        using expected_unset [of "rules_of V w" n rule cid] l nm by simp
      from sent [OF _ this] ses(3) inv same show ?thesis unfolding changed(3) by blast
    qed (use same in blast)
  qed
qed

section \<open>Sending to the session\<close>

text \<open>The session of the client: its channel \<open>ch\<close> is live and no other client's.\<close>

definition session_ok :: "string \<Rightarrow> nat \<Rightarrow> session_manager \<Rightarrow> bool" where
  "session_ok cid ch sm \<longleftrightarrow>
     map_of (sm_inner sm) cid = Some ch \<and> ch \<in> sm_alive sm \<and>
     (\<forall>c. c \<noteq> cid \<longrightarrow> map_of (sm_inner sm) c \<noteq> Some ch)"

lemma session_ok_send [simp]: "session_ok cid ch (snd (send_to c m sm)) = session_ok cid ch sm"
  by (simp add: session_ok_def)

lemma session_ok_queue:
  assumes "session_ok cid ch sm"
  shows "sm_queue (snd (send_to c m sm)) ch = sm_queue sm ch @ (if c = cid then [m] else [])"
  using assms by (auto simp: session_ok_def send_to_def chan_send_def split: option.splits)

lemma register_queue_other:
  assumes "session_ok cid ch sm" "c \<noteq> cid"
  shows "sm_queue (register c ch' sm) ch = sm_queue sm ch"
proof -
  have "map_of (sm_inner sm) c \<noteq> Some ch" using assms unfolding session_ok_def by blast
  then show ?thesis by (auto simp: register_def chan_send_def Let_def split: option.splits)
qed

lemma session_ok_connect_other:
  assumes "session_ok cid ch sm" "c \<noteq> cid" "ch' \<notin> sm_alive sm"
    and "start_session V fault sent c ch' (st, sm) = (out, st', sm')"
  shows "session_ok cid ch sm'" "sm_queue sm' ch = sm_queue sm ch" "app_pm st' = app_pm st"
proof -
  let ?sm = "sm\<lparr>sm_alive := insert ch' (sm_alive sm), sm_queue := (sm_queue sm)(ch' := [])\<rparr>"
  have ne: "ch' \<noteq> ch" using assms(1,3) by (auto simp: session_ok_def)
  have ok: "session_ok cid ch ?sm" using assms(1) by (simp add: session_ok_def)
  have sm': "sm' = register c ch' ?sm" "app_pm st' = app_pm st"
    using assms(4) by (auto simp: start_session_def Let_def)
  then show "app_pm st' = app_pm st" by simp
  show "session_ok cid ch sm'" using ok ne assms(2) by (auto simp: session_ok_def sm')
  show "sm_queue sm' ch = sm_queue sm ch" using register_queue_other [OF ok assms(2)] ne by (simp add: sm')
qed

lemma session_ok_end_other:
  assumes "session_ok cid ch sm" "c \<noteq> cid" "ch' \<noteq> ch" "end_session c ch' (st, sm) = (st', sm')"
  shows "session_ok cid ch sm'" "sm_queue sm' ch = sm_queue sm ch" "app_pm st' = app_pm st"
  using assms by (auto simp: session_ok_def end_session_def Let_def split: if_splits)

section \<open>Server, wire and client\<close>

record mirror =
  mi_world :: server_world
  mi_listed :: bool
  mi_wire :: "message list"
  mi_client :: client_state

definition mi_queue :: "nat \<Rightarrow> mirror \<Rightarrow> message list" where
  "mi_queue ch s = sm_queue (sessions_of (mi_world s)) ch"

text \<open>
  The start of a session in its two parts, which \<open>start_session\<close> takes in one: the registration, and
  the listing whose result is written to the client.
\<close>

definition registered :: "string \<Rightarrow> nat \<Rightarrow> server_world \<Rightarrow> server_world" where
  "registered cid ch w =
     (let sm = (sessions_of w)\<lparr>sm_alive := insert ch (sm_alive (sessions_of w)),
            sm_queue := (sm_queue (sessions_of w))(ch := [])\<rparr>;
          sm = register cid ch sm
      in (set_connected_clients (connected_clients sm) (fst w), (snd w)\<lparr>se_sessions := sm\<rparr>))"

definition pushed_rules :: "vec_json \<Rightarrow> string \<Rightarrow> server_world \<Rightarrow> message list" where
  "pushed_rules V cid w =
     push_rules (\<lambda>_. True) 0 (map pe_rule (list_proxies_by_client V False cid (pm_of w)))"

lemma start_session_parts:
  "start_session V False (\<lambda>_. True) cid ch (fst w, sessions_of w) =
     (pushed_rules V cid (registered cid ch w), fst (registered cid ch w), sessions_of (registered cid ch w))"
  by (simp add: start_session_def registered_def pushed_rules_def Let_def)

definition mirror_init :: "string \<Rightarrow> nat \<Rightarrow> client_section \<Rightarrow> mirror \<Rightarrow> bool" where
  "mirror_init cid ch cfg s \<longleftrightarrow>
     (\<exists>w. pm_inv (pm_of w) \<and> ch \<notin> sm_alive (sessions_of w) \<and>
        ch \<notin> ran (map_of (sm_inner (sessions_of w))) \<and>
        s = \<lparr>mi_world = registered cid ch w, mi_listed = False, mi_wire = [],
             mi_client = client_start cfg\<rparr>)"

text \<open>
  One step: a call of the interface, the listing, the forwarding of a queued message, an answered
  ping, the client reading a message; a work-connection request to any client, other clients coming and
  going, their handlers taking messages, and whatever leaves rules and sessions alone.
\<close>

inductive mirror_step ::
  "(nat \<Rightarrow> bool) \<Rightarrow> vec_json \<Rightarrow> serde \<Rightarrow> jwt_lib \<Rightarrow> (string \<Rightarrow> string \<Rightarrow> bool option) \<Rightarrow> string \<Rightarrow> nat \<Rightarrow>
   mirror \<Rightarrow> mirror \<Rightarrow> bool" for U V J jwt bc cid ch where
  call: "api_exec (server_params U V J jwt bc) F c (mi_world s) = (code, w') \<Longrightarrow>
     keeps_client cid c (rules_of V (mi_world s)) \<Longrightarrow>
     mirror_step U V J jwt bc cid ch s (s\<lparr>mi_world := w'\<rparr>)"
| list: "\<not> mi_listed s \<Longrightarrow>
     mirror_step U V J jwt bc cid ch s
       (s\<lparr>mi_listed := True, mi_wire := mi_wire s @ pushed_rules V cid (mi_world s)\<rparr>)"
| forward: "mi_listed s \<Longrightarrow> mi_queue ch s = m # rest \<Longrightarrow>
     mirror_step U V J jwt bc cid ch s
       (s\<lparr>mi_world := set_sessions (dequeue (Pushed m True) ch (sessions_of (mi_world s))) (mi_world s),
          mi_wire := mi_wire s @ loop_output (Pushed m True)\<rparr>)"
| pong: "mi_listed s \<Longrightarrow>
     mirror_step U V J jwt bc cid ch s
       (s\<lparr>mi_wire := mi_wire s @ loop_output (From_Client (Control Ping) True)\<rparr>)"
| receive: "mi_wire s = m # rest \<Longrightarrow>
     mirror_step U V J jwt bc cid ch s
       (s\<lparr>mi_wire := rest, mi_client := fst (client_step (From_Server m) (mi_client s))\<rparr>)"
| request: "mirror_step U V J jwt bc cid ch s
       (s\<lparr>mi_world := set_sessions
            (snd (send_to c (Control (NewWorkConn req)) (sessions_of (mi_world s)))) (mi_world s)\<rparr>)"
| connect_other: "c \<noteq> cid \<Longrightarrow> ch' \<notin> sm_alive (sessions_of (mi_world s)) \<Longrightarrow>
     start_session V fault sent c ch' (fst (mi_world s), sessions_of (mi_world s)) = (out, st, sm) \<Longrightarrow>
     mirror_step U V J jwt bc cid ch s
       (s\<lparr>mi_world := (st, (snd (mi_world s))\<lparr>se_sessions := sm\<rparr>)\<rparr>)"
| end_other: "c \<noteq> cid \<Longrightarrow> ch' \<noteq> ch \<Longrightarrow>
     end_session c ch' (fst (mi_world s), sessions_of (mi_world s)) = (st, sm) \<Longrightarrow>
     mirror_step U V J jwt bc cid ch s
       (s\<lparr>mi_world := (st, (snd (mi_world s))\<lparr>se_sessions := sm\<rparr>)\<rparr>)"
| forward_other: "ch' \<noteq> ch \<Longrightarrow>
     mirror_step U V J jwt bc cid ch s
       (s\<lparr>mi_world := set_sessions (dequeue e ch' (sessions_of (mi_world s))) (mi_world s)\<rparr>)"
| other: "same_store (mi_world s) w' \<Longrightarrow> sessions_of w' = sessions_of (mi_world s) \<Longrightarrow>
     mirror_step U V J jwt bc cid ch s (s\<lparr>mi_world := w'\<rparr>)"

inductive_cases mirror_stepE [consumes 1, case_names call list forward pong receive request connect_other
    end_other forward_other other]: "mirror_step U V J jwt bc cid ch s t"

text \<open>
  The client's tables followed by everything on the way are the client's part of the rules; before
  the listing, everything queued is a suffix of the changes the rules have seen.
\<close>

definition mirror_inv :: "vec_json \<Rightarrow> string \<Rightarrow> nat \<Rightarrow> mirror \<Rightarrow> bool" where
  "mirror_inv V cid ch s \<longleftrightarrow>
     pm_inv (pm_of (mi_world s)) \<and> session_ok cid ch (sessions_of (mi_world s)) \<and>
     (\<exists>T. (if mi_listed s then table_of (cs_manager (mi_client s)) T
           else mi_wire s = [] \<and> table_of (cs_manager (mi_client s)) Map.empty) \<and>
        replay (mi_wire s @ mi_queue ch s) T = expected cid (rules_of V (mi_world s)))"

lemma client_step_table:
  assumes "table_of (cs_manager k) T"
  shows "table_of (cs_manager (fst (client_step (From_Server m) k))) (replay [m] T)"
proof (cases m)
  case (Control c)
  obtain mgr calls where h: "handle_control c (cs_manager k) = (mgr, calls)"
    by (cases "handle_control c (cs_manager k)")
  with handle_control_table [OF assms h] Control show ?thesis by simp
qed (use assms in simp)

lemma mirror_inv_init:
  assumes "mirror_init cid ch cfg s"
  shows "mirror_inv V cid ch s"
proof -
  from assms obtain w where w: "pm_inv (pm_of w)" "ch \<notin> ran (map_of (sm_inner (sessions_of w)))"
    and s: "s = \<lparr>mi_world = registered cid ch w, mi_listed = False, mi_wire = [],
             mi_client = client_start cfg\<rparr>"
    by (auto simp: mirror_init_def)
  let ?sm = "(sessions_of w)\<lparr>sm_alive := insert ch (sm_alive (sessions_of w)),
            sm_queue := (sm_queue (sessions_of w))(ch := [])\<rparr>"
  have r: "sessions_of (registered cid ch w) = register cid ch ?sm" "pm_of (registered cid ch w) = pm_of w"
    by (simp_all add: registered_def Let_def)
  have free: "map_of (sm_inner ?sm) c \<noteq> Some ch" for c using w(2) by (auto simp: ran_def)
  then have "session_ok cid ch (register cid ch ?sm)" by (simp add: session_ok_def)
  moreover have "sm_queue (register cid ch ?sm) ch = []"
    using free by (auto simp: register_def chan_send_def Let_def split: option.splits)
  moreover have "table_of (cs_manager (client_start cfg)) Map.empty"
    by (simp add: client_start_def table_new)
  ultimately show ?thesis using w(1) by (simp add: mirror_inv_def s r mi_queue_def)
qed

text \<open>A step that leaves the wire, the client and the queue alone keeps the invariant with the rules.\<close>

lemma mirror_inv_quiet:
  assumes "mirror_inv V cid ch s" "pm_inv (pm_of w')" "session_ok cid ch (sessions_of w')"
    and "sm_queue (sessions_of w') ch = mi_queue ch s @ ms"
    and "expected cid (rules_of V w') = replay ms (expected cid (rules_of V (mi_world s)))"
  shows "mirror_inv V cid ch (s\<lparr>mi_world := w'\<rparr>)"
  using assms unfolding mirror_inv_def by (auto simp: mi_queue_def)

lemma mirror_step_inv:
  assumes env: "vec_json_ok V" "serde_roundtrip J" "serde_total J"
    and step: "mirror_step U V J jwt bc cid ch s t" and inv: "mirror_inv V cid ch s"
  shows "mirror_inv V cid ch t"
proof -
  have pm: "pm_inv (pm_of (mi_world s))" and ses: "session_ok cid ch (sessions_of (mi_world s))"
    using inv by (simp_all add: mirror_inv_def)
  note quiet = mirror_inv_quiet [OF inv, of _ "[]", simplified]
  from step show ?thesis
  proof (cases rule: mirror_stepE)
    case (call F c code w')
    from env call(2,3) show ?thesis
    proof (cases rule: api_exec_message)
      case same
      with inv show ?thesis by (simp add: call(1))
    next
      case (sent to m)
      show ?thesis
        unfolding call(1)
        by (rule mirror_inv_quiet [OF inv, where ms = "if to = cid then [Control m] else []"])
          (use sent pm ses session_ok_queue [OF ses, of to "Control m"] in \<open>simp_all add: mi_queue_def\<close>)
    qed
  next
    case list
    from inv list(2) have w: "mi_wire s = []" "table_of (cs_manager (mi_client s)) Map.empty"
      and r: "\<exists>T. replay (mi_queue ch s) T = expected cid (rules_of V (mi_world s))"
      by (auto simp: mirror_inv_def)
    from r have q: "replay (mi_queue ch s) (expected cid (rules_of V (mi_world s))) =
        expected cid (rules_of V (mi_world s))"
      using replay_twice by metis
    have "replay (pushed_rules V cid (mi_world s)) Map.empty = expected cid (rules_of V (mi_world s))"
      using replay_session_start [OF pm, of V cid] by (simp only: pushed_rules_def rules_of_def)
    with w q pm ses show ?thesis
      by (auto simp: mirror_inv_def list(1) mi_queue_def intro!: exI [of _ Map.empty])
  next
    case (forward m rest)
    then show ?thesis using inv by (auto simp: mirror_inv_def mi_queue_def session_ok_def)
  next
    case pong
    then show ?thesis using inv by (auto simp: mirror_inv_def mi_queue_def)
  next
    case (receive m rest)
    from inv receive(2) obtain T where listed: "mi_listed s" and T: "table_of (cs_manager (mi_client s)) T"
      and r: "replay (mi_wire s @ mi_queue ch s) T = expected cid (rules_of V (mi_world s))"
      by (auto simp: mirror_inv_def split: if_splits)
    have "replay (rest @ mi_queue ch s) (replay [m] T) = expected cid (rules_of V (mi_world s))"
      using r receive(2) by (cases m) simp_all
    with client_step_table [OF T, of m] listed pm ses show ?thesis
      by (auto simp: mirror_inv_def receive(1) mi_queue_def)
  next
    case (request c req)
    let ?sm = "snd (send_to c (Control (NewWorkConn req)) (sessions_of (mi_world s)))"
    show ?thesis
      unfolding request
      by (rule mirror_inv_quiet [OF inv, where ms = "if c = cid then [Control (NewWorkConn req)] else []"])
        (use pm ses session_ok_queue [OF ses] in \<open>simp_all add: mi_queue_def rules_of_def\<close>)
  next
    case (connect_other c ch' fault sent out st sm)
    note so = session_ok_connect_other [OF ses connect_other(2,3,4)]
    show ?thesis unfolding connect_other(1)
      by (rule quiet) (use so pm in \<open>simp_all add: mi_queue_def rules_of_def\<close>)
  next
    case (end_other c ch' st sm)
    note so = session_ok_end_other [OF ses end_other(2,3,4)]
    show ?thesis unfolding end_other(1)
      by (rule quiet) (use so pm in \<open>simp_all add: mi_queue_def rules_of_def\<close>)
  next
    case (forward_other ch' e)
    have "sm_queue (dequeue e ch' sm) ch = sm_queue sm ch" for sm
      using forward_other(2) by (cases e) simp_all
    then show ?thesis unfolding forward_other(1)
      by (intro quiet) (use pm ses in \<open>simp_all add: mi_queue_def rules_of_def session_ok_def\<close>)
  next
    case (other w')
    have "rules_of V w' = rules_of V (mi_world s)" using server.view_same [OF other(2)] by simp
    moreover have "pm_inv (pm_of w')" using same_storeD(2) [OF other(2)] pm by simp
    ultimately show ?thesis unfolding other(1)
      by (intro quiet) (use ses in \<open>simp_all add: other(3) mi_queue_def\<close>)
  qed
qed

interpretation mirror: transition_system
  "\<lambda>s. vec_json_ok V \<and> serde_roundtrip J \<and> serde_total J \<and> mirror_init cid ch cfg s"
  "mirror_step U V J jwt bc cid ch"
  "\<lambda>s. vec_json_ok V \<and> serde_roundtrip J \<and> serde_total J \<and> mirror_inv V cid ch s"
  for U V J jwt bc cid ch cfg
  by unfold_locales (auto intro: mirror_inv_init mirror_step_inv)

section \<open>Work-connection requests\<close>

lemma controls_snoc: "controls (map From_Server (ms @ [Control c])) = controls (map From_Server ms) @ [c]"
proof (induction ms)
  case (Cons m ms)
  then show ?case by (cases m) simp_all
qed simp

lemma run_spec_snoc:
  "run_spec cs T = (T', calls) \<Longrightarrow> run_spec (cs @ [c]) T = (assign_spec c T', calls @ call_spec c T')"
  by (induction cs arbitrary: T calls) (auto simp: Let_def split: prod.splits)

lemma calls_after:
  assumes "table_of (cs_manager k) T"
  shows "\<exists>calls. cs_calls (client_loop (map From_Server (ms @ [Control c])) k) =
    cs_calls k @ calls @ call_spec c (replay ms T)"
proof -
  obtain T' calls where r: "run_spec (controls (map From_Server ms)) T = (T', calls)"
    by (cases "run_spec (controls (map From_Server ms)) T")
  then have "replay ms T = T'" by (simp add: replay_def)
  with client_loop_table [OF assms, of "map From_Server (ms @ [Control c])"] run_spec_snoc [OF r, of c]
  show ?thesis by (simp only: controls_snoc) blast
qed

section \<open>Delivery\<close>

text \<open>The steps that only move messages towards the client.\<close>

inductive deliver :: "nat \<Rightarrow> mirror \<Rightarrow> mirror \<Rightarrow> bool" for ch where
  deliver_forward: "mi_listed s \<Longrightarrow> mi_queue ch s = m # rest \<Longrightarrow>
     deliver ch s
       (s\<lparr>mi_world := set_sessions (dequeue (Pushed m True) ch (sessions_of (mi_world s))) (mi_world s),
          mi_wire := mi_wire s @ loop_output (Pushed m True)\<rparr>)"
| deliver_receive: "mi_wire s = m # rest \<Longrightarrow>
     deliver ch s (s\<lparr>mi_wire := rest, mi_client := fst (client_step (From_Server m) (mi_client s))\<rparr>)"

lemma deliver_step: "deliver ch s t \<Longrightarrow> mirror_step U V J jwt bc cid ch s t"
  by (erule deliver.cases; hypsubst; rule mirror_step.forward mirror_step.receive; assumption)

lemma deliver_keeps:
  "deliver ch s t \<Longrightarrow> mi_listed t = mi_listed s \<and> rules_of V (mi_world t) = rules_of V (mi_world s) \<and>
     length (mi_wire s) + 2 * length (mi_queue ch s) = Suc (length (mi_wire t) + 2 * length (mi_queue ch t))"
  by (induction rule: deliver.induct) (auto simp: rules_of_def mi_queue_def)

lemma delivers_keep:
  "(deliver ch)\<^sup>*\<^sup>* s t \<Longrightarrow> mi_listed t = mi_listed s \<and> rules_of V (mi_world t) = rules_of V (mi_world s)"
proof (induction rule: rtranclp_induct)
  case (step t u)
  with deliver_keeps [OF step(2), of V] show ?case by simp
qed simp

lemma deliver_bound:
  "(deliver ch ^^ k) s t \<Longrightarrow>
   k + (length (mi_wire t) + 2 * length (mi_queue ch t)) = length (mi_wire s) + 2 * length (mi_queue ch s)"
proof (induction k arbitrary: t)
  case (Suc k)
  then obtain u where u: "(deliver ch ^^ k) s u" "deliver ch u t" by auto
  from Suc.IH [OF u(1)] deliver_keeps [OF u(2)] show ?case by simp
qed simp

lemma deliver_stuck:
  assumes "mi_listed s" "\<nexists>t. deliver ch s t"
  shows "mi_wire s = [] \<and> mi_queue ch s = []"
  using assms deliver_receive [of s _ _ ch] deliver_forward [of s ch]
  by (cases "mi_wire s"; cases "mi_queue ch s") blast+

lemma mirrored_tables:
  assumes "mirror_inv V cid ch s" "mi_listed s" "mi_wire s = []" "mi_queue ch s = []"
  shows "table_of (cs_manager (mi_client s)) (expected cid (rules_of V (mi_world s)))"
  using assms by (auto simp: mirror_inv_def)

lemma request_call:
  assumes "vec_json_ok V" and "serde_roundtrip J" and "serde_total J"
    and "mirror_init cid ch cfg s0" and "(mirror_step U V J jwt bc cid ch)\<^sup>*\<^sup>* s0 s" and "mi_listed s"
    and "rules_of V (mi_world s) (wcq_proxy_name req) = Some r" and "r_client_id r = cid"
    and "sm = snd (send_to cid (Control (NewWorkConn req)) (sessions_of (mi_world s)))"
  shows "sm_queue sm ch = mi_queue ch s @ [Control (NewWorkConn req)] \<and>
    cs_calls (client_loop (map From_Server (mi_wire s @ sm_queue sm ch)) (mi_client s)) \<noteq> [] \<and>
    last (cs_calls (client_loop (map From_Server (mi_wire s @ sm_queue sm ch)) (mi_client s))) =
      \<lparr>wc_proxy_name = wcq_proxy_name req, wc_conn_id = wcq_conn_id req,
       wc_local_addr = r_local_ip r @ '':'' @ dec (unat (r_local_port r)),
       wc_proxy_type = as_str (r_type r), wc_user_addr = wcq_user_addr req,
       wc_proxy_protocol = Some (r_proxy_protocol r)\<rparr>"
proof -
  have inv: "mirror_inv V cid ch s" using mirror.inv_reachable [OF _ assms(5)] assms(1-4) by blast
  then have ses: "session_ok cid ch (sessions_of (mi_world s))" by (simp add: mirror_inv_def)
  have q: "sm_queue sm ch = mi_queue ch s @ [Control (NewWorkConn req)]"
    by (simp add: assms(9) session_ok_queue [OF ses] mi_queue_def)
  from inv assms(6) obtain T where T: "table_of (cs_manager (mi_client s)) T"
    and r: "replay (mi_wire s @ mi_queue ch s) T = expected cid (rules_of V (mi_world s))"
    by (auto simp: mirror_inv_def)
  obtain calls where
    c: "cs_calls (client_loop (map From_Server (mi_wire s @ sm_queue sm ch)) (mi_client s)) =
      cs_calls (mi_client s) @ calls @ call_spec (NewWorkConn req) (expected cid (rules_of V (mi_world s)))"
    using calls_after [OF T, of "mi_wire s @ mi_queue ch s" "NewWorkConn req"]
    unfolding q r append_assoc by blast
  have "call_spec (NewWorkConn req) (expected cid (rules_of V (mi_world s))) =
      [\<lparr>wc_proxy_name = wcq_proxy_name req, wc_conn_id = wcq_conn_id req,
       wc_local_addr = r_local_ip r @ '':'' @ dec (unat (r_local_port r)),
       wc_proxy_type = as_str (r_type r), wc_user_addr = wcq_user_addr req,
       wc_proxy_protocol = Some (r_proxy_protocol r)\<rparr>]"
    using assms(7,8) by (simp add: expected_def assign_of_rule_def local_addr_of_def)
  with q c show ?thesis by (simp del: call_spec.simps)
qed

section \<open>Properties\<close>


lemma boot_sessions: "sessions_of (server_boot V F random busy cfg rows) = session_manager_new"
proof -
  have "sessions_of (fold start_existing rs w) = sessions_of w" for rs w
    by (induction rs arbitrary: w) (simp_all add: start_existing_def Let_def split: prod.splits)
  moreover have "sessions_of (fold register_existing rs w) = sessions_of w" for rs w
    by (induction rs arbitrary: w) (simp_all add: register_existing_def)
  ultimately show ?thesis
    by (simp add: server_boot_def start_existing_listeners_def register_existing_domain_routes_def Let_def)
qed

definition sample_mirror :: "proxy_rule list \<Rightarrow> mirror" where
  "sample_mirror rules =
     \<lparr>mi_world = registered ''c1'' 0 (sample_server rules), mi_listed = False, mi_wire = [],
      mi_client = client_start sample_client\<rparr>"

lemma sample_mirror_init: "distinct (map r_name rules) \<Longrightarrow> mirror_init ''c1'' 0 sample_client (sample_mirror rules)"
proof -
  assume "distinct (map r_name rules)"
  then have "sys_inv sample_vec_json (sample_server rules)" by (rule sample_server_sys)
  then have "pm_inv (pm_of (sample_server rules))" by (simp add: sys_inv_def)
  moreover have "sessions_of (sample_server rules) = session_manager_new"
    by (simp add: sample_server_def boot_sessions)
  ultimately show ?thesis
    unfolding mirror_init_def sample_mirror_def by (intro exI) (auto simp: session_manager_new_def)
qed

definition sample_listed :: "proxy_rule list \<Rightarrow> mirror" where
  "sample_listed rules =
     (sample_mirror rules)\<lparr>mi_listed := True,
        mi_wire := pushed_rules sample_vec_json ''c1'' (mi_world (sample_mirror rules))\<rparr>"

lemma sample_listed_step:
  "mirror_step U sample_vec_json J jwt bc ''c1'' 0 (sample_mirror rules) (sample_listed rules)"
  using mirror_step.list [of "sample_mirror rules" U sample_vec_json J jwt bc "''c1''" 0]
  by (simp add: sample_listed_def) (simp add: sample_mirror_def)

lemma sample_listed_rules:
  "rules_of sample_vec_json (mi_world (sample_listed rules)) n = find (\<lambda>r. r_name r = n) rules"
  "mi_queue 0 (sample_listed rules) = []"
proof -
  have "pm_of (registered ''c1'' 0 w) = pm_of w" for w by (simp add: registered_def Let_def)
  then show "rules_of sample_vec_json (mi_world (sample_listed rules)) n = find (\<lambda>r. r_name r = n) rules"
    using sample_server_rules [of rules n] by (simp add: rules_of_def sample_listed_def sample_mirror_def)
  have "sessions_of (sample_server rules) = session_manager_new"
    by (simp add: sample_server_def boot_sessions)
  then show "mi_queue 0 (sample_listed rules) = []"
    by (simp add: mi_queue_def sample_listed_def sample_mirror_def registered_def register_def Let_def
        session_manager_new_def)
qed

lemma sample_serde_total [simp]: "serde_total sample_serde"
  by (simp add: serde_total_def sample_serde_def)

lemma sample_listed_wire:
  "mi_wire (sample_listed rules) =
     map (\<lambda>r. Control (ServerAssignProxy (assign_of_rule r))) (filter (\<lambda>r. r_client_id r = ''c1'') rules)"
proof -
  have "pm_of (registered ''c1'' 0 w) = pm_of w" for w by (simp add: registered_def Let_def)
  then show ?thesis
    by (simp add: sample_listed_def sample_mirror_def pushed_rules_def push_rules_all rules_of_client
        sample_server_def boot_pool comp_def)
qed

definition sample_received :: mirror where
  "sample_received =
     (sample_listed [sample_rule ''a''])\<lparr>mi_wire := [],
        mi_client := fst (client_step (From_Server (Control (ServerAssignProxy (assign_of_rule (sample_rule ''a'')))))
          (mi_client (sample_listed [sample_rule ''a''])))\<rparr>"

lemma sample_received_deliver: "deliver 0 (sample_listed [sample_rule ''a'']) sample_received"
  unfolding sample_received_def
  by (rule deliver_receive) (simp add: sample_listed_wire, simp add: sample_rule_def)



text \<open>The rule is still on the wire when the request is made.\<close>

definition request_a :: new_work_conn_request where
  "request_a = \<lparr>wcq_proxy_name = ''a'', wcq_conn_id = 1, wcq_user_addr = None\<rparr>"




section \<open>Crossed updates\<close>

text \<open>
  The steps above take a call as one. Two updates of one rule that run at the same time may store in one
  order and notify in the other: the table then holds the second rule, the client is left with the first.
\<close>

lemma crossed_updates:
  assumes "vec_json_ok V" "serde_roundtrip J" "serde_total J" "session_ok cid ch (sessions_of w)"
    and "update_proxy V False n r1 (pm_of w) = (Inr (), pm1)"
    and "update_proxy V False n r2 pm1 = (Inr (), pm2)"
    and "r_client_id r1 = cid" "r_client_id r2 = cid" "r_name r1 = n" "r_name r2 = n"
    and "w' = notify_assign (server_params U V J jwt bc) r1 (create_callback r1 (delete_callback old
           (updated (server_params U V J jwt bc) old r2 pm2 w)))"
  shows "rules_of V w' n = Some r2 \<and>
    replay (sm_queue (sessions_of w') ch) T n = Some (assign_of_rule r1)"
proof -
  let ?P = "server_params U V J jwt bc"
  let ?w2 = "updated ?P old r2 pm2 w"
  note ses = created_sessions(2) [OF assms(2,3), of U V jwt bc]
  have n: "sessions_of (notify_assign ?P r w) =
      snd (send_to (r_client_id r) (Control (ServerAssignProxy (assign_of_rule r))) (sessions_of w))" for r w
    by (simp add: notify_assign_def notify_total [OF assms(2,3)])
  have "session_ok cid ch (sessions_of ?w2)" using assms(4) by (simp add: ses)
  then have "sm_queue (sessions_of w') ch =
      sm_queue (sessions_of ?w2) ch @ [Control (ServerAssignProxy (assign_of_rule r1))]"
    using assms(7) by (simp add: assms(11) n session_ok_queue)
  moreover have "sap_name (assign_of_rule r1) = n" using assms(9) by (simp add: assign_of_rule_def)
  moreover have "same_store ?w2 w'"
    unfolding assms(11)
    by (intro same_store_trans [OF delete_callback_store same_store_trans [OF create_callback_store
          server.notify_assign_keeps]])
  then have "rules_of V w' = rules_of V ?w2" using server.view_same by simp
  moreover have "rules_of V ?w2 = lookup_rule V pm2"
    using server.view_same [OF server.updated_store [where U = U and V = V and J = J and jwt = jwt and bc = bc
      and pm = pm2 and w = w and rule = r2 and existing = old]] by simp
  moreover have "r2\<lparr>r_name := n\<rparr> = r2" using assms(10) by (cases r2) simp
  ultimately show ?thesis using update_proxy_Inr(1) [OF assms(1,6)] by simp
qed

end
