(* ===== verification/Transport.thy ===== *)
theory Transport
  imports Frame Bridge
begin

text \<open>
  The copy loops over the bytes of the TLS connection: the frames of the one end, cut by the network
  anywhere, read by the decoder of the other. The reader calls the decoder until it has no further
  message and then appends the next bytes, which is how \<^verbatim>\<open>tokio_util\<close> documents its use of a decoder.
\<close>

section \<open>Reading frames from pieces\<close>

function read_all :: "(bytes \<Rightarrow> 'r \<times> bytes) \<Rightarrow> ('r \<Rightarrow> 'm option) \<Rightarrow> bytes \<Rightarrow> 'm list \<times> bytes" where
  "read_all decoder got buf =
     (let (r, rest) = decoder buf in
      case got r of
        None \<Rightarrow> ([], rest)
      | Some m \<Rightarrow>
          if length rest < length buf
          then let (ms, rest) = read_all decoder got rest in (m # ms, rest)
          else ([m], rest))"
  by pat_completeness auto
termination by (relation "measure (\<lambda>(decoder, got, buf). length buf)") auto

declare read_all.simps [simp del]

fun feed :: "(bytes \<Rightarrow> 'r \<times> bytes) \<Rightarrow> ('r \<Rightarrow> 'm option) \<Rightarrow> bytes \<Rightarrow> bytes list \<Rightarrow> 'm list \<times> bytes" where
  "feed decoder got buf [] = ([], buf)"
| "feed decoder got buf (chunk # chunks) =
     (let (ms, buf) = read_all decoder got (buf @ chunk); (ns, buf) = feed decoder got buf chunks in (ms @ ns, buf))"

text \<open>On a part of a code the decoder waits and leaves the buffer.\<close>

locale chunked_framing = framing enc dec item valid
  for enc :: "'m \<Rightarrow> bytes" and dec :: "bytes \<Rightarrow> 'r \<times> bytes" and item valid +
  fixes got :: "'r \<Rightarrow> 'm option"
  assumes got_item: "valid m \<Longrightarrow> got (item m) = Some m"
    and dec_part: "valid m \<Longrightarrow> k < length (enc m) \<Longrightarrow>
      \<exists>r. dec (take k (enc m)) = (r, take k (enc m)) \<and> got r = None"
    and dec_empty: "\<exists>r. dec [] = (r, []) \<and> got r = None"
begin

text \<open>What remains in the buffer: nothing, or a strict part of the next code.\<close>

definition part :: "bytes \<Rightarrow> 'm list \<Rightarrow> bool" where
  "part p ms \<longleftrightarrow> p = [] \<or> (\<exists>m ns k. ms = m # ns \<and> k < length (enc m) \<and> p = take k (enc m))"

abbreviation codes :: "'m list \<Rightarrow> bytes" where
  "codes ms \<equiv> concat (map enc ms)"

lemma read_part:
  assumes "\<forall>m \<in> set ns. valid m" "part p ns"
  shows "read_all dec got p = ([], p)"
proof -
  have "\<exists>r. dec p = (r, p) \<and> got r = None"
    using assms dec_empty dec_part by (auto simp: part_def)
  then show ?thesis by (subst read_all.simps) auto
qed

lemma read_codes:
  assumes "\<forall>m \<in> set ms. valid m" "\<forall>m \<in> set ns. valid m" "part p ns"
  shows "read_all dec got (codes ms @ p) = (ms, p)"
  using assms(1)
proof (induction ms)
  case Nil
  with read_part [OF assms(2,3)] show ?case by simp
next
  case (Cons m ms)
  then have v: "valid m" by simp
  have "dec (codes (m # ms) @ p) = (item m, codes ms @ p)" using dec_enc [OF v] by simp
  moreover have "length (codes ms @ p) < length (codes (m # ms) @ p)" using enc_nonempty [OF v] by simp
  ultimately show ?case
    using Cons got_item [OF v] by (subst read_all.simps) simp
qed

text \<open>A front part of a stream of codes is some codes and a part of the next one.\<close>

lemma front_split:
  "prefix q (codes ms) \<Longrightarrow> \<exists>xs ys p. ms = xs @ ys \<and> q = codes xs @ p \<and> part p ys"
proof (induction ms arbitrary: q)
  case Nil
  then show ?case by (intro exI [of _ "[]"]) (simp add: part_def)
next
  case (Cons m ms)
  show ?case
  proof (cases "length q < length (enc m)")
    case True
    with Cons.prems have "q = take (length q) (enc m)" by (auto simp: prefix_def append_eq_append_conv_if)
    with True have "part q (m # ms)" unfolding part_def by blast
    then show ?thesis by (intro exI [of _ "[]"] exI [of _ "m # ms"] exI [of _ q]) simp
  next
    case False
    with Cons.prems obtain q' where q: "q = enc m @ q'" and "prefix q' (codes ms)"
      by (auto simp: prefix_def append_eq_append_conv_if) (metis append_eq_conv_conj)
    then obtain xs ys p where "ms = xs @ ys" "q' = codes xs @ p" "part p ys" using Cons.IH by blast
    with q show ?thesis by (intro exI [of _ "m # xs"] exI [of _ ys] exI [of _ p]) simp
  qed
qed

lemma feed_codes:
  assumes "\<forall>m \<in> set ms. valid m" "part buf ms" "prefix (buf @ concat chunks) (codes ms)"
  shows "\<exists>xs ys p. ms = xs @ ys \<and> feed dec got buf chunks = (xs, p) \<and>
    buf @ concat chunks = codes xs @ p \<and> part p ys"
  using assms
proof (induction chunks arbitrary: buf ms)
  case Nil
  then show ?case by (intro exI [of _ "[]"] exI [of _ ms] exI [of _ buf]) simp
next
  case (Cons chunk chunks)
  have "prefix (buf @ chunk) (codes ms)"
    by (rule append_prefixD [where ys = "concat chunks"]) (use Cons.prems(3) in simp)
  then obtain xs ys p where x: "ms = xs @ ys" "buf @ chunk = codes xs @ p" "part p ys"
    using front_split by blast
  have v: "\<forall>m \<in> set xs. valid m" "\<forall>m \<in> set ys. valid m" using Cons.prems(1) x(1) by auto
  have "prefix (codes xs @ (p @ concat chunks)) (codes xs @ codes ys)"
    using Cons.prems(3) x(1,2) by (simp add: append_assoc [symmetric] del: append_assoc)
  then have "prefix (p @ concat chunks) (codes ys)" by simp
  from Cons.IH [OF v(2) x(3) this] obtain xs' ys' p' where
    "ys = xs' @ ys'" "feed dec got p chunks = (xs', p')" "p @ concat chunks = codes xs' @ p'" "part p' ys'"
    by blast
  moreover have "buf @ concat (chunk # chunks) = (buf @ chunk) @ concat chunks" by simp
  ultimately have "ms = (xs @ xs') @ ys' \<and> feed dec got buf (chunk # chunks) = (xs @ xs', p') \<and>
      buf @ concat (chunk # chunks) = codes (xs @ xs') @ p' \<and> part p' ys'"
    using x read_codes [OF v x(3)] by simp
  then show ?case by blast
qed

text \<open>Whatever the pieces: the messages read are those whose codes have arrived, and all of them in the end.\<close>

lemma feed_prefix:
  assumes "\<forall>m \<in> set ms. valid m" "prefix (concat chunks) (codes ms)"
  shows "prefix (fst (feed dec got [] chunks)) ms"
  using feed_codes [OF assms(1), of "[]" chunks] assms(2) by (auto simp: part_def prefix_def)

lemma feed_all:
  assumes "\<forall>m \<in> set ms. valid m" "concat chunks = codes ms"
  shows "feed dec got [] chunks = (ms, [])"
proof -
  have "part [] ms" by (simp add: part_def)
  moreover have "prefix ([] @ concat chunks) (codes ms)" using assms(2) by simp
  ultimately obtain xs ys p where x: "ms = xs @ ys" "feed dec got [] chunks = (xs, p)"
    "codes ms = codes xs @ p" "part p ys"
    using feed_codes [OF assms(1), of "[]" chunks] assms(2) by auto
  then have p: "p = codes ys" by simp
  have "ys = []"
  proof (cases ys)
    case (Cons m ns)
    then have m: "valid m" "enc m \<noteq> []" using assms(1) x(1) enc_nonempty by auto
    from x(4) Cons m p have "\<exists>k < length (enc m). enc m @ codes ns = take k (enc m)"
      by (auto simp: part_def)
    then obtain k where "k < length (enc m)" "enc m @ codes ns = take k (enc m)" by blast
    then have "length (enc m @ codes ns) = k" by simp
    with \<open>k < length (enc m)\<close> show ?thesis by simp
  qed
  with x p show ?thesis by simp
qed

end

fun got_message :: "frame_error + message option \<Rightarrow> message option" where
  "got_message (Inr (Some m)) = Some m"
| "got_message _ = None"

interpretation codec: chunked_framing "frame_of J" "decode J" "\<lambda>m. Inr (Some m)" "sendable J" got_message for J
proof
  fix m k assume s: "sendable J m" "k < length (frame_of J m)"
  from s(1) obtain t p where "length p \<le> MAX_FRAME_SIZE" "frame_of J m = put_frame t p []" by (rule sendableE)
  with s(2) have "decode J (take k (frame_of J m)) = (Inr None, take k (frame_of J m))"
    by (simp add: decode_put_frame_partial)
  then show "\<exists>r. decode J (take k (frame_of J m)) = (r, take k (frame_of J m)) \<and> got_message r = None" by simp
next
  show "\<exists>r. decode J [] = (r, []) \<and> got_message r = None" by (simp add: decode_def HEADER_SIZE_def)
qed simp

section \<open>Frames of the copy loops\<close>

text \<open>The loops read at most 8192 bytes (streams) or 65535 (datagrams) at a time.\<close>

lemma data_frame_sendable:
  assumes "serde_roundtrip J" "length d \<le> 65535"
  shows "sendable J (data_frame cid d)"
  using assms by (simp add: sendable_def data_encode_def MAX_FRAME_SIZE_def)

lemma sent_frames_sendable:
  assumes "serde_roundtrip J" "\<forall>d \<in> set rs. length d \<le> 65535"
    and "ms = map (data_frame cid) ds" "prefix ds rs"
  shows "\<forall>m \<in> set ms. sendable J m"
  using assms data_frame_sendable set_mono_prefix [OF assms(4)] by auto

section \<open>Properties\<close>

text \<open>
  C17. The byte stream means the messages: whatever the pieces in which the network delivers the
  frames of a sequence of messages, the reader gets exactly these messages in this order and nothing is left over, and
  while bytes are missing it has got the messages whose frames are complete.
\<close>
theorem chunks_do_not_matter:
  assumes "\<forall>m \<in> set ms. sendable J m" and "prefix (concat chunks) (concat (map (frame_of J) ms))"
  shows "prefix (fst (feed (decode J) got_message [] chunks)) ms \<and>
    (concat chunks = concat (map (frame_of J) ms) \<longrightarrow> feed (decode J) got_message [] chunks = (ms, []))"
  using codec.feed_prefix [OF assms] codec.feed_all [OF assms(1)] by blast

text \<open>Ping and Pong in three pieces.\<close>

theorem chunks_do_not_matter_witness:
  "feed (decode sample_serde) got_message [] [[0, 0, 0], [0, 8, 0, 0, 0], [0, 0, 0, 9, 0, 0]] =
     ([Control Ping, Control Pong], [])"
proof -
  have f: "concat (map (frame_of sample_serde) [Control Ping, Control Pong]) =
      [0, 0, 0, 0, 8, 0, 0, 0, 0, 0, 0, 9, 0, 0]"
    by (simp add: frame_of_def encode_def put_frame_def u32_to_be_def nat_to_be_numeral)
  have s: "\<forall>m \<in> set [Control Ping, Control Pong]. sendable sample_serde m" by (simp add: sendable_def)
  from chunks_do_not_matter [OF s, of "[[0, 0, 0], [0, 8, 0, 0, 0], [0, 0, 0, 9, 0, 0]]"] f
  show ?thesis by simp
qed

text \<open>
  C11. From byte to byte: the user's bytes, read by the server in any portions, framed, delivered by the network in
  any pieces, read by the client's decoder and written by its loop, arrive at the local service as a prefix
  of what the user sent; and so back to the user.
\<close>
theorem tunnel_bytes_end_to_end:
  assumes "bridge_run stream_step cid es bridge_start = (s, c)"
    and "bridge_run local_tcp_step cid' es' bridge_start = (t, c')"
    and "serde_roundtrip J" and "\<forall>d \<in> set (local_reads es @ local_reads es'). length d \<le> 8192"
    and "prefix (concat chunks) (concat (map (frame_of J) (br_work s)))"
    and "prefix (concat chunks') (concat (map (frame_of J) (br_work t)))"
    and "prefix (work_messages es') (fst (feed (decode J) got_message [] chunks))"
    and "prefix (work_messages es) (fst (feed (decode J) got_message [] chunks'))"
  shows "prefix (concat (br_local t)) (concat (local_reads es)) \<and>
    prefix (concat (br_local s)) (concat (local_reads es'))"
proof -
  obtain ds where s: "br_work s = map (data_frame cid) ds" "prefix ds (local_reads es)"
    using stream.run_work [OF assms(1)] by auto
  obtain ds' where t: "br_work t = map (data_frame cid') ds'" "prefix ds' (local_reads es')"
    using local_tcp.run_work [OF assms(2)] by auto
  have "\<forall>d \<in> set (local_reads es). length d \<le> 65535" "\<forall>d \<in> set (local_reads es'). length d \<le> 65535"
    using assms(4) by force+
  then have "\<forall>m \<in> set (br_work s). sendable J m" "\<forall>m \<in> set (br_work t). sendable J m"
    using sent_frames_sendable [OF assms(3) _ s(1,2)] sent_frames_sendable [OF assms(3) _ t(1,2)] by blast+
  then have "prefix (fst (feed (decode J) got_message [] chunks)) (br_work s)"
    "prefix (fst (feed (decode J) got_message [] chunks')) (br_work t)"
    using codec.feed_prefix assms(5,6) by blast+
  with assms(7,8) have m: "prefix (work_messages es') (br_work s)" "prefix (work_messages es) (br_work t)"
    using prefix_order.trans by blast+
  show ?thesis by (rule stream_end_to_end [OF assms(1,2) m])
qed

theorem tunnel_bytes_end_to_end_witness:
  "\<exists>t. bridge_run local_tcp_step 5 [Work_Message (data_frame 5 [71, 69, 84]) (Some 2)] bridge_start = (t, False) \<and>
    prefix (concat (br_local t)) [71, 69, 84]"
proof -
  let ?m = "data_frame 5 [71, 69, 84]"
  let ?es = "[Local_Read [71, 69, 84] True]" and ?es' = "[Work_Message ?m (Some 2)]"
  let ?f = "frame_of sample_serde ?m"
  obtain s where s: "bridge_run stream_step 5 ?es bridge_start = (s, True)" "br_work s = [?m]"
    by (simp add: bridge_ops Let_def)
  obtain t where t: "bridge_run local_tcp_step 5 ?es' bridge_start = (t, False)" "br_work t = []"
    by (simp add: bridge_ops)
  have "\<forall>m \<in> set [?m]. sendable sample_serde m" by (simp add: data_frame_sendable)
  then have f: "feed (decode sample_serde) got_message [] [take 3 ?f, drop 3 ?f] = ([?m], [])"
    by (rule codec.feed_all) simp
  have "prefix (concat [take 3 ?f, drop 3 ?f]) (concat (map (frame_of sample_serde) (br_work s)))"
    by (simp add: s(2))
  from tunnel_bytes_end_to_end [OF s(1) t(1) sample_serde_roundtrip _ this, of "[]"] f t show ?thesis by simp
qed

end
