(* ===== verification/End_To_End.thy ===== *)
theory End_To_End
  imports Client_Mirror Transport
begin

text \<open>
  One user connection from end to end: the rule in the server's table, the request on the control
  connection, the client's work connection, and the bytes through both copy loops and the frames between
  them.
\<close>

section \<open>Lemmas\<close>

text \<open>A work connection that was opened for a stream rule announced its id first and dialled the local address.\<close>

lemma opened_stream:
  assumes "open_work_connection L W cfg n cid la pt ua pp = (Inr (), b)" "pt \<noteq> ''udp''"
  shows "wo_connect W la"
    and "\<exists>ms. br_work b = Control (NewWorkConnResp
           \<lparr>wcr_proxy_name = n, wcr_conn_id = cid, wcr_success = True\<rparr>) # ms"
proof -
  show "wo_connect W la"
    using assms by (auto simp: open_work_connection_def Let_def split: if_splits sum.splits)
  obtain b0 where b0: "br_work b0 = [Control (NewWorkConnResp
      \<lparr>wcr_proxy_name = n, wcr_conn_id = cid, wcr_success = True\<rparr>)]"
    "b = fst (bridge_run local_tcp_step cid (wo_events W) (write_header W ua pp b0))"
    using open_work_Inr [OF assms(1)] assms(2) by auto
  obtain t c where r: "bridge_run local_tcp_step cid (wo_events W) (write_header W ua pp b0) = (t, c)"
    by (cases "bridge_run local_tcp_step cid (wo_events W) (write_header W ua pp b0)")
  from local_tcp.run_work [OF r] b0 r header_local(2) [of W ua pp b0]
  show "\<exists>ms. br_work b = Control (NewWorkConnResp
           \<lparr>wcr_proxy_name = n, wcr_conn_id = cid, wcr_success = True\<rparr>) # ms"
    by auto
qed

text \<open>What the client's loop has taken from the frames is a front part of what the user sent.\<close>

lemma user_bytes:
  assumes "bridge_run stream_step i es bridge_start = (u, c)" "serde_roundtrip J"
    and "\<forall>d \<in> set (local_reads es). length d \<le> 8192"
    and "prefix (concat chunks) (concat (map (frame_of J) (br_work u)))"
    and "prefix ms (fst (feed (decode J) got_message [] chunks))"
  shows "prefix (concat (payloads ms)) (concat (local_reads es))"
proof -
  obtain ds where u: "br_work u = map (data_frame i) ds" "prefix ds (local_reads es)"
    using stream.run_work [OF assms(1)] by auto
  have "\<forall>d \<in> set (local_reads es). length d \<le> 65535" using assms(3) by force
  then have "\<forall>m \<in> set (br_work u). sendable J m" using sent_frames_sendable [OF assms(2) _ u] by blast
  then have "prefix (fst (feed (decode J) got_message [] chunks)) (br_work u)"
    using codec.feed_prefix assms(4) by blast
  with assms(5) have "prefix ms (br_work u)" by (rule prefix_order.trans)
  then have "prefix (payloads ms) ds" using prefix_payloads [of ms "br_work u"] u(1) by simp
  with u(2) have "prefix (payloads ms) (local_reads es)" by (meson prefix_order.trans)
  then show ?thesis by (rule prefix_concat)
qed

section \<open>Property\<close>



end
