(* ===== verification/Tls_Cert.thy ===== *)
theory Tls_Cert
  imports Config Net_Addr Serde_Instance
begin

text \<open>
  \<^verbatim>\<open>crates/core/src/tls.rs\<close> and \<^verbatim>\<open>crates/server/src/cert.rs\<close>: where the server's certificate comes
  from. Files are a map from paths to contents. Key generation, signing and PEM are libraries (\<^verbatim>\<open>rcgen\<close>,
  \<^verbatim>\<open>pem\<close>, \<^verbatim>\<open>rustls_pemfile\<close>) and the record \<open>cert_lib\<close>; each operation on files may fail.
\<close>

section \<open>Libraries, files and their failures\<close>

datatype private_key = Pkcs1 bytes | Pkcs8 bytes | Sec1 bytes | Other_Key

datatype san = Dns_Name string | Ip_Address ip_addr

record cert_params =
  cp_common_name :: string
  cp_organization :: string
  cp_subject_alt_names :: "san list"

text \<open>
  \<open>cb_keygen\<close> is the key pair the random generator gives, as DER; \<open>cb_pem_key\<close> finds the first key of a text, \<open>Some None\<close>
  if there is none; \<open>cb_server_config\<close> is \<^verbatim>\<open>with_single_cert\<close>.
\<close>

record 'c cert_lib =
  cb_keygen :: "bytes option"
  cb_self_sign :: "cert_params \<Rightarrow> bytes \<Rightarrow> bytes option"
  cb_pem_encode :: "string \<Rightarrow> bytes \<Rightarrow> bytes"
  cb_pem_certs :: "bytes \<Rightarrow> bytes list option"
  cb_pem_key :: "bytes \<Rightarrow> private_key option option"
  cb_server_config :: "bytes list \<Rightarrow> private_key \<Rightarrow> 'c option"

type_synonym files = "string \<Rightarrow> bytes option"

text \<open>What may go wrong; a failing write leaves the first bytes written.\<close>

record file_io =
  io_read :: "string \<Rightarrow> bool"
  io_mkdir :: "string \<Rightarrow> bool"
  io_create :: "string \<Rightarrow> bool"
  io_write_fails :: "string \<Rightarrow> nat option"

definition no_io_error :: file_io where
  "no_io_error =
     \<lparr>io_read = (\<lambda>_. True), io_mkdir = (\<lambda>_. True), io_create = (\<lambda>_. True),
      io_write_fails = (\<lambda>_. None)\<rparr>"

datatype cert_error =
    Dns_Name_Invalid | Keygen_Failed | Sign_Failed
  | Cert_Unreadable string | Key_Unreadable string | Cert_Pem_Invalid | Key_Pem_Invalid | No_Private_Key
  | Cert_Dir_Failed | Key_Dir_Failed | Cert_Create_Failed | Cert_Write_Failed
  | Key_Create_Failed | Key_Write_Failed | Key_Format | Tls_Config_Failed

type_synonym identity = "bytes list \<times> private_key"

section \<open>Operations\<close>

definition self_signed_params :: cert_params where
  "self_signed_params =
     \<lparr>cp_common_name = ''RustProxy Server'', cp_organization = ''RustProxy'',
      cp_subject_alt_names =
        [Dns_Name ''localhost'', Ip_Address (IpV4 [127, 0, 0, 1]),
         Ip_Address (IpV6 [0, 0, 0, 0, 0, 0, 0, 1])]\<rparr>"

text \<open>An \<^verbatim>\<open>Ia5String\<close> takes ASCII text.\<close>

definition ia5_string :: "string \<Rightarrow> bool" where
  "ia5_string s \<longleftrightarrow> list_all (\<lambda>c. of_char c < (128 :: nat)) s"

definition generate_self_signed_cert :: "'c cert_lib \<Rightarrow> cert_error + identity" where
  "generate_self_signed_cert L =
     (if \<not> ia5_string ''localhost'' then Inl Dns_Name_Invalid
      else case cb_keygen L of
        None \<Rightarrow> Inl Keygen_Failed
      | Some key_pair \<Rightarrow>
          (case cb_self_sign L self_signed_params key_pair of
             None \<Rightarrow> Inl Sign_Failed
           | Some cert_der \<Rightarrow> Inr ([cert_der], Pkcs8 key_pair)))"

definition read_file :: "file_io \<Rightarrow> string \<Rightarrow> files \<Rightarrow> bytes option" where
  "read_file io path fs = (if io_read io path then fs path else None)"

definition load_cert_from_files ::
  "'c cert_lib \<Rightarrow> file_io \<Rightarrow> string \<Rightarrow> string \<Rightarrow> files \<Rightarrow> cert_error + identity" where
  "load_cert_from_files L io cert_path key_path fs =
     (case read_file io cert_path fs of
        None \<Rightarrow> Inl (Cert_Unreadable cert_path)
      | Some cert_pem \<Rightarrow>
          (case read_file io key_path fs of
             None \<Rightarrow> Inl (Key_Unreadable key_path)
           | Some key_pem \<Rightarrow>
               (case cb_pem_certs L cert_pem of
                  None \<Rightarrow> Inl Cert_Pem_Invalid
                | Some certs \<Rightarrow>
                    (case cb_pem_key L key_pem of
                       None \<Rightarrow> Inl Key_Pem_Invalid
                     | Some None \<Rightarrow> Inl No_Private_Key
                     | Some (Some key) \<Rightarrow> Inr (certs, key)))))"

text \<open>\<^verbatim>\<open>write_all\<close> to a file just created: success and what the file then holds.\<close>

definition write_file :: "file_io \<Rightarrow> string \<Rightarrow> bytes \<Rightarrow> files \<Rightarrow> bool \<times> files" where
  "write_file io path content fs =
     (case io_write_fails io path of
        None \<Rightarrow> (True, fs(path \<mapsto> content))
      | Some n \<Rightarrow> (False, fs(path \<mapsto> take n content)))"

fun key_pem :: "'c cert_lib \<Rightarrow> private_key \<Rightarrow> bytes option" where
  "key_pem L (Pkcs1 d) = Some (cb_pem_encode L ''RSA PRIVATE KEY'' d)"
| "key_pem L (Pkcs8 d) = Some (cb_pem_encode L ''PRIVATE KEY'' d)"
| "key_pem L (Sec1 d) = Some (cb_pem_encode L ''EC PRIVATE KEY'' d)"
| "key_pem L Other_Key = None"

definition cert_pem :: "'c cert_lib \<Rightarrow> bytes list \<Rightarrow> bytes" where
  "cert_pem L certs = concat (map (cb_pem_encode L ''CERTIFICATE'') certs)"

definition save_cert_to_files ::
  "'c cert_lib \<Rightarrow> file_io \<Rightarrow> identity \<Rightarrow> string \<Rightarrow> string \<Rightarrow> files \<Rightarrow> (cert_error + unit) \<times> files" where
  "save_cert_to_files L io ident cert_path key_path fs =
     (if \<not> io_mkdir io cert_path then (Inl Cert_Dir_Failed, fs)
      else if \<not> io_mkdir io key_path then (Inl Key_Dir_Failed, fs)
      else if \<not> io_create io cert_path then (Inl Cert_Create_Failed, fs)
      else case write_file io cert_path (cert_pem L (fst ident)) fs of
        (False, fs) \<Rightarrow> (Inl Cert_Write_Failed, fs)
      | (True, fs) \<Rightarrow>
          if \<not> io_create io key_path then (Inl Key_Create_Failed, fs)
          else let fs = fs(key_path \<mapsto> []) in
            case key_pem L (snd ident) of
              None \<Rightarrow> (Inl Key_Format, fs)
            | Some pem \<Rightarrow>
                (case write_file io key_path pem fs of
                   (False, fs) \<Rightarrow> (Inl Key_Write_Failed, fs)
                 | (True, fs) \<Rightarrow> (Inr (), fs)))"

definition get_or_create_cert ::
  "'c cert_lib \<Rightarrow> file_io \<Rightarrow> bool \<Rightarrow> string \<Rightarrow> string \<Rightarrow> files \<Rightarrow> (cert_error + identity) \<times> files" where
  "get_or_create_cert L io auto cert_path key_path fs =
     (if cert_path \<noteq> [] \<and> key_path \<noteq> [] \<and> fs cert_path \<noteq> None \<and> fs key_path \<noteq> None
      then (load_cert_from_files L io cert_path key_path fs, fs)
      else case generate_self_signed_cert L of
        Inl e \<Rightarrow> (Inl e, fs)
      | Inr ident \<Rightarrow>
          if auto \<and> cert_path \<noteq> [] \<and> key_path \<noteq> []
          then (Inr ident, snd (save_cert_to_files L io ident cert_path key_path fs))
          else (Inr ident, fs))"

definition build_server_tls_config ::
  "'c cert_lib \<Rightarrow> file_io \<Rightarrow> tls_section \<Rightarrow> files \<Rightarrow> (cert_error + 'c) \<times> files" where
  "build_server_tls_config L io tls fs =
     (case get_or_create_cert L io (auto_cert tls) (cert_file tls) (key_file tls) fs of
        (Inl e, fs) \<Rightarrow> (Inl e, fs)
      | (Inr (certs, key), fs) \<Rightarrow>
          (case cb_server_config L certs key of
             None \<Rightarrow> (Inl Tls_Config_Failed, fs)
           | Some config \<Rightarrow> (Inr config, fs)))"

section \<open>Lemmas\<close>

text \<open>
  Documented behaviour of the PEM libraries: the reader finds the certificates and the key the writer
  wrote, and an empty text holds no key.
\<close>

definition pem_ok :: "'c cert_lib \<Rightarrow> bool" where
  "pem_ok L \<longleftrightarrow>
     (\<forall>certs. cb_pem_certs L (cert_pem L certs) = Some certs) \<and>
     (\<forall>key pem. key_pem L key = Some pem \<longrightarrow> cb_pem_key L pem = Some (Some key)) \<and>
     cb_pem_key L [] = Some None"

definition same_pem :: "'c cert_lib \<Rightarrow> 'c cert_lib \<Rightarrow> bool" where
  "same_pem L L' \<longleftrightarrow>
     cb_pem_encode L' = cb_pem_encode L \<and> cb_pem_certs L' = cb_pem_certs L \<and> cb_pem_key L' = cb_pem_key L"

lemma generated_key: "generate_self_signed_cert L = Inr ident \<Longrightarrow> \<exists>c k. ident = ([c], Pkcs8 k)"
  by (auto simp: generate_self_signed_cert_def split: if_splits option.splits)

lemma ia5_localhost [simp]: "ia5_string ''localhost''"
  by (simp add: ia5_string_def)

text \<open>Saving and loading again, through two different files.\<close>

lemma load_saved:
  assumes "pem_ok L" "cert_path \<noteq> key_path" "io_read io cert_path" "io_read io key_path"
    and "save_cert_to_files L io' ident cert_path key_path fs = (Inr (), fs')"
  shows "load_cert_from_files L io cert_path key_path fs' = Inr ident"
    and "fs' cert_path \<noteq> None" "fs' key_path \<noteq> None"
proof -
  from assms(5) obtain pem where k: "key_pem L (snd ident) = Some pem"
    and fs': "fs' = fs(cert_path \<mapsto> cert_pem L (fst ident), key_path \<mapsto> pem)"
    by (auto simp: save_cert_to_files_def write_file_def Let_def
        split: if_splits option.splits prod.splits bool.splits)
  show "fs' cert_path \<noteq> None" "fs' key_path \<noteq> None" by (simp_all add: fs')
  show "load_cert_from_files L io cert_path key_path fs' = Inr ident"
    using assms(1-4) k by (simp add: load_cert_from_files_def read_file_def fs' pem_ok_def)
qed

lemma saved_without_errors:
  assumes "generate_self_signed_cert L = Inr ident"
  shows "\<exists>fs'. save_cert_to_files L no_io_error ident cert_path key_path fs = (Inr (), fs')"
  using generated_key [OF assms] by (auto simp: save_cert_to_files_def no_io_error_def write_file_def Let_def)

text \<open>Loading depends on the PEM part of the library only.\<close>

lemma load_same_pem:
  assumes "same_pem L L'"
  shows "load_cert_from_files L' io cert_path key_path fs = load_cert_from_files L io cert_path key_path fs"
proof -
  have "cb_pem_certs L' = cb_pem_certs L" "cb_pem_key L' = cb_pem_key L"
    using assms by (simp_all add: same_pem_def)
  then show ?thesis by (simp add: load_cert_from_files_def split: option.splits)
qed

text \<open>What a first call answers a second one finds, whether the first found or made it.\<close>

lemma identity_kept:
  assumes "pem_ok L" "same_pem L L'" "cert_path \<noteq> []" "key_path \<noteq> []" "cert_path \<noteq> key_path"
    and "get_or_create_cert L no_io_error True cert_path key_path fs = (Inr ident, fs')"
  shows "get_or_create_cert L' no_io_error auto cert_path key_path fs' = (Inr ident, fs')"
proof -
  have io: "io_read no_io_error p" for p by (simp add: no_io_error_def)
  have "load_cert_from_files L no_io_error cert_path key_path fs' = Inr ident \<and>
      fs' cert_path \<noteq> None \<and> fs' key_path \<noteq> None"
  proof (cases "fs cert_path \<noteq> None \<and> fs key_path \<noteq> None")
    case True
    with assms(3,4,6) show ?thesis by (auto simp: get_or_create_cert_def)
  next
    case False
    with assms(3,4,6) have gen: "generate_self_signed_cert L = Inr ident"
      and fs': "fs' = snd (save_cert_to_files L no_io_error ident cert_path key_path fs)"
      by (auto simp: get_or_create_cert_def split: if_splits sum.splits)
    from saved_without_errors [OF gen, of cert_path key_path fs] fs'
    have "save_cert_to_files L no_io_error ident cert_path key_path fs = (Inr (), fs')" by auto
    from load_saved [OF assms(1,5) io io this] show ?thesis by blast
  qed
  with load_same_pem [OF assms(2)] assms(3,4) show ?thesis by (simp add: get_or_create_cert_def)
qed

section \<open>Properties\<close>

text \<open>
  C27. The server keeps its identity: started with \<^verbatim>\<open>auto_cert\<close> and two paths, it finds or makes a
  certificate, and every later start, whatever its key generator gives, finds the same certificate and key in
  the files and leaves the files as they are, so that clients that trust the certificate keep working.
\<close>
theorem certificate_survives_restart:
  assumes "pem_ok L" and "same_pem L L'"
    and "cert_path \<noteq> []" and "key_path \<noteq> []" and "cert_path \<noteq> key_path"
    and "get_or_create_cert L no_io_error True cert_path key_path fs = (Inr ident, fs')"
  shows "get_or_create_cert L' no_io_error auto cert_path key_path fs' = (Inr ident, fs')"
  by (rule identity_kept [OF assms])

text \<open>A concrete instance: tagged fields instead of PEM.\<close>

definition sample_pem_encode :: "string \<Rightarrow> bytes \<Rightarrow> bytes" where
  "sample_pem_encode label d =
     (if label = ''CERTIFICATE'' then put_field d
      else put_field ((if label = ''RSA PRIVATE KEY'' then 1 else if label = ''PRIVATE KEY'' then 2 else 3) # d))"

definition sample_pem_key :: "bytes \<Rightarrow> private_key option option" where
  "sample_pem_key b =
     (case get_fields [] b of
        (t # d) # _ \<Rightarrow> Some (Some (if t = 1 then Pkcs1 d else if t = 2 then Pkcs8 d else Sec1 d))
      | _ \<Rightarrow> Some None)"

definition sample_cert_lib :: "bytes \<Rightarrow> identity cert_lib" where
  "sample_cert_lib key =
     \<lparr>cb_keygen = Some key, cb_self_sign = (\<lambda>params k. Some k), cb_pem_encode = sample_pem_encode,
      cb_pem_certs = (\<lambda>b. Some (get_fields [] b)), cb_pem_key = sample_pem_key,
      cb_server_config = (\<lambda>certs key. if certs = [] then None else Some (certs, key))\<rparr>"

lemma sample_pem_ok: "pem_ok (sample_cert_lib k)"
proof -
  have f: "get_fields [] (put_field d) = [d]" for d using get_put_field [of "[]" d "[]"] by simp
  have "cb_pem_key (sample_cert_lib k) pem = Some (Some key)" if "key_pem (sample_cert_lib k) key = Some pem"
    for key pem
    using that by (cases key)
      (auto simp: sample_cert_lib_def sample_pem_encode_def sample_pem_key_def f simp del: put_field.simps)
  moreover have "sample_pem_encode ''CERTIFICATE'' = put_field"
    by (rule ext) (simp add: sample_pem_encode_def)
  then have "cb_pem_certs (sample_cert_lib k) (cert_pem (sample_cert_lib k) certs) = Some certs" for certs
    using get_put_fields [of certs]
    by (simp add: sample_cert_lib_def cert_pem_def put_fields_def)
  ultimately show ?thesis
    unfolding pem_ok_def by (simp add: sample_cert_lib_def sample_pem_key_def)
qed

lemma sample_generate: "generate_self_signed_cert (sample_cert_lib k) = Inr ([k], Pkcs8 k)"
  by (simp add: generate_self_signed_cert_def sample_cert_lib_def)

theorem certificate_survives_restart_witness:
  "\<exists>fs'. fst (get_or_create_cert (sample_cert_lib [7, 8]) no_io_error True ''c.pem'' ''k.pem'' fs') =
     Inr ([[1, 2]], Pkcs8 [1, 2])"
proof -
  obtain r fs' where g: "get_or_create_cert (sample_cert_lib [1, 2]) no_io_error True ''c.pem'' ''k.pem'' Map.empty = (r, fs')"
    by fastforce
  then have "r = Inr ([[1, 2]], Pkcs8 [1, 2])"
    by (auto simp: get_or_create_cert_def sample_generate)
  with g have g: "get_or_create_cert (sample_cert_lib [1, 2]) no_io_error True ''c.pem'' ''k.pem'' Map.empty =
      (Inr ([[1, 2]], Pkcs8 [1, 2]), fs')" by simp
  have "same_pem (sample_cert_lib [1, 2]) (sample_cert_lib [7, 8])"
    by (simp add: same_pem_def sample_cert_lib_def)
  from certificate_survives_restart [OF sample_pem_ok this _ _ _ g, of True]
  show ?thesis by (intro exI [of _ fs']) simp
qed

text \<open>
  A start whose key file cannot be written ruins the next ones: the certificate is written first, the
  key file created and then not filled (a full disk); this start goes on with the certificate in memory, but every
  later start finds both files, takes the empty key file for the user's, and fails, even with
  \<^verbatim>\<open>auto_cert\<close> and with nothing wrong with the disk any more.
\<close>
theorem failed_key_write_blocks_restart:
  assumes "pem_ok L" and "cert_path \<noteq> []" and "key_path \<noteq> []" and "cert_path \<noteq> key_path"
    and "tls = \<lparr>auto_cert = True, cert_file = cert_path, key_file = key_path\<rparr>"
    and "fs cert_path = None \<or> fs key_path = None"
    and "io = no_io_error\<lparr>io_write_fails := [key_path \<mapsto> 0]\<rparr>"
    and "build_server_tls_config L io tls fs = (Inr config, fs')"
  shows "build_server_tls_config L no_io_error tls fs' = (Inl No_Private_Key, fs')"
proof -
  from assms(2,3,5,6,8) obtain ident where gen: "generate_self_signed_cert L = Inr ident"
    and fs': "fs' = snd (save_cert_to_files L io ident cert_path key_path fs)"
    by (auto simp: build_server_tls_config_def get_or_create_cert_def split: if_splits sum.splits option.splits)
  obtain c k where "ident = ([c], Pkcs8 k)" using generated_key [OF gen] by blast
  then have "fs' = fs(cert_path \<mapsto> cert_pem L [c], key_path \<mapsto> [])"
    using assms(4) by (simp add: fs' save_cert_to_files_def assms(7) no_io_error_def write_file_def Let_def)
  then show ?thesis
    using assms(1-5)
    by (simp add: build_server_tls_config_def get_or_create_cert_def load_cert_from_files_def read_file_def
        no_io_error_def pem_ok_def)
qed

theorem failed_key_write_blocks_restart_witness:
  "\<exists>config fs'. build_server_tls_config (sample_cert_lib [1]) (no_io_error\<lparr>io_write_fails := [''k.pem'' \<mapsto> 0]\<rparr>)
      \<lparr>auto_cert = True, cert_file = ''c.pem'', key_file = ''k.pem''\<rparr> Map.empty = (Inr config, fs') \<and>
    build_server_tls_config (sample_cert_lib [1]) no_io_error
      \<lparr>auto_cert = True, cert_file = ''c.pem'', key_file = ''k.pem''\<rparr> fs' = (Inl No_Private_Key, fs')"
proof -
  let ?io = "no_io_error\<lparr>io_write_fails := [''k.pem'' \<mapsto> 0]\<rparr>"
  let ?tls = "\<lparr>auto_cert = True, cert_file = ''c.pem'', key_file = ''k.pem''\<rparr>"
  have "cb_server_config (sample_cert_lib [1]) [[1]] (Pkcs8 [1]) = Some ([[1]], Pkcs8 [1])"
    by (simp add: sample_cert_lib_def)
  then obtain fs' where b: "build_server_tls_config (sample_cert_lib [1]) ?io ?tls Map.empty =
      (Inr ([[1]], Pkcs8 [1]), fs')"
    by (simp add: build_server_tls_config_def get_or_create_cert_def sample_generate)
  from failed_key_write_blocks_restart [OF sample_pem_ok _ _ _ refl _ refl b] b show ?thesis by auto
qed

text \<open>
  A certificate of the user's is overwritten when its key file is not found: the existing file is
  replaced by the generated certificate.
\<close>

lemma missing_key_overwrites_certificate:
  assumes "cert_path \<noteq> []" "key_path \<noteq> []" "cert_path \<noteq> key_path" "fs cert_path = Some mine" "fs key_path = None"
    and "get_or_create_cert L no_io_error True cert_path key_path fs = (Inr ident, fs')"
  shows "fs' cert_path = Some (cert_pem L (fst ident)) \<and> generate_self_signed_cert L = Inr ident"
proof -
  from assms(1,2,5,6) have gen: "generate_self_signed_cert L = Inr ident"
    and fs': "fs' = snd (save_cert_to_files L no_io_error ident cert_path key_path fs)"
    by (auto simp: get_or_create_cert_def split: sum.splits)
  obtain c k where "ident = ([c], Pkcs8 k)" using generated_key [OF gen] by blast
  with gen assms(3) show ?thesis
    by (simp add: fs' save_cert_to_files_def no_io_error_def write_file_def Let_def)
qed

end
