(* ===== verification/Server_Main.thy ===== *)
theory Server_Main
  imports Server_Props Tls_Cert
begin

text \<open>
  \<^verbatim>\<open>main\<close> of \<^verbatim>\<open>crates/server/src/main.rs\<close> with its early returns: the certificate of the tunnel, the
  database, the listeners of the stored rules, and the certificate of the HTTPS listener, which is taken
  in a second call.
\<close>

section \<open>Start-up with its failures\<close>

datatype start_error = Start_Tls cert_error | Start_Database

text \<open>What a started server has: its state, the TLS configuration of the tunnel, and that of the HTTPS listener.\<close>

record 'c started =
  st_world :: server_world
  st_tunnel_tls :: 'c
  st_https_tls :: "'c option"

text \<open>
  \<open>L\<close> and \<open>L'\<close> are the certificate libraries with what their random generators give in the first and in the
  second call; \<open>rows\<close> is the content of the database, \<open>None\<close> if it cannot be opened.
\<close>

definition server_main ::
  "vec_json \<Rightarrow> 'c cert_lib \<Rightarrow> 'c cert_lib \<Rightarrow> file_io \<Rightarrow> file_io \<Rightarrow> (nat \<Rightarrow> bool) \<Rightarrow> bytes \<Rightarrow>
   (bool \<Rightarrow> u16 \<Rightarrow> bool) \<Rightarrow> server_config \<Rightarrow> proxy_rule_row list option \<Rightarrow> files \<Rightarrow>
   (start_error + 'c started) \<times> files" where
  "server_main V L L' io io' F random busy cfg rows fs =
     (case build_server_tls_config L io (cfg_tls cfg) fs of
        (Inl e, fs) \<Rightarrow> (Inl (Start_Tls e), fs)
      | (Inr tls, fs) \<Rightarrow>
          (case rows of
             None \<Rightarrow> (Inl Start_Database, fs)
           | Some rows \<Rightarrow>
               let w = server_boot V F random busy cfg rows in
               if https_port (cfg_server cfg) > 0 then
                 (case build_server_tls_config L' io' (cfg_tls cfg) fs of
                    (Inl e, fs) \<Rightarrow> (Inl (Start_Tls e), fs)
                  | (Inr https, fs) \<Rightarrow>
                      (Inr \<lparr>st_world = w, st_tunnel_tls = tls, st_https_tls = Some https\<rparr>, fs))
               else (Inr \<lparr>st_world = w, st_tunnel_tls = tls, st_https_tls = None\<rparr>, fs)))"

section \<open>Lemmas\<close>

text \<open>Two calls with the same paths build the same configuration.\<close>

lemma same_config:
  assumes "pem_ok L" "same_pem L L'" "cb_server_config L' = cb_server_config L"
    and "auto_cert tls" "cert_file tls \<noteq> []" "key_file tls \<noteq> []" "cert_file tls \<noteq> key_file tls"
    and "build_server_tls_config L no_io_error tls fs = (Inr config, fs')"
  shows "build_server_tls_config L' no_io_error tls fs' = (Inr config, fs')"
proof -
  from assms(8) obtain ident where g: "get_or_create_cert L no_io_error (auto_cert tls) (cert_file tls) (key_file tls) fs =
      (Inr ident, fs')" "cb_server_config L (fst ident) (snd ident) = Some config"
    by (auto simp: build_server_tls_config_def split: prod.splits sum.splits option.splits)
  have a: "auto_cert tls = True" using assms(4) by simp
  from identity_kept [OF assms(1,2,5,6,7) g(1) [unfolded a], of True] g(2) assms(3) a show ?thesis
    by (cases ident) (simp add: build_server_tls_config_def)
qed

text \<open>A start that succeeded, and what it was built from.\<close>

lemma server_main_Inr:
  assumes "server_main V L L' io io' F random busy cfg rows fs = (Inr s, fs')"
  obtains rs fs1 where "rows = Some rs"
    "build_server_tls_config L io (cfg_tls cfg) fs = (Inr (st_tunnel_tls s), fs1)"
    "st_world s = server_boot V F random busy cfg rs"
    "https_port (cfg_server cfg) > 0 \<Longrightarrow> \<exists>h. st_https_tls s = Some h \<and>
       build_server_tls_config L' io' (cfg_tls cfg) fs1 = (Inr h, fs')"
    "\<not> https_port (cfg_server cfg) > 0 \<Longrightarrow> st_https_tls s = None \<and> fs' = fs1"
proof -
  from assms obtain rs where rs: "rows = Some rs"
    by (auto simp: server_main_def split: prod.splits sum.splits option.splits)
  obtain t fs1 where t: "build_server_tls_config L io (cfg_tls cfg) fs = (t, fs1)" by fastforce
  obtain t' fs2 where t': "build_server_tls_config L' io' (cfg_tls cfg) fs1 = (t', fs2)" by fastforce
  show ?thesis
    by (rule that [of rs fs1]) (use assms rs t t' in \<open>auto simp: server_main_def Let_def
        split: sum.splits if_splits\<close>)
qed

section \<open>Properties\<close>

text \<open>
  C28. One identity everywhere: with \<^verbatim>\<open>auto_cert\<close> and two paths the HTTPS listener, which asks for its
  certificate in a call of its own, and every later start of the server, whatever the random generators
  give, use the TLS configuration of the tunnel; and the started server is consistent.
\<close>
theorem one_identity:
  assumes "pem_ok L" and "same_pem L L'" and "cb_server_config L' = cb_server_config L"
    and "auto_cert (cfg_tls cfg)" and "cert_file (cfg_tls cfg) \<noteq> []" and "key_file (cfg_tls cfg) \<noteq> []"
    and "cert_file (cfg_tls cfg) \<noteq> key_file (cfg_tls cfg)"
    and "server_main V L L' no_io_error no_io_error F random busy cfg (Some rows) fs = (Inr s, fs')"
    and "vec_json_ok V" and "\<not> F 0" and "distinct (map row_name rows)"
  shows "(https_port (cfg_server cfg) > 0 \<longrightarrow> st_https_tls s = Some (st_tunnel_tls s)) \<and>
    build_server_tls_config L' no_io_error (cfg_tls cfg) fs' = (Inr (st_tunnel_tls s), fs') \<and>
    sys_inv V (st_world s)"
  using assms(8)
proof (rule server_main_Inr)
  fix rs fs1
  assume rs: "Some rows = Some rs"
    and t: "build_server_tls_config L no_io_error (cfg_tls cfg) fs = (Inr (st_tunnel_tls s), fs1)"
    and w: "st_world s = server_boot V F random busy cfg rs"
    and h: "https_port (cfg_server cfg) > 0 \<Longrightarrow> \<exists>h. st_https_tls s = Some h \<and>
       build_server_tls_config L' no_io_error (cfg_tls cfg) fs1 = (Inr h, fs')"
    and n: "\<not> https_port (cfg_server cfg) > 0 \<Longrightarrow> st_https_tls s = None \<and> fs' = fs1"
  have sys: "sys_inv V (st_world s)"
    unfolding w by (rule server_boot_sys) (use assms(9-11) rs in simp_all)
  note again = same_config [OF assms(1-7) t]
  show ?thesis
  proof (cases "https_port (cfg_server cfg) > 0")
    case True
    with h again have "st_https_tls s = Some (st_tunnel_tls s)" "fs' = fs1" by auto
    with again sys show ?thesis by simp
  next
    case False
    with n again sys show ?thesis by simp
  qed
qed

definition sample_main_config :: server_config where
  "sample_main_config =
     (sample_config ''admin'' ''pw'')
       \<lparr>cfg_server := (cfg_server (sample_config ''admin'' ''pw''))\<lparr>https_port := 443\<rparr>,
        cfg_tls := \<lparr>auto_cert = True, cert_file = ''c.pem'', key_file = ''k.pem''\<rparr>\<rparr>"

theorem one_identity_witness:
  "\<exists>s fs'. server_main sample_vec_json (sample_cert_lib [1]) (sample_cert_lib [2]) no_io_error no_io_error
      no_faults [] free_ports sample_main_config (Some []) Map.empty = (Inr s, fs') \<and>
    st_https_tls s = Some ([[1]], Pkcs8 [1])"
proof -
  let ?cfg = sample_main_config
  have c: "cfg_tls ?cfg = \<lparr>auto_cert = True, cert_file = ''c.pem'', key_file = ''k.pem''\<rparr>"
    "https_port (cfg_server ?cfg) = 443"
    by (simp_all add: sample_main_config_def)
  have p: "same_pem (sample_cert_lib [1]) (sample_cert_lib [2])"
    "cb_server_config (sample_cert_lib [2]) = cb_server_config (sample_cert_lib [1])"
    by (simp_all add: same_pem_def sample_cert_lib_def)
  have k: "cb_server_config (sample_cert_lib [1]) [[1]] (Pkcs8 [1]) = Some ([[1]], Pkcs8 [1])"
    by (simp add: sample_cert_lib_def)
  then obtain fs1 where t: "build_server_tls_config (sample_cert_lib [1]) no_io_error (cfg_tls ?cfg) Map.empty =
      (Inr ([[1]], Pkcs8 [1]), fs1)"
    by (simp add: build_server_tls_config_def get_or_create_cert_def sample_generate c)
  have "build_server_tls_config (sample_cert_lib [2]) no_io_error (cfg_tls ?cfg) fs1 =
      (Inr ([[1]], Pkcs8 [1]), fs1)"
    by (rule same_config [OF sample_pem_ok p _ _ _ _ t]) (simp_all add: c)
  with t have m: "server_main sample_vec_json (sample_cert_lib [1]) (sample_cert_lib [2]) no_io_error no_io_error
      no_faults [] free_ports ?cfg (Some []) Map.empty =
      (Inr \<lparr>st_world = server_boot sample_vec_json no_faults [] free_ports ?cfg [],
            st_tunnel_tls = ([[1]], Pkcs8 [1]), st_https_tls = Some ([[1]], Pkcs8 [1])\<rparr>, fs1)"
    by (simp add: server_main_def Let_def c)
  from one_identity [OF sample_pem_ok p _ _ _ _ m] c m show ?thesis by auto
qed

text \<open>Without paths nothing is stored: the two listeners have different keys whenever the generator gives different ones.\<close>

lemma unstored_identities_differ:
  assumes "cert_file tls = []" "generate_self_signed_cert L = Inr i" "generate_self_signed_cert L' = Inr i'"
    and "i \<noteq> i'"
  shows "fst (get_or_create_cert L io (auto_cert tls) (cert_file tls) (key_file tls) fs) \<noteq>
    fst (get_or_create_cert L' io (auto_cert tls) (cert_file tls) (key_file tls) fs)"
  using assms by (simp add: get_or_create_cert_def)

end
