(* ===== verification/Session_Locks.thy ===== *)
theory Session_Locks
  imports Session
begin

text \<open>
  The session table of \<^verbatim>\<open>crates/server/src/client_session.rs\<close> with its lock and the
  capacity of its channels: every method of \<^verbatim>\<open>ClientSessionManager\<close> split at its
  \<^verbatim>\<open>await\<close> points. A call asks for the read or write half of the lock, waits, runs its body
  and may wait again, with the lock in hand, for room in a channel of 256 messages. The policy of the
  lock (tokio's \<^verbatim>\<open>RwLock\<close>) is a parameter with the documented contract, locale
  \<open>rwlock\<close>. Theory Session has the same methods as one step each.
\<close>

section \<open>The lock\<close>

datatype access = Read | Write

text \<open>
  Holders and waiting tasks (in order of arrival), and whether task \<open>t\<close> is let in. The contract:
  only waiting tasks are; writers exclude everybody, readers exclude writers; nobody overtakes a writer
  that asked before; a free lock is given to somebody.
\<close>

type_synonym 't policy = "('t \<times> access) list \<Rightarrow> ('t \<times> access) list \<Rightarrow> 't \<Rightarrow> bool"

locale rwlock =
  fixes grant :: "'t policy"
  assumes grant_waiting: "grant H W t \<Longrightarrow> t \<in> fst ` set W"
    and grant_write: "grant H W t \<Longrightarrow> map_of W t = Some Write \<Longrightarrow> H = []"
    and grant_read: "grant H W t \<Longrightarrow> map_of W t = Some Read \<Longrightarrow> (u, Write) \<notin> set H"
    and grant_queue:
      "grant H (p @ (u, Write) # q) t \<Longrightarrow> distinct (map fst (p @ (u, Write) # q)) \<Longrightarrow> t \<notin> fst ` set q"
    and grant_progress: "W \<noteq> [] \<Longrightarrow> \<exists>t. grant [] W t"

text \<open>The policy that serves the queue strictly in order.\<close>

fun fifo_grant :: "('t \<times> access) list \<Rightarrow> ('t \<times> access) list \<Rightarrow> 't \<Rightarrow> bool" where
  "fifo_grant H [] t \<longleftrightarrow> False"
| "fifo_grant H ((u, Read) # W) t \<longleftrightarrow> t = u \<and> Write \<notin> snd ` set H"
| "fifo_grant H ((u, Write) # W) t \<longleftrightarrow> t = u \<and> H = []"

interpretation fifo: rwlock fifo_grant
proof
  fix H W p q :: "('t \<times> access) list" and t u :: 't
  show "fifo_grant H W t \<Longrightarrow> t \<in> fst ` set W"
    by (cases "(H, W, t)" rule: fifo_grant.cases) auto
  show "fifo_grant H W t \<Longrightarrow> map_of W t = Some Write \<Longrightarrow> H = []"
    by (cases "(H, W, t)" rule: fifo_grant.cases) auto
  show "fifo_grant H W t \<Longrightarrow> map_of W t = Some Read \<Longrightarrow> (u, Write) \<notin> set H"
    by (cases "(H, W, t)" rule: fifo_grant.cases) force+
  show "t \<notin> fst ` set q" if "fifo_grant H (p @ (u, Write) # q) t" "distinct (map fst (p @ (u, Write) # q))"
  proof (cases p)
    case Nil
    with that show ?thesis by auto
  next
    case (Cons x p')
    with that show ?thesis by (cases x; cases "snd x") auto
  qed
  show "W \<noteq> [] \<Longrightarrow> \<exists>t. fifo_grant [] W t"
    by (cases "([] :: ('t \<times> access) list, W, undefined :: 't)" rule: fifo_grant.cases) auto
qed

section \<open>Calls and tasks\<close>

text \<open>The methods of the table; \<open>Session ch\<close> is the task that serves a client connection with channel
  \<open>ch\<close>, \<open>Caller k\<close> any other task that sends to a client (HTTP handlers, listeners).\<close>

datatype session_op =
    Register string nat
  | Unregister string
  | Send_To string message
  | Connected_Clients

datatype task = Session nat | Caller nat

fun access_of :: "session_op \<Rightarrow> access" where
  "access_of (Register cid tx) = Write"
| "access_of (Unregister cid) = Write"
| "access_of (Send_To cid m) = Read"
| "access_of Connected_Clients = Read"

text \<open>
  Where a task is inside a method: not in one, waiting for the lock, admitted, waiting in
  \<^verbatim>\<open>tx.send(msg).await\<close> with the lock in hand, or returned from \<^verbatim>\<open>connected_clients\<close>
  with the list.
\<close>

datatype stage =
    Idle
  | Await_Lock session_op
  | Locked session_op
  | Sending session_op nat message
  | Listed "string list"

text \<open>
  Where the handler of a connection is: its registration, its first publication of the client list, the
  push of the rules, the \<^verbatim>\<open>select!\<close>, a \<^verbatim>\<open>framed.send(..).await\<close> in an arm of it, after
  the loop, and the last publication. Only \<open>Serving\<close> receives from the channel.
\<close>

datatype handler_phase = Registering | Publishing | Pushing | Serving | Writing | Leaving | Withdrawing

record hub =
  hb_sm :: session_manager
  hb_holding :: "(task \<times> access) list"
  hb_waiting :: "(task \<times> access) list"
  hb_stage :: "task \<Rightarrow> stage"
  hb_session :: "nat \<Rightarrow> (string \<times> handler_phase) option"
  hb_published :: "string list"
  hb_next :: nat

definition hub_new :: hub where
  "hub_new = \<lparr>hb_sm = session_manager_new, hb_holding = [], hb_waiting = [], hb_stage = (\<lambda>_. Idle),
     hb_session = (\<lambda>_. None), hb_published = [], hb_next = 0\<rparr>"

section \<open>Steps\<close>

text \<open>\<^verbatim>\<open>self.inner.read().await\<close>, \<^verbatim>\<open>self.inner.write().await\<close>, the grant, and the
  release when the method returns.\<close>

definition ask :: "task \<Rightarrow> session_op \<Rightarrow> hub \<Rightarrow> hub" where
  "ask t oper s = s\<lparr>hb_stage := (hb_stage s)(t := Await_Lock oper),
     hb_waiting := hb_waiting s @ [(t, access_of oper)]\<rparr>"

definition admit :: "task \<Rightarrow> session_op \<Rightarrow> hub \<Rightarrow> hub" where
  "admit t oper s = s\<lparr>hb_stage := (hb_stage s)(t := Locked oper),
     hb_waiting := AList.delete t (hb_waiting s), hb_holding := (t, access_of oper) # hb_holding s\<rparr>"

definition return :: "task \<Rightarrow> stage \<Rightarrow> hub \<Rightarrow> hub" where
  "return t st s = s\<lparr>hb_stage := (hb_stage s)(t := st), hb_holding := AList.delete t (hb_holding s)\<rparr>"

text \<open>The body of each method, up to its return or to the wait for room in a channel.\<close>

fun body :: "task \<Rightarrow> session_op \<Rightarrow> hub \<Rightarrow> hub" where
  "body t (Register cid tx) s =
     (let sm = hb_sm s in
      case map_of (sm_inner sm) cid of
        Some old \<Rightarrow>
          s\<lparr>hb_sm := sm\<lparr>sm_inner := AList.delete cid (sm_inner sm)\<rparr>,
            hb_stage := (hb_stage s)(t := Sending (Register cid tx) old (Control Ping))\<rparr>
      | None \<Rightarrow>
          return t Idle (s\<lparr>hb_sm := sm\<lparr>sm_inner := AList.update cid tx (sm_inner sm)\<rparr>\<rparr>))"
| "body t (Unregister cid) s = return t Idle (s\<lparr>hb_sm := unregister cid (hb_sm s)\<rparr>)"
| "body t (Send_To cid m) s =
     (case map_of (sm_inner (hb_sm s)) cid of
        Some tx \<Rightarrow> s\<lparr>hb_stage := (hb_stage s)(t := Sending (Send_To cid m) tx m)\<rparr>
      | None \<Rightarrow> return t Idle s)"
| "body t Connected_Clients s = return t (Listed (connected_clients (hb_sm s))) s"

definition CHANNEL_CAPACITY :: nat where
  "CHANNEL_CAPACITY = 256"

text \<open>A send completes when the receiver is gone (an error) or the channel has room.\<close>

definition can_send :: "nat \<Rightarrow> session_manager \<Rightarrow> bool" where
  "can_send ch sm \<longleftrightarrow> ch \<notin> sm_alive sm \<or> length (sm_queue sm ch) < CHANNEL_CAPACITY"

definition after_send :: "task \<Rightarrow> session_op \<Rightarrow> nat \<Rightarrow> message \<Rightarrow> hub \<Rightarrow> hub" where
  "after_send t oper ch m s =
     (let sm = snd (chan_send ch m (hb_sm s)) in
      return t Idle
        (s\<lparr>hb_sm := (case oper of
             Register cid tx \<Rightarrow> sm\<lparr>sm_inner := AList.update cid tx (sm_inner sm)\<rparr>
           | _ \<Rightarrow> sm)\<rparr>))"

text \<open>
  The steps of the lock and the methods, and those of the handlers and their surroundings. A connection
  gets a fresh channel; \<open>Next_Call\<close> is the handler going on to its next method; \<open>Leave\<close> covers
  every way out of the \<^verbatim>\<open>select!\<close>: closed, parse error, heartbeat timeout, end of the channel.
\<close>

datatype lock_event = Grant task | Enter task | Deliver task

datatype hub_event =
    Lock lock_event
  | Connect string
  | Call nat string message
  | Next_Call nat
  | Publish nat
  | Pushed_All nat
  | Receive nat
  | Answer nat
  | Written nat bool
  | Leave nat

fun lock_fire :: "task policy \<Rightarrow> lock_event \<Rightarrow> hub \<Rightarrow> hub option" where
  "lock_fire G (Grant t) s =
     (case hb_stage s t of
        Await_Lock oper \<Rightarrow> if G (hb_holding s) (hb_waiting s) t then Some (admit t oper s) else None
      | _ \<Rightarrow> None)"
| "lock_fire G (Enter t) s =
     (case hb_stage s t of Locked oper \<Rightarrow> Some (body t oper s) | _ \<Rightarrow> None)"
| "lock_fire G (Deliver t) s =
     (case hb_stage s t of
        Sending oper ch m \<Rightarrow> if can_send ch (hb_sm s) then Some (after_send t oper ch m s) else None
      | _ \<Rightarrow> None)"

definition set_handler_phase :: "nat \<Rightarrow> string \<Rightarrow> handler_phase \<Rightarrow> hub \<Rightarrow> hub" where
  "set_handler_phase ch cid ph s = s\<lparr>hb_session := (hb_session s)(ch \<mapsto> (cid, ph))\<rparr>"

fun next_call :: "nat \<Rightarrow> string \<times> handler_phase \<Rightarrow> hub \<Rightarrow> hub option" where
  "next_call ch (cid, Registering) s = Some (ask (Session ch) Connected_Clients (set_handler_phase ch cid Publishing s))"
| "next_call ch (cid, Leaving) s = Some (ask (Session ch) (Unregister cid) (set_handler_phase ch cid Withdrawing s))"
| "next_call ch (cid, Withdrawing) s = Some (ask (Session ch) Connected_Clients s)"
| "next_call ch _ s = None"

text \<open>After \<^verbatim>\<open>set_connected_clients\<close>: on to the rules, or the handler returns and drops its
  receiver.\<close>

definition publish :: "nat \<Rightarrow> string list \<Rightarrow> string \<times> handler_phase \<Rightarrow> hub \<Rightarrow> hub" where
  "publish ch xs p s =
     (let s = s\<lparr>hb_published := xs, hb_stage := (hb_stage s)(Session ch := Idle)\<rparr> in
      if snd p = Publishing then set_handler_phase ch (fst p) Pushing s
      else s\<lparr>hb_session := (hb_session s)(ch := None),
             hb_sm := (hb_sm s)\<lparr>sm_alive := sm_alive (hb_sm s) - {ch}\<rparr>\<rparr>)"

fun hub_fire :: "task policy \<Rightarrow> hub_event \<Rightarrow> hub \<Rightarrow> hub option" where
  "hub_fire G (Lock e) s = lock_fire G e s"
| "hub_fire G (Connect cid) s =
     (let ch = hb_next s; sm = hb_sm s in
      Some (ask (Session ch) (Register cid ch) (set_handler_phase ch cid Registering
        (s\<lparr>hb_sm := sm\<lparr>sm_alive := insert ch (sm_alive sm), sm_queue := (sm_queue sm)(ch := [])\<rparr>,
           hb_next := Suc ch\<rparr>))))"
| "hub_fire G (Call k cid m) s =
     (if hb_stage s (Caller k) = Idle then Some (ask (Caller k) (Send_To cid m) s) else None)"
| "hub_fire G (Next_Call ch) s =
     (case (hb_session s ch, hb_stage s (Session ch)) of
        (Some p, Idle) \<Rightarrow> next_call ch p s
      | _ \<Rightarrow> None)"
| "hub_fire G (Publish ch) s =
     (case (hb_session s ch, hb_stage s (Session ch)) of
        (Some p, Listed xs) \<Rightarrow> Some (publish ch xs p s)
      | _ \<Rightarrow> None)"
| "hub_fire G (Pushed_All ch) s =
     (case hb_session s ch of Some (cid, Pushing) \<Rightarrow> Some (set_handler_phase ch cid Serving s) | _ \<Rightarrow> None)"
| "hub_fire G (Receive ch) s =
     (case (hb_session s ch, sm_queue (hb_sm s) ch) of
        (Some (cid, Serving), m # rest) \<Rightarrow>
          Some (set_handler_phase ch cid Writing
            (s\<lparr>hb_sm := (hb_sm s)\<lparr>sm_queue := (sm_queue (hb_sm s))(ch := rest)\<rparr>\<rparr>))
      | _ \<Rightarrow> None)"
| "hub_fire G (Answer ch) s =
     (case hb_session s ch of Some (cid, Serving) \<Rightarrow> Some (set_handler_phase ch cid Writing s) | _ \<Rightarrow> None)"
| "hub_fire G (Written ch ok) s =
     (case hb_session s ch of
        Some (cid, Writing) \<Rightarrow> Some (set_handler_phase ch cid (if ok then Serving else Leaving) s)
      | _ \<Rightarrow> None)"
| "hub_fire G (Leave ch) s =
     (case hb_session s ch of Some (cid, Serving) \<Rightarrow> Some (set_handler_phase ch cid Leaving s) | _ \<Rightarrow> None)"

definition hub_step :: "task policy \<Rightarrow> hub \<Rightarrow> hub \<Rightarrow> bool" where
  "hub_step G s t \<longleftrightarrow> (\<exists>e. hub_fire G e s = Some t)"

definition lock_step :: "task policy \<Rightarrow> hub \<Rightarrow> hub \<Rightarrow> bool" where
  "lock_step G s t \<longleftrightarrow> (\<exists>e. lock_fire G e s = Some t)"


section \<open>Well-formed states\<close>

text \<open>The access a stage waits for, and the one it holds.\<close>

fun wants :: "stage \<Rightarrow> access option" where
  "wants (Await_Lock oper) = Some (access_of oper)"
| "wants _ = None"

fun holds :: "stage \<Rightarrow> access option" where
  "holds (Locked oper) = Some (access_of oper)"
| "holds (Sending oper ch m) = Some (access_of oper)"
| "holds _ = None"

fun busy :: "stage \<Rightarrow> bool" where
  "busy Idle \<longleftrightarrow> False"
| "busy _ \<longleftrightarrow> True"

lemma busy_iff: "busy st \<longleftrightarrow> st \<noteq> Idle"
  by (cases st) auto

definition hub_ok :: "hub \<Rightarrow> bool" where
  "hub_ok s \<longleftrightarrow>
     distinct (map fst (hb_waiting s)) \<and> distinct (map fst (hb_holding s)) \<and>
     map_of (hb_waiting s) = wants \<circ> hb_stage s \<and>
     map_of (hb_holding s) = holds \<circ> hb_stage s \<and>
     (\<forall>t u. holds (hb_stage s t) = Some Write \<longrightarrow> u \<noteq> t \<longrightarrow> holds (hb_stage s u) = None) \<and>
     (\<forall>ch. length (sm_queue (hb_sm s) ch) \<le> CHANNEL_CAPACITY) \<and>
     (\<forall>ch. hb_next s \<le> ch \<longrightarrow> hb_stage s (Session ch) = Idle \<and> hb_session s ch = None)"

lemma hub_ok_new: "hub_ok hub_new"
  by (auto simp: hub_ok_def hub_new_def session_manager_new_def fun_eq_iff)

lemma hub_okD:
  assumes "hub_ok s"
  shows "distinct (map fst (hb_waiting s))" "distinct (map fst (hb_holding s))"
    "map_of (hb_waiting s) t = wants (hb_stage s t)" "map_of (hb_holding s) t = holds (hb_stage s t)"
    "holds (hb_stage s t) = Some Write \<Longrightarrow> u \<noteq> t \<Longrightarrow> holds (hb_stage s u) = None"
    "length (sm_queue (hb_sm s) ch) \<le> CHANNEL_CAPACITY"
    "hb_next s \<le> ch \<Longrightarrow> hb_stage s (Session ch) = Idle" "hb_next s \<le> ch \<Longrightarrow> hb_session s ch = None"
  using assms by (auto simp: hub_ok_def fun_eq_iff)

lemma waiting_iff: "hub_ok s \<Longrightarrow> t \<in> fst ` set (hb_waiting s) \<longleftrightarrow> wants (hb_stage s t) \<noteq> None"
  by (simp add: hub_okD(3) [symmetric] map_of_eq_None_iff)

lemma holding_iff: "hub_ok s \<Longrightarrow> t \<in> fst ` set (hb_holding s) \<longleftrightarrow> holds (hb_stage s t) \<noteq> None"
  by (simp add: hub_okD(4) [symmetric] map_of_eq_None_iff)

lemma ask_ok:
  assumes "hub_ok s" "hb_stage s t = Idle" "\<And>ch. t = Session ch \<Longrightarrow> ch < hb_next s"
  shows "hub_ok (ask t oper s)"
proof -
  have "t \<notin> fst ` set (hb_waiting s)" using assms by (simp add: waiting_iff)
  moreover have "hb_stage s (Session ch) = Idle \<and> Session ch \<noteq> t" if "hb_next s \<le> ch" for ch
    using assms(3) [of ch] that hub_okD(7) [OF assms(1) that] by auto
  ultimately show ?thesis
    using assms(1,2)
    by (auto simp: hub_ok_def ask_def fun_eq_iff map_add_def map_of_eq_None_iff [symmetric] split: option.splits)
qed

lemma admit_ok:
  assumes "rwlock G" "hub_ok s" "hb_stage s t = Await_Lock oper" "G (hb_holding s) (hb_waiting s) t"
  shows "hub_ok (admit t oper s)"
proof -
  have w: "map_of (hb_waiting s) t = Some (access_of oper)" using assms(2,3) by (simp add: hub_okD(3))
  have "t \<notin> fst ` set (hb_holding s)" using assms(2,3) by (simp add: holding_iff)
  moreover have "holds (hb_stage s u) = None" if "access_of oper = Write" for u
  proof -
    have "hb_holding s = []" using rwlock.grant_write [OF assms(1,4)] w that by simp
    then show ?thesis using hub_okD(4) [OF assms(2), of u] by simp
  qed
  moreover have "holds (hb_stage s u) \<noteq> Some Write" if "access_of oper = Read" for u
  proof
    assume "holds (hb_stage s u) = Some Write"
    then have "(u, Write) \<in> set (hb_holding s)" using hub_okD(4) [OF assms(2), of u] by (simp add: map_of_SomeD)
    then show False using rwlock.grant_read [OF assms(1,4), of u] w that by simp
  qed
  moreover have "ch < hb_next s" if "t = Session ch" for ch
    using hub_okD(7) [OF assms(2), of ch] assms(3) that by (cases "hb_next s \<le> ch") auto
  ultimately show ?thesis
    using assms(2,3)
    by (cases "access_of oper")
      (auto simp: hub_ok_def admit_def fun_eq_iff delete_conv' distinct_delete)
qed

lemma return_ok:
  assumes "hub_ok s" "holds (hb_stage s t) \<noteq> None" "wants st = None" "holds st = None"
  shows "hub_ok (return t st s)"
proof -
  have "wants (hb_stage s t) = None" using assms(2) by (cases "hb_stage s t") auto
  moreover have "ch < hb_next s" if "t = Session ch" for ch
    using hub_okD(7) [OF assms(1), of ch] assms(2) that by (cases "hb_next s \<le> ch") auto
  ultimately show ?thesis
    using assms by (auto simp: hub_ok_def return_def fun_eq_iff delete_conv' distinct_delete)
qed

text \<open>Steps that leave the tasks alone.\<close>

lemma frame_ok:
  assumes "hub_ok s" "hb_waiting s' = hb_waiting s" "hb_holding s' = hb_holding s" "hb_stage s' = hb_stage s"
    "\<And>ch. length (sm_queue (hb_sm s') ch) \<le> CHANNEL_CAPACITY" "hb_next s' = hb_next s"
    "\<And>ch. hb_next s \<le> ch \<Longrightarrow> hb_session s' ch = None"
  shows "hub_ok s'"
  using assms by (simp add: hub_ok_def)

lemma sending_ok:
  assumes "hub_ok s" "hb_stage s t = Locked oper"
  shows "hub_ok (s\<lparr>hb_stage := (hb_stage s)(t := Sending oper ch m)\<rparr>)"
proof -
  have "ch < hb_next s" if "t = Session ch" for ch
    using hub_okD(7) [OF assms(1), of ch] assms(2) that by (cases "hb_next s \<le> ch") auto
  moreover have "holds (hb_stage s u) = None" if "access_of oper = Write" "u \<noteq> t" for u
    using hub_okD(5) [OF assms(1), of t u] assms(2) that by simp
  moreover have "holds (hb_stage s u) \<noteq> Some Write" if "u \<noteq> t" for u
    using hub_okD(5) [OF assms(1), of u t] assms(2) that by auto
  ultimately show ?thesis using assms by (auto simp: hub_ok_def fun_eq_iff)
qed

lemma body_ok:
  assumes "hub_ok s" "hb_stage s t = Locked oper"
  shows "hub_ok (body t oper s)"
proof -
  have sm: "hub_ok (s\<lparr>hb_sm := sm\<rparr>)" if "sm_queue sm = sm_queue (hb_sm s)" for sm
    using assms(1) that by (simp add: hub_ok_def)
  show ?thesis
  proof (cases oper)
    case (Register cid tx)
    show ?thesis
    proof (cases "map_of (sm_inner (hb_sm s)) cid")
      case None
      with Register assms show ?thesis by (auto simp: Let_def intro!: return_ok sm)
    next
      case (Some old)
      let ?s = "s\<lparr>hb_sm := (hb_sm s)\<lparr>sm_inner := AList.delete cid (sm_inner (hb_sm s))\<rparr>\<rparr>"
      have "hub_ok ?s" by (rule sm) simp
      from sending_ok [OF this, of t "Register cid tx" old "Control Ping"] assms(2) Register Some
      show ?thesis by (simp add: Let_def)
    qed
  qed (use assms in \<open>auto intro!: return_ok sm sending_ok split: option.splits\<close>)
qed

lemma after_send_ok:
  assumes "hub_ok s" "hb_stage s t = Sending oper ch m" "can_send ch (hb_sm s)"
  shows "hub_ok (after_send t oper ch m s)"
proof -
  let ?sm = "snd (chan_send ch m (hb_sm s))"
  have len: "length (sm_queue ?sm ch') \<le> CHANNEL_CAPACITY" for ch'
    using assms(3) hub_okD(6) [OF assms(1), of ch'] by (auto simp: chan_send_def can_send_def)
  have "hub_ok (s\<lparr>hb_sm := sm\<rparr>)" if "sm_queue sm = sm_queue ?sm" for sm
    using assms(1) len that by (simp add: hub_ok_def)
  moreover have "holds (hb_stage s t) \<noteq> None" using assms(2) by simp
  ultimately show ?thesis
    by (cases oper) (auto simp: after_send_def Let_def intro!: return_ok)
qed

lemma lock_fire_ok:
  assumes "rwlock G" "hub_ok s" "lock_fire G e s = Some t"
  shows "hub_ok t"
  using assms(3)
  by (cases e) (auto split: stage.splits if_splits intro: admit_ok [OF assms(1,2)] body_ok [OF assms(2)]
      after_send_ok [OF assms(2)])

lemma set_handler_phase_ok:
  assumes "hub_ok s" "hb_session s ch \<noteq> None"
  shows "hub_ok (set_handler_phase ch cid ph s)"
proof -
  have "ch < hb_next s" using hub_okD(8) [OF assms(1), of ch] assms(2) by (cases "hb_next s \<le> ch") auto
  then show ?thesis using assms(1) by (auto simp: hub_ok_def set_handler_phase_def)
qed

lemma session_known: "hub_ok s \<Longrightarrow> hb_session s ch \<noteq> None \<Longrightarrow> ch < hb_next s"
  using hub_okD(8) by (metis not_le)

lemma set_handler_phase_simps [simp]:
  "hb_stage (set_handler_phase ch cid ph s) = hb_stage s" "hb_waiting (set_handler_phase ch cid ph s) = hb_waiting s"
  "hb_holding (set_handler_phase ch cid ph s) = hb_holding s" "hb_sm (set_handler_phase ch cid ph s) = hb_sm s"
  "hb_next (set_handler_phase ch cid ph s) = hb_next s" "hb_published (set_handler_phase ch cid ph s) = hb_published s"
  by (simp_all add: set_handler_phase_def)

lemma next_call_ok:
  assumes "hub_ok s" "hb_session s ch = Some p" "hb_stage s (Session ch) = Idle" "next_call ch p s = Some t"
  shows "hub_ok t"
proof -
  have "ch < hb_next s" using session_known [OF assms(1)] assms(2) by simp
  then have a: "hub_ok (ask (Session ch) oper s')" if "hub_ok s'" "hb_stage s' = hb_stage s" "hb_next s' = hb_next s"
    for oper s' using that assms(3) by (auto intro: ask_ok)
  have ph: "hub_ok (set_handler_phase ch cid ph s)" for cid ph by (rule set_handler_phase_ok) (simp_all add: assms)
  from assms(4) show ?thesis
    by (cases "(ch, p, s)" rule: next_call.cases) (auto intro!: a ph assms(1))
qed

lemma publish_ok:
  assumes "hub_ok s" "hb_session s ch = Some p" "hb_stage s (Session ch) = Listed xs"
  shows "hub_ok (publish ch xs p s)"
proof -
  have "ch < hb_next s" using session_known [OF assms(1)] assms(2) by simp
  then show ?thesis
    using assms by (auto simp: hub_ok_def publish_def Let_def set_handler_phase_def fun_eq_iff)
qed

lemma hub_fire_ok:
  assumes "rwlock G" "hub_ok s" "hub_fire G e s = Some t"
  shows "hub_ok t"
proof (cases e)
  case (Lock e')
  with assms show ?thesis by (simp add: lock_fire_ok)
next
  case (Connect cid)
  let ?ch = "hb_next s"
  let ?s = "set_handler_phase ?ch cid Registering (s\<lparr>hb_sm := (hb_sm s)\<lparr>sm_alive := insert ?ch (sm_alive (hb_sm s)),
    sm_queue := (sm_queue (hb_sm s))(?ch := [])\<rparr>, hb_next := Suc ?ch\<rparr>)"
  have "hub_ok ?s" using assms(2) by (auto simp: hub_ok_def set_handler_phase_def)
  moreover have "hb_stage ?s (Session ?ch) = Idle" using hub_okD(7) [OF assms(2)] by simp
  ultimately have "hub_ok (ask (Session ?ch) (Register cid ?ch) ?s)" by (rule ask_ok) simp
  with Connect assms(3) show ?thesis by (auto simp: Let_def)
next
  case (Call k cid m)
  with assms show ?thesis by (auto intro!: ask_ok split: if_splits)
next
  case (Next_Call ch)
  with assms show ?thesis by (auto intro: next_call_ok split: option.splits stage.splits)
next
  case (Publish ch)
  with assms show ?thesis by (auto intro: publish_ok split: option.splits stage.splits)
next
  case (Receive ch)
  have "hub_ok (s\<lparr>hb_sm := (hb_sm s)\<lparr>sm_queue := (sm_queue (hb_sm s))(ch := rest)\<rparr>\<rparr>)"
    if "sm_queue (hb_sm s) ch = m # rest" for m rest
    using assms(2) hub_okD(6) [OF assms(2), of ch] that by (simp add: hub_ok_def)
  with Receive assms show ?thesis
    by (auto intro!: set_handler_phase_ok split: option.splits handler_phase.splits list.splits)
qed (use assms in \<open>auto intro!: set_handler_phase_ok split: option.splits handler_phase.splits if_splits\<close>)

interpretation hub: transition_system "\<lambda>s. s = hub_new" "hub_step G" "\<lambda>s. rwlock G \<longrightarrow> hub_ok s" for G
proof
  show "rwlock G \<longrightarrow> hub_ok s" if "s = hub_new" for s using that hub_ok_new by simp
  show "rwlock G \<longrightarrow> hub_ok t" if "rwlock G \<longrightarrow> hub_ok s" "hub_step G s t" for s t
    using that hub_fire_ok by (auto simp: hub_step_def)
qed


section \<open>The table and the handlers\<close>

fun in_method :: "stage \<Rightarrow> session_op option" where
  "in_method (Await_Lock oper) = Some oper"
| "in_method (Locked oper) = Some oper"
| "in_method (Sending oper ch m) = Some oper"
| "in_method _ = None"

fun reads_list :: "stage \<Rightarrow> bool" where
  "reads_list (Listed xs) \<longleftrightarrow> True"
| "reads_list st \<longleftrightarrow> in_method st = Some Connected_Clients"

text \<open>
  Every entry belongs to the handler that serves this client and has not yet removed it; the receivers are
  those of the running handlers; only the handler itself registers and removes its client; a message on its way to a client
  goes into the channel the table has for that client.
\<close>

definition table_ok :: "hub \<Rightarrow> bool" where
  "table_ok s \<longleftrightarrow>
     sm_alive (hb_sm s) = dom (hb_session s) \<and> distinct (map fst (sm_inner (hb_sm s))) \<and>
     (\<forall>cid ch. map_of (sm_inner (hb_sm s)) cid = Some ch \<longrightarrow>
        (\<exists>ph. hb_session s ch = Some (cid, ph) \<and>
          (ph = Withdrawing \<longrightarrow> in_method (hb_stage s (Session ch)) = Some (Unregister cid)))) \<and>
     (\<forall>t cid tx. in_method (hb_stage s t) = Some (Register cid tx) \<longrightarrow>
        t = Session tx \<and> hb_session s tx = Some (cid, Registering)) \<and>
     (\<forall>t cid. in_method (hb_stage s t) = Some (Unregister cid) \<longrightarrow>
        (\<exists>ch. t = Session ch \<and> hb_session s ch = Some (cid, Withdrawing))) \<and>
     (\<forall>t. reads_list (hb_stage s t) \<longrightarrow>
        (\<exists>ch cid ph. t = Session ch \<and> hb_session s ch = Some (cid, ph) \<and> ph \<in> {Publishing, Withdrawing})) \<and>
     (\<forall>t cid m ch m'. hb_stage s t = Sending (Send_To cid m) ch m' \<longrightarrow>
        m' = m \<and> map_of (sm_inner (hb_sm s)) cid = Some ch) \<and>
     (\<forall>t cid ch m. hb_stage s t \<noteq> Sending (Unregister cid) ch m)"

lemma table_okD:
  assumes "table_ok s"
  shows "sm_alive (hb_sm s) = dom (hb_session s)" "distinct (map fst (sm_inner (hb_sm s)))"
    "map_of (sm_inner (hb_sm s)) cid = Some ch \<Longrightarrow>
       \<exists>ph. hb_session s ch = Some (cid, ph) \<and>
         (ph = Withdrawing \<longrightarrow> in_method (hb_stage s (Session ch)) = Some (Unregister cid))"
    "in_method (hb_stage s t) = Some (Register cid tx) \<Longrightarrow> t = Session tx \<and> hb_session s tx = Some (cid, Registering)"
    "in_method (hb_stage s t) = Some (Unregister cid) \<Longrightarrow>
       \<exists>ch. t = Session ch \<and> hb_session s ch = Some (cid, Withdrawing)"
    "reads_list (hb_stage s t) \<Longrightarrow>
       \<exists>ch cid ph. t = Session ch \<and> hb_session s ch = Some (cid, ph) \<and> ph \<in> {Publishing, Withdrawing}"
    "hb_stage s t = Sending (Send_To cid m) ch m' \<Longrightarrow> m' = m \<and> map_of (sm_inner (hb_sm s)) cid = Some ch"
    "hb_stage s t \<noteq> Sending (Unregister cid) ch m"
  using assms unfolding table_ok_def by blast+

lemma table_ok_new: "table_ok hub_new"
  by (simp add: table_ok_def hub_new_def session_manager_new_def)

text \<open>A stage that changes inside the same method.\<close>

lemma table_ok_same_method:
  assumes "table_ok s" "in_method st = in_method (hb_stage s t)" "reads_list st = reads_list (hb_stage s t)"
    "\<And>cid m ch m'. st = Sending (Send_To cid m) ch m' \<Longrightarrow> m' = m \<and> map_of (sm_inner (hb_sm s)) cid = Some ch"
    "\<And>cid ch m. st \<noteq> Sending (Unregister cid) ch m"
    "hb_stage s' = (hb_stage s)(t := st)" "hb_sm s' = hb_sm s" "hb_session s' = hb_session s"
  shows "table_ok s'"
proof -
  have "in_method (hb_stage s' u) = in_method (hb_stage s u)" "reads_list (hb_stage s' u) = reads_list (hb_stage s u)" for u
    using assms(2,3,6) by simp_all
  then show ?thesis using assms unfolding table_ok_def by (auto split: if_splits)
qed


text \<open>A method that returns, having changed the table at most for its own client.\<close>

lemma table_ok_return:
  assumes "table_ok s" "in_method (hb_stage s t) = Some oper"
    "hb_stage s' = (hb_stage s)(t := st)" "in_method st = None" "reads_list st \<Longrightarrow> oper = Connected_Clients"
    "sm_alive (hb_sm s') = sm_alive (hb_sm s)" "hb_session s' = hb_session s"
    "distinct (map fst (sm_inner (hb_sm s')))"
    "\<And>cid ch. map_of (sm_inner (hb_sm s')) cid = Some ch \<Longrightarrow>
       oper = Register cid ch \<or> map_of (sm_inner (hb_sm s)) cid = Some ch \<and> oper \<noteq> Unregister cid"
    "\<And>u cid m ch m'. u \<noteq> t \<Longrightarrow> hb_stage s u = Sending (Send_To cid m) ch m' \<Longrightarrow>
       map_of (sm_inner (hb_sm s')) cid = Some ch"
  shows "table_ok s'"
proof -
  note ok = table_okD [OF assms(1)]
  have reg: "t = Session tx \<and> hb_session s tx = Some (cid, Registering)" if "oper = Register cid tx" for cid tx
    using ok(4) [of t cid tx] assms(2) that by simp
  have unreg: "\<exists>ch. t = Session ch \<and> hb_session s ch = Some (cid, Withdrawing)" if "oper = Unregister cid" for cid
    using ok(5) [of t cid] assms(2) that by simp
  have entry: "\<exists>ph. hb_session s ch = Some (cid, ph) \<and>
      (ph = Withdrawing \<longrightarrow> in_method (hb_stage s' (Session ch)) = Some (Unregister cid))"
    if "map_of (sm_inner (hb_sm s')) cid = Some ch" for cid ch
  proof (cases "oper = Register cid ch")
    case True
    then show ?thesis using reg by simp
  next
    case False
    with assms(9) [OF that] have m: "map_of (sm_inner (hb_sm s)) cid = Some ch" "oper \<noteq> Unregister cid" by simp_all
    from ok(3) [OF m(1)] obtain ph where ph: "hb_session s ch = Some (cid, ph)"
      "ph = Withdrawing \<longrightarrow> in_method (hb_stage s (Session ch)) = Some (Unregister cid)" by blast
    have "t \<noteq> Session ch" if "ph = Withdrawing" using ph(2) that m(2) assms(2) by auto
    then show ?thesis using ph assms(3) by auto
  qed
  have lst: "\<exists>ch cid ph. t = Session ch \<and> hb_session s ch = Some (cid, ph) \<and> ph \<in> {Publishing, Withdrawing}"
    if "reads_list st"
  proof -
    have "in_method (hb_stage s t) = Some Connected_Clients" using assms(2,5) that by simp
    then have "reads_list (hb_stage s t)" by (cases "hb_stage s t") auto
    then show ?thesis by (rule ok(6))
  qed
  have st: "st \<noteq> Sending op' ch m" for op' ch m using assms(4) by auto
  have other: "hb_stage s' u = hb_stage s u" if "u \<noteq> t" for u using assms(3) that by simp
  have self: "in_method (hb_stage s' t) = None" "hb_stage s' t = st" using assms(3,4) by simp_all
  show ?thesis
    unfolding table_ok_def assms(6,7)
  proof (intro conjI allI impI)
    fix u cid tx assume "in_method (hb_stage s' u) = Some (Register cid tx)"
    then show "u = Session tx" "hb_session s tx = Some (cid, Registering)"
      using ok(4) [of u] other self by (metis option.distinct(1))+
  next
    fix u cid assume "in_method (hb_stage s' u) = Some (Unregister cid)"
    then show "\<exists>ch. u = Session ch \<and> hb_session s ch = Some (cid, Withdrawing)"
      using ok(5) [of u] other self by (metis option.distinct(1))
  next
    fix u assume "reads_list (hb_stage s' u)"
    then show "\<exists>ch cid ph. u = Session ch \<and> hb_session s ch = Some (cid, ph) \<and> ph \<in> {Publishing, Withdrawing}"
      using ok(6) [of u] other self lst by (cases "u = t") auto
  next
    fix u cid m ch m' assume "hb_stage s' u = Sending (Send_To cid m) ch m'"
    then show "m' = m" "map_of (sm_inner (hb_sm s')) cid = Some ch"
      using ok(7) [of u] other self st assms(10) by metis+
  next
    fix u cid ch m
    show "hb_stage s' u \<noteq> Sending (Unregister cid) ch m" using ok(8) [of u] other self st by metis
  qed (use ok(1) assms(8) entry in blast)+
qed

lemma other_sender:
  assumes "hub_ok s" "holds (hb_stage s t) = Some Write" "u \<noteq> t"
  shows "hb_stage s u \<noteq> Sending oper ch m"
  using hub_okD(5) [OF assms(1,2,3)] by auto

text \<open>Entries are removed while nobody sends.\<close>

lemma table_ok_fewer:
  assumes "table_ok s" "sm_alive sm' = sm_alive (hb_sm s)" "distinct (map fst (sm_inner sm'))"
    "\<And>cid ch. map_of (sm_inner sm') cid = Some ch \<Longrightarrow> map_of (sm_inner (hb_sm s)) cid = Some ch"
    "\<And>u cid m ch m'. hb_stage s u \<noteq> Sending (Send_To cid m) ch m'"
  shows "table_ok (s\<lparr>hb_sm := sm'\<rparr>)"
proof -
  note ok = table_okD [OF assms(1)]
  show ?thesis
    unfolding table_ok_def
    using ok(1,3-6,8) assms(2-5) by simp
qed

lemma after_delete:
  assumes "hub_ok s" "table_ok s" "hb_stage s t = Locked (Register cid tx)"
  shows "table_ok (s\<lparr>hb_sm := (hb_sm s)\<lparr>sm_inner := AList.delete cid (sm_inner (hb_sm s))\<rparr>,
    hb_stage := (hb_stage s)(t := Sending (Register cid tx) old m)\<rparr>)"
proof -
  have "hb_stage s u \<noteq> Sending oper ch m" for u oper ch m
    using other_sender [OF assms(1), of t u] assms(3) by (cases "u = t") auto
  then have "table_ok (s\<lparr>hb_sm := (hb_sm s)\<lparr>sm_inner := AList.delete cid (sm_inner (hb_sm s))\<rparr>\<rparr>)"
    using table_okD(2) [OF assms(2)]
    by (intro table_ok_fewer [OF assms(2)]) (auto simp: distinct_delete delete_conv' split: if_splits)
  then show ?thesis
    by (rule table_ok_same_method [where t = t and st = "Sending (Register cid tx) old m"])
      (simp_all add: assms(3))
qed

lemma body_table:
  assumes "hub_ok s" "table_ok s" "hb_stage s t = Locked oper"
  shows "table_ok (body t oper s)"
proof (cases oper)
  case (Register cid tx)
  have other: "hb_stage s u \<noteq> Sending op' ch m" if "u \<noteq> t" for u op' ch m
    using other_sender [OF assms(1), of t u] assms(3) Register that by simp
  show ?thesis
  proof (cases "map_of (sm_inner (hb_sm s)) cid")
    case None
    show ?thesis
      by (rule table_ok_return [OF assms(2), of t oper _ Idle])
        (use assms(3) Register None other table_okD(2) [OF assms(2)] in
          \<open>auto simp: Let_def return_def update_conv' distinct_update split: if_splits\<close>)
  next
    case (Some old)
    with Register assms show ?thesis by (simp add: Let_def after_delete)
  qed
next
  case (Unregister cid)
  have other: "hb_stage s u \<noteq> Sending op' ch m" if "u \<noteq> t" for u op' ch m
    using other_sender [OF assms(1), of t u] assms(3) Unregister that by simp
  show ?thesis
    by (rule table_ok_return [OF assms(2), of t oper _ Idle])
      (use assms(3) Unregister other table_okD(2) [OF assms(2)] in
        \<open>auto simp: return_def unregister_def delete_conv' distinct_delete split: if_splits\<close>)
next
  case (Send_To cid m)
  show ?thesis
  proof (cases "map_of (sm_inner (hb_sm s)) cid")
    case None
    show ?thesis
      by (rule table_ok_return [OF assms(2), of t oper _ Idle])
        (use assms(3) Send_To None table_okD(2,7) [OF assms(2)] in \<open>auto simp: return_def\<close>)
  next
    case (Some tx)
    show ?thesis
      by (rule table_ok_same_method [OF assms(2), of "Sending oper tx m" t])
        (use assms(3) Send_To Some in \<open>simp_all\<close>)
  qed
next
  case Connected_Clients
  show ?thesis
    by (rule table_ok_return [OF assms(2), of t oper _ "Listed (connected_clients (hb_sm s))"])
      (use assms(3) Connected_Clients table_okD(2,7) [OF assms(2)] in \<open>auto simp: return_def\<close>)
qed

lemma after_send_table:
  assumes "hub_ok s" "table_ok s" "hb_stage s t = Sending oper ch m"
  shows "table_ok (after_send t oper ch m s)"
proof -
  have other: "hb_stage s u \<noteq> Sending op' c m'" if "access_of oper = Write" "u \<noteq> t" for u op' c m'
    using other_sender [OF assms(1), of t u] assms(3) that by simp
  have un: "in_method (hb_stage s t) = Some oper" using assms(3) by simp
  show ?thesis
  proof (cases oper)
    case (Register cid tx)
    show ?thesis
      by (rule table_ok_return [OF assms(2) un, of _ Idle])
        (use Register other table_okD(2) [OF assms(2)] in
          \<open>auto simp: after_send_def Let_def return_def update_conv' distinct_update split: if_splits\<close>)
  next
    case (Unregister cid)
    with assms(3) table_okD(8) [OF assms(2)] show ?thesis by blast
  next
    case (Send_To cid m')
    show ?thesis
      by (rule table_ok_return [OF assms(2) un, of _ Idle])
        (use Send_To table_okD(2,7) [OF assms(2)] in \<open>auto simp: after_send_def Let_def return_def\<close>)
  next
    case Connected_Clients
    show ?thesis
      by (rule table_ok_return [OF assms(2) un, of _ Idle])
        (use Connected_Clients table_okD(2,7) [OF assms(2)] in \<open>auto simp: after_send_def Let_def return_def\<close>)
  qed
qed


text \<open>A call begins; a handler moves on; both at once.\<close>

fun may_call :: "hub \<Rightarrow> task \<Rightarrow> session_op \<Rightarrow> bool" where
  "may_call s t (Register cid tx) \<longleftrightarrow> t = Session tx \<and> hb_session s tx = Some (cid, Registering)"
| "may_call s t (Unregister cid) \<longleftrightarrow> (\<exists>ch. t = Session ch \<and> hb_session s ch = Some (cid, Withdrawing))"
| "may_call s t Connected_Clients \<longleftrightarrow>
     (\<exists>ch cid ph. t = Session ch \<and> hb_session s ch = Some (cid, ph) \<and> ph \<in> {Publishing, Withdrawing})"
| "may_call s t (Send_To cid m) \<longleftrightarrow> True"

lemma table_ok_ask:
  assumes "hb_stage s t = Idle" "may_call s t oper"
    "sm_alive (hb_sm s) = dom (hb_session s)" "distinct (map fst (sm_inner (hb_sm s)))"
    "\<And>cid ch. map_of (sm_inner (hb_sm s)) cid = Some ch \<Longrightarrow>
       \<exists>ph. hb_session s ch = Some (cid, ph) \<and> (ph = Withdrawing \<longrightarrow>
         in_method (hb_stage s (Session ch)) = Some (Unregister cid) \<or> t = Session ch \<and> oper = Unregister cid)"
    "\<And>u cid tx. in_method (hb_stage s u) = Some (Register cid tx) \<Longrightarrow>
       u = Session tx \<and> hb_session s tx = Some (cid, Registering)"
    "\<And>u cid. in_method (hb_stage s u) = Some (Unregister cid) \<Longrightarrow>
       \<exists>ch. u = Session ch \<and> hb_session s ch = Some (cid, Withdrawing)"
    "\<And>u. reads_list (hb_stage s u) \<Longrightarrow>
       \<exists>ch cid ph. u = Session ch \<and> hb_session s ch = Some (cid, ph) \<and> ph \<in> {Publishing, Withdrawing}"
    "\<And>u cid m ch m'. hb_stage s u = Sending (Send_To cid m) ch m' \<Longrightarrow>
       m' = m \<and> map_of (sm_inner (hb_sm s)) cid = Some ch"
    "\<And>u cid ch m. hb_stage s u \<noteq> Sending (Unregister cid) ch m"
  shows "table_ok (ask t oper s)"
proof -
  let ?s = "ask t oper s"
  have st: "hb_stage ?s u = (if u = t then Await_Lock oper else hb_stage s u)" for u by (simp add: ask_def)
  have fr: "hb_sm ?s = hb_sm s" "hb_session ?s = hb_session s" by (simp_all add: ask_def)
  show ?thesis
    unfolding table_ok_def fr
  proof (intro conjI allI impI)
    fix cid ch assume "map_of (sm_inner (hb_sm s)) cid = Some ch"
    then show "\<exists>ph. hb_session s ch = Some (cid, ph) \<and>
        (ph = Withdrawing \<longrightarrow> in_method (hb_stage ?s (Session ch)) = Some (Unregister cid))"
      using assms(1,5) by (fastforce simp: st)
  next
    fix u cid tx assume "in_method (hb_stage ?s u) = Some (Register cid tx)"
    then show "u = Session tx" "hb_session s tx = Some (cid, Registering)"
      using assms(2) assms(6) [of u] by (auto simp: st split: if_splits)
  next
    fix u cid assume "in_method (hb_stage ?s u) = Some (Unregister cid)"
    then show "\<exists>ch. u = Session ch \<and> hb_session s ch = Some (cid, Withdrawing)"
      using assms(2) assms(7) [of u] by (auto simp: st split: if_splits)
  next
    fix u assume "reads_list (hb_stage ?s u)"
    then show "\<exists>ch cid ph. u = Session ch \<and> hb_session s ch = Some (cid, ph) \<and> ph \<in> {Publishing, Withdrawing}"
      using assms(2) assms(8) [of u] by (auto simp: st split: if_splits)
  next
    fix u cid m ch m' assume "hb_stage ?s u = Sending (Send_To cid m) ch m'"
    then show "m' = m" "map_of (sm_inner (hb_sm s)) cid = Some ch"
      using assms(9) [of u] by (auto simp: st split: if_splits)
  next
    fix u cid ch m
    show "hb_stage ?s u \<noteq> Sending (Unregister cid) ch m" using assms(10) by (simp add: st)
  qed (use assms(3,4) in simp_all)
qed

lemma table_ok_call:
  assumes "table_ok s" "hb_stage s t = Idle" "may_call s t oper"
  shows "table_ok (ask t oper s)"
proof -
  note ok = table_okD [OF assms(1)]
  show ?thesis
  proof (rule table_ok_ask [OF assms(2,3) ok(1,2) _ ok(4-8)])
    fix cid ch assume "map_of (sm_inner (hb_sm s)) cid = Some ch"
    from ok(3) [OF this] show "\<exists>ph. hb_session s ch = Some (cid, ph) \<and> (ph = Withdrawing \<longrightarrow>
        in_method (hb_stage s (Session ch)) = Some (Unregister cid) \<or> t = Session ch \<and> oper = Unregister cid)"
      by blast
  qed
qed

text \<open>Whether the handler of \<open>ch\<close> is in none of the methods that depend on its phase.\<close>

fun phase_free :: "stage \<Rightarrow> bool" where
  "phase_free (Listed xs) \<longleftrightarrow> False"
| "phase_free st \<longleftrightarrow> (case in_method st of None \<Rightarrow> True | Some (Send_To cid m) \<Rightarrow> True | _ \<Rightarrow> False)"

lemma phase_free_simps:
  assumes "phase_free st"
  shows "in_method st \<noteq> Some (Register cid tx)" "in_method st \<noteq> Some (Unregister cid)" "\<not> reads_list st"
  using assms by (cases st; auto split: session_op.splits)+

lemma settled_phase_free:
  assumes "table_ok s" "hb_session s ch = Some (cid, ph)" "ph \<in> {Pushing, Serving, Writing, Leaving}"
  shows "phase_free (hb_stage s (Session ch))"
proof -
  note ok = table_okD [OF assms(1)]
  have 1: "in_method (hb_stage s (Session ch)) \<noteq> Some (Register c tx)" for c tx
    using ok(4) [of "Session ch" c tx] assms(2,3) by auto
  have 2: "in_method (hb_stage s (Session ch)) \<noteq> Some (Unregister c)" for c
    using ok(5) [of "Session ch" c] assms(2,3) by auto
  have 3: "\<not> reads_list (hb_stage s (Session ch))"
    using ok(6) [of "Session ch"] assms(2,3) by auto
  from 1 2 3 show ?thesis
    by (cases "hb_stage s (Session ch)") (auto split: session_op.splits)
qed

lemma table_ok_phase:
  assumes "table_ok s" "hb_session s ch = Some (cid, ph0)" "phase_free (hb_stage s (Session ch))" "ph \<noteq> Withdrawing"
  shows "table_ok (set_handler_phase ch cid ph s)"
proof -
  note ok = table_okD [OF assms(1)] and pf = phase_free_simps [OF assms(3)]
  let ?s = "set_handler_phase ch cid ph s"
  have se: "hb_session ?s = (hb_session s)(ch \<mapsto> (cid, ph))" by (simp add: set_handler_phase_def)
  show ?thesis
    unfolding table_ok_def set_handler_phase_simps
  proof (intro conjI allI impI)
    show "sm_alive (hb_sm s) = dom (hb_session ?s)" using ok(1) assms(2) by (auto simp: se)
  next
    fix c k assume "map_of (sm_inner (hb_sm s)) c = Some k"
    from ok(3) [OF this] show "\<exists>ph. hb_session ?s k = Some (c, ph) \<and>
        (ph = Withdrawing \<longrightarrow> in_method (hb_stage s (Session k)) = Some (Unregister c))"
      using assms(2,4) by (auto simp: se)
  next
    fix u c tx assume "in_method (hb_stage s u) = Some (Register c tx)"
    then show "u = Session tx" "hb_session ?s tx = Some (c, Registering)"
      using ok(4) [of u] pf by (auto simp: se)
  next
    fix u c assume "in_method (hb_stage s u) = Some (Unregister c)"
    then show "\<exists>k. u = Session k \<and> hb_session ?s k = Some (c, Withdrawing)"
      using ok(5) [of u] pf by (force simp: se)
  next
    fix u assume "reads_list (hb_stage s u)"
    then show "\<exists>k c ph. u = Session k \<and> hb_session ?s k = Some (c, ph) \<and> ph \<in> {Publishing, Withdrawing}"
      using ok(6) [of u] pf by (force simp: se)
  next
    fix u c m k m' assume "hb_stage s u = Sending (Send_To c m) k m'"
    then show "m' = m" "map_of (sm_inner (hb_sm s)) c = Some k" using ok(7) by blast+
  qed (use ok(2,8) in simp_all)
qed


text \<open>The handler leaves its loop and asks to remove its client in one step.\<close>

lemma table_ok_leave:
  assumes "table_ok s" "hb_session s ch = Some (cid, Leaving)" "hb_stage s (Session ch) = Idle"
  shows "table_ok (ask (Session ch) (Unregister cid) (set_handler_phase ch cid Withdrawing s))"
proof -
  note ok = table_okD [OF assms(1)]
  let ?s = "set_handler_phase ch cid Withdrawing s"
  have se: "hb_session ?s = (hb_session s)(ch \<mapsto> (cid, Withdrawing))" by (simp add: set_handler_phase_def)
  show ?thesis
  proof (rule table_ok_ask)
    fix c k assume "map_of (sm_inner (hb_sm ?s)) c = Some k"
    then have "map_of (sm_inner (hb_sm s)) c = Some k" by simp
    from ok(3) [OF this] show "\<exists>ph. hb_session ?s k = Some (c, ph) \<and> (ph = Withdrawing \<longrightarrow>
        in_method (hb_stage ?s (Session k)) = Some (Unregister c) \<or>
        Session ch = Session k \<and> Unregister cid = Unregister c)"
      using assms(2) by (auto simp: se)
  next
    fix u c tx assume "in_method (hb_stage ?s u) = Some (Register c tx)"
    then show "u = Session tx \<and> hb_session ?s tx = Some (c, Registering)"
      using ok(4) [of u c tx] assms(3) by (auto simp: se)
  next
    fix u c assume "in_method (hb_stage ?s u) = Some (Unregister c)"
    then show "\<exists>k. u = Session k \<and> hb_session ?s k = Some (c, Withdrawing)"
      using ok(5) [of u c] assms(3) by (auto simp: se)
  next
    fix u assume "reads_list (hb_stage ?s u)"
    then show "\<exists>k c ph. u = Session k \<and> hb_session ?s k = Some (c, ph) \<and> ph \<in> {Publishing, Withdrawing}"
      using ok(6) [of u] assms(3) by (auto simp: se)
  qed (use assms ok(1,2,7,8) in \<open>auto simp: se\<close>)
qed

lemma next_call_table:
  assumes "table_ok s" "hb_session s ch = Some p" "hb_stage s (Session ch) = Idle" "next_call ch p s = Some t"
  shows "table_ok t"
proof -
  have pub: "table_ok (ask (Session ch) Connected_Clients (set_handler_phase ch cid Publishing s))"
    if "p = (cid, Registering)" for cid
    by (rule table_ok_call, rule table_ok_phase [OF assms(1)])
      (use assms(2,3) that in \<open>auto simp: set_handler_phase_def\<close>)
  have wd: "table_ok (ask (Session ch) Connected_Clients s)" if "p = (cid, Withdrawing)" for cid
    by (rule table_ok_call) (use assms that in auto)
  from assms(2-4) pub wd table_ok_leave [OF assms(1)] show ?thesis
    by (cases "(ch, p, s)" rule: next_call.cases) auto
qed

lemma publish_table:
  assumes "table_ok s" "hb_session s ch = Some p" "hb_stage s (Session ch) = Listed xs"
  shows "table_ok (publish ch xs p s)"
proof -
  note ok = table_okD [OF assms(1)]
  from ok(6) [of "Session ch"] assms(2,3) obtain cid where p: "p = (cid, Publishing) \<or> p = (cid, Withdrawing)" by auto
  let ?s = "s\<lparr>hb_published := xs, hb_stage := (hb_stage s)(Session ch := Idle)\<rparr>"
  have idle: "table_ok ?s"
    unfolding table_ok_def
    using ok(1,2,4-8) ok(3) assms(3) by (auto; metis in_method.simps(5) option.distinct(1))
  show ?thesis
  proof (cases "snd p = Publishing")
    case True
    with p have "publish ch xs p s = set_handler_phase ch cid Pushing ?s" by (auto simp: publish_def Let_def)
    moreover have "table_ok (set_handler_phase ch cid Pushing ?s)"
      by (rule table_ok_phase [OF idle]) (use assms(2) p True in auto)
    ultimately show ?thesis by simp
  next
    case False
    with p have p: "p = (cid, Withdrawing)" by auto
    let ?t = "publish ch xs p s"
    have t: "hb_session ?t = (hb_session s)(ch := None)" "sm_inner (hb_sm ?t) = sm_inner (hb_sm s)"
      "sm_alive (hb_sm ?t) = sm_alive (hb_sm s) - {ch}" "hb_stage ?t = hb_stage ?s"
      by (simp_all add: publish_def Let_def p)
    note ok' = table_okD [OF idle]
    show ?thesis
      unfolding table_ok_def t(2-4)
    proof (intro conjI allI impI)
      fix c k assume m: "map_of (sm_inner (hb_sm s)) c = Some k"
      then have "map_of (sm_inner (hb_sm ?s)) c = Some k" by simp
      from ok'(3) [OF this] obtain ph where ph: "hb_session s k = Some (c, ph)"
        "ph = Withdrawing \<longrightarrow> in_method (hb_stage ?s (Session k)) = Some (Unregister c)" by auto
      have "k \<noteq> ch" using ph p assms(2) by auto
      then show "\<exists>ph. hb_session ?t k = Some (c, ph) \<and>
          (ph = Withdrawing \<longrightarrow> in_method (hb_stage ?s (Session k)) = Some (Unregister c))"
        using ph by (simp add: t(1))
    next
      fix u c tx assume a: "in_method (hb_stage ?s u) = Some (Register c tx)"
      from ok'(4) [OF a] a show "u = Session tx" "hb_session ?t tx = Some (c, Registering)"
        by (auto simp: t(1) split: if_splits)
    next
      fix u c assume a: "in_method (hb_stage ?s u) = Some (Unregister c)"
      from ok'(5) [OF a] a show "\<exists>k. u = Session k \<and> hb_session ?t k = Some (c, Withdrawing)"
        by (auto simp: t(1) split: if_splits)
    next
      fix u assume a: "reads_list (hb_stage ?s u)"
      from ok'(6) [OF a] a
      show "\<exists>k c ph. u = Session k \<and> hb_session ?t k = Some (c, ph) \<and> ph \<in> {Publishing, Withdrawing}"
        by (auto simp: t(1) split: if_splits)
    next
      fix u c m k m' assume "hb_stage ?s u = Sending (Send_To c m) k m'"
      from ok'(7) [OF this] show "m' = m" "map_of (sm_inner (hb_sm s)) c = Some k" by simp_all
    next
      show "sm_alive (hb_sm s) - {ch} = dom (hb_session ?t)" using ok(1) by (simp add: t(1))
    qed (use ok(2) ok'(8) in blast)+
  qed
qed


lemma lock_fire_table:
  assumes "hub_ok s" "table_ok s" "lock_fire G e s = Some s'"
  shows "table_ok s'"
proof (cases e)
  case (Grant t)
  with assms(3) obtain oper where st: "hb_stage s t = Await_Lock oper" and s': "s' = admit t oper s"
    by (auto split: stage.splits if_splits)
  show ?thesis
    by (rule table_ok_same_method [OF assms(2), of "Locked oper" t]) (simp_all add: st s' admit_def)
next
  case (Enter t)
  with assms show ?thesis by (auto intro: body_table split: stage.splits)
next
  case (Deliver t)
  with assms show ?thesis by (auto intro: after_send_table split: stage.splits if_splits)
qed

lemma table_ok_new_handler:
  assumes "table_ok s" "hb_session s c = None" "hb_stage s (Session c) = Idle"
    "hb_session s' = (hb_session s)(c \<mapsto> (cid, Registering))" "hb_stage s' = hb_stage s"
    "sm_alive (hb_sm s') = insert c (sm_alive (hb_sm s))" "sm_inner (hb_sm s') = sm_inner (hb_sm s)"
  shows "table_ok s'"
proof -
  note ok = table_okD [OF assms(1)]
  have fresh: "k \<noteq> c" if "hb_session s k = Some p" for k p using that assms(2) by auto
  then have old: "hb_session s' k = Some p" if "hb_session s k = Some p" for k p
    using that assms(4) by simp
  show ?thesis
    unfolding table_ok_def assms(5,6,7)
  proof (intro conjI allI impI)
    fix c k assume "map_of (sm_inner (hb_sm s)) c = Some k"
    from ok(3) [OF this] old show "\<exists>ph. hb_session s' k = Some (c, ph) \<and>
      (ph = Withdrawing \<longrightarrow> in_method (hb_stage s (Session k)) = Some (Unregister c))" by blast
  next
    fix u c tx assume "in_method (hb_stage s u) = Some (Register c tx)"
    with ok(4) old show "u = Session tx" "hb_session s' tx = Some (c, Registering)" by blast+
  next
    fix u c assume "in_method (hb_stage s u) = Some (Unregister c)"
    with ok(5) old show "\<exists>k. u = Session k \<and> hb_session s' k = Some (c, Withdrawing)" by blast
  next
    fix u assume "reads_list (hb_stage s u)"
    with ok(6) old show "\<exists>k c ph. u = Session k \<and> hb_session s' k = Some (c, ph) \<and> ph \<in> {Publishing, Withdrawing}"
      by blast
  next
    show "insert c (sm_alive (hb_sm s)) = dom (hb_session s')" using ok(1) assms(4) by auto
  qed (use ok(2,7,8) in blast)+
qed

lemma connect_table:
  assumes "hub_ok s" "table_ok s" "hub_fire G (Connect cid) s = Some s'"
  shows "table_ok s'"
proof -
  let ?c = "hb_next s"
  let ?s = "set_handler_phase ?c cid Registering (s\<lparr>hb_sm := (hb_sm s)\<lparr>sm_alive := insert ?c (sm_alive (hb_sm s)),
    sm_queue := (sm_queue (hb_sm s))(?c := [])\<rparr>, hb_next := Suc ?c\<rparr>)"
  have new: "hb_session s ?c = None" "hb_stage s (Session ?c) = Idle"
    using hub_okD(7,8) [OF assms(1)] by simp_all
  have "table_ok ?s"
    by (rule table_ok_new_handler [OF assms(2) new]) (simp_all add: set_handler_phase_def)
  then have "table_ok (ask (Session ?c) (Register cid ?c) ?s)"
    by (rule table_ok_call) (simp_all add: new set_handler_phase_def)
  with assms(3) show ?thesis by (simp add: Let_def)
qed

lemma hub_fire_table:
  assumes "hub_ok s" "table_ok s" "hub_fire G e s = Some s'"
  shows "table_ok s'"
proof (cases e)
  case (Lock e')
  with assms show ?thesis by (simp add: lock_fire_table)
next
  case (Connect cid)
  with assms show ?thesis using connect_table by blast
next
  case (Call k cid m)
  with assms show ?thesis by (auto intro: table_ok_call split: if_splits)
next
  case (Next_Call ch)
  with assms show ?thesis by (auto intro: next_call_table split: option.splits stage.splits)
next
  case (Publish ch)
  with assms show ?thesis by (auto intro: publish_table split: option.splits stage.splits)
next
  case (Receive ch)
  then obtain cid m rest where p: "hb_session s ch = Some (cid, Serving)"
    and s': "s' = set_handler_phase ch cid Writing
      (s\<lparr>hb_sm := (hb_sm s)\<lparr>sm_queue := (sm_queue (hb_sm s))(ch := rest)\<rparr>\<rparr>)"
    using assms(3) by (auto split: option.splits handler_phase.splits list.splits)
  have "table_ok (s\<lparr>hb_sm := (hb_sm s)\<lparr>sm_queue := (sm_queue (hb_sm s))(ch := rest)\<rparr>\<rparr>)"
    using assms(2) by (simp add: table_ok_def)
  then show ?thesis
    unfolding s' by (rule table_ok_phase) (use p settled_phase_free [OF assms(2) p] in simp_all)
qed (use assms settled_phase_free [OF assms(2)] in
  \<open>auto intro!: table_ok_phase split: option.splits handler_phase.splits if_splits\<close>)

interpretation table: transition_system "\<lambda>s. s = hub_new" "hub_step G" "\<lambda>s. rwlock G \<longrightarrow> hub_ok s \<and> table_ok s" for G
proof
  show "rwlock G \<longrightarrow> hub_ok s \<and> table_ok s" if "s = hub_new" for s
    using that hub_ok_new table_ok_new by simp
  show "rwlock G \<longrightarrow> hub_ok t \<and> table_ok t" if "rwlock G \<longrightarrow> hub_ok s \<and> table_ok s" "hub_step G s t" for s t
    using that hub_fire_ok hub_fire_table by (metis hub_step_def)
qed

section \<open>A method alone\<close>

text \<open>The channel a method sends to, its effect as one step of theory Session, and how it returns.\<close>

fun target :: "session_op \<Rightarrow> session_manager \<Rightarrow> nat option" where
  "target (Register cid tx) sm = map_of (sm_inner sm) cid"
| "target (Send_To cid m) sm = map_of (sm_inner sm) cid"
| "target _ sm = None"

fun effect :: "session_op \<Rightarrow> session_manager \<Rightarrow> session_manager" where
  "effect (Register cid tx) sm = register cid tx sm"
| "effect (Unregister cid) sm = unregister cid sm"
| "effect (Send_To cid m) sm = snd (send_to cid m sm)"
| "effect Connected_Clients sm = sm"

fun result :: "session_op \<Rightarrow> session_manager \<Rightarrow> stage" where
  "result Connected_Clients sm = Listed (connected_clients sm)"
| "result _ sm = Idle"

lemma granted_alone: "rwlock G \<Longrightarrow> G [] [(t, a)] t"
  using rwlock.grant_progress [of G "[(t, a)]"] rwlock.grant_waiting [of G "[]" "[(t, a)]"] by auto

lemma can_send_inner [simp]: "can_send ch (sm\<lparr>sm_inner := i\<rparr>) = can_send ch sm"
  by (simp add: can_send_def)

lemma chan_send_inner: "snd (chan_send ch m (sm\<lparr>sm_inner := i\<rparr>)) = (snd (chan_send ch m sm))\<lparr>sm_inner := i\<rparr>"
  by (simp add: chan_send_def)

lemma lock_stepI: "lock_fire G e s = Some t \<Longrightarrow> lock_step G s t"
  by (auto simp: lock_step_def)

text \<open>From the grant to the return.\<close>

definition entered :: "task \<Rightarrow> session_op \<Rightarrow> hub \<Rightarrow> hub" where
  "entered t oper s = s\<lparr>hb_stage := (hb_stage s)(t := Locked oper), hb_holding := [(t, access_of oper)]\<rparr>"

definition left :: "task \<Rightarrow> session_op \<Rightarrow> hub \<Rightarrow> hub" where
  "left t oper s = s\<lparr>hb_sm := effect oper (hb_sm s), hb_stage := (hb_stage s)(t := result oper (hb_sm s))\<rparr>"

lemma run_method_alone:
  assumes "rwlock G" "hb_waiting s = []" "hb_holding s = []"
    "\<And>ch. target oper (hb_sm s) = Some ch \<Longrightarrow> can_send ch (hb_sm s)"
  shows "(lock_step G)\<^sup>*\<^sup>* (ask t oper s) (left t oper s)"
proof -
  have "lock_step G (ask t oper s) (entered t oper s)"
    using assms(2,3) granted_alone [OF assms(1)]
    by (intro lock_stepI [of _ "Grant t"]) (simp add: ask_def admit_def entered_def)
  moreover have "(lock_step G)\<^sup>*\<^sup>* (entered t oper s) (left t oper s)"
  proof (cases "target oper (hb_sm s)")
    case None
    then have "lock_fire G (Enter t) (entered t oper s) = Some (left t oper s)"
      using assms(2,3)
      by (cases oper) (simp_all add: entered_def left_def return_def register_def send_to_def Let_def)
    then show ?thesis by (blast intro: lock_stepI)
  next
    case (Some ch)
    then have 1: "lock_step G (entered t oper s) (body t oper (entered t oper s))"
      by (intro lock_stepI [of _ "Enter t"]) (simp add: entered_def)
    have "lock_fire G (Deliver t) (body t oper (entered t oper s)) = Some (left t oper s)"
      using assms(2,3) assms(4) [OF Some] Some
      by (cases oper) (simp_all add: entered_def left_def return_def register_def send_to_def after_send_def
        Let_def chan_send_inner)
    with 1 show ?thesis by (meson converse_rtranclp_into_rtranclp lock_stepI r_into_rtranclp)
  qed
  ultimately show ?thesis by (rule converse_rtranclp_into_rtranclp)
qed

lemma lock_steps_hub: "(lock_step G)\<^sup>*\<^sup>* s t \<Longrightarrow> (hub_step G)\<^sup>*\<^sup>* s t"
proof (induction rule: rtranclp_induct)
  case (step t u)
  then obtain e where "lock_fire G e t = Some u" by (auto simp: lock_step_def)
  then have "hub_fire G (Lock e) t = Some u" by simp
  then have "hub_step G t u" unfolding hub_step_def by blast
  with step(3) show ?case by simp
qed simp

section \<open>The methods come to an end\<close>

fun cost :: "stage \<Rightarrow> nat" where
  "cost (Await_Lock oper) = 3"
| "cost (Locked oper) = 2"
| "cost (Sending oper ch m) = 1"
| "cost _ = 0"

definition pending :: "hub \<Rightarrow> task set" where
  "pending s = fst ` set (hb_waiting s) \<union> fst ` set (hb_holding s)"

definition lock_work :: "hub \<Rightarrow> nat" where
  "lock_work s = (\<Sum>t\<in>pending s. cost (hb_stage s t))"

lemma finite_pending [simp]: "finite (pending s)"
  by (simp add: pending_def)

lemma pending_iff: "hub_ok s \<Longrightarrow> t \<in> pending s \<longleftrightarrow> 0 < cost (hb_stage s t)"
  by (cases "hb_stage s t") (auto simp: pending_def waiting_iff holding_iff)

lemma lock_work_le: "lock_work s \<le> 3 * (length (hb_waiting s) + length (hb_holding s))"
proof -
  have "cost (hb_stage s t) \<le> 3" for t by (cases "hb_stage s t") auto
  then have "lock_work s \<le> of_nat (card (pending s)) * 3"
    unfolding lock_work_def by (intro sum_bounded_above) auto
  also have "card (pending s) \<le> length (hb_waiting s) + length (hb_holding s)"
    unfolding pending_def
    by (meson add_mono card_Un_le card_image_le card_length finite_set le_trans)
  finally show ?thesis by simp
qed

text \<open>A lock step moves one task on.\<close>

lemma lock_fire_stage:
  assumes "lock_fire G e s = Some s'"
  obtains t st where "hb_stage s' = (hb_stage s)(t := st)" "cost st < cost (hb_stage s t)"
proof -
  from assms have "\<exists>t st. hb_stage s' = (hb_stage s)(t := st) \<and> cost st < cost (hb_stage s t)"
  proof (cases e)
    case (Grant t)
    with assms show ?thesis by (force simp: admit_def split: stage.splits if_splits)
  next
    case (Enter t)
    with assms obtain oper where "hb_stage s t = Locked oper" "s' = body t oper s" by (auto split: stage.splits)
    moreover from this have "\<exists>st. hb_stage s' = (hb_stage s)(t := st) \<and> cost st < 2"
      by (cases oper; fastforce simp: return_def Let_def split: option.splits)
    ultimately show ?thesis by force
  next
    case (Deliver t)
    with assms show ?thesis
      by (force simp: after_send_def Let_def return_def split: stage.splits if_splits)
  qed
  with that show thesis by blast
qed

lemma lock_work_decreases:
  assumes "rwlock G" "hub_ok s" "lock_step G s s'"
  shows "lock_work s' < lock_work s"
proof -
  from assms(3) obtain e where e: "lock_fire G e s = Some s'" by (auto simp: lock_step_def)
  then obtain t st where st: "hb_stage s' = (hb_stage s)(t := st)" "cost st < cost (hb_stage s t)"
    by (rule lock_fire_stage)
  have ok': "hub_ok s'" using assms(1,2) e by (rule lock_fire_ok)
  have t: "t \<in> pending s" using st(2) by (simp add: pending_iff [OF assms(2)])
  have "pending s' \<subseteq> pending s"
    using st t by (auto simp: pending_iff [OF assms(2)] pending_iff [OF ok'] split: if_splits)
  then have "lock_work s' \<le> (\<Sum>u\<in>pending s. cost (hb_stage s' u))"
    unfolding lock_work_def by (intro sum_mono2) auto
  also have "\<dots> < lock_work s"
    unfolding lock_work_def using st t by (intro sum_strict_mono_ex1) auto
  finally show ?thesis .
qed

text \<open>Without a full channel some task can always move.\<close>

definition lock_quiet :: "hub \<Rightarrow> bool" where
  "lock_quiet s \<longleftrightarrow> hb_waiting s = [] \<and> hb_holding s = []"

definition blocked :: "hub \<Rightarrow> bool" where
  "blocked s \<longleftrightarrow> (\<exists>t oper ch m. hb_stage s t = Sending oper ch m \<and> \<not> can_send ch (hb_sm s))"

lemma lock_progress:
  assumes "rwlock G" "hub_ok s" "\<not> lock_quiet s" "\<not> blocked s"
  shows "\<exists>s'. lock_step G s s'"
proof (cases "hb_holding s")
  case Nil
  with assms(3) have "hb_waiting s \<noteq> []" by (simp add: lock_quiet_def)
  then obtain t where g: "G [] (hb_waiting s) t" using rwlock.grant_progress [OF assms(1)] by blast
  then have "wants (hb_stage s t) \<noteq> None"
    using rwlock.grant_waiting [OF assms(1)] waiting_iff [OF assms(2)] by blast
  then obtain oper where "hb_stage s t = Await_Lock oper" by (cases "hb_stage s t") auto
  then have "lock_fire G (Grant t) s = Some (admit t oper s)" using g Nil by simp
  then show ?thesis by (blast intro: lock_stepI)
next
  case (Cons x H)
  then have "holds (hb_stage s (fst x)) \<noteq> None" using holding_iff [OF assms(2), of "fst x"] by auto
  then consider oper where "hb_stage s (fst x) = Locked oper"
    | oper ch m where "hb_stage s (fst x) = Sending oper ch m" by (cases "hb_stage s (fst x)") auto
  then show ?thesis
  proof cases
    case 1
    then have "lock_fire G (Enter (fst x)) s = Some (body (fst x) oper s)" by simp
    then show ?thesis by (blast intro: lock_stepI)
  next
    case 2
    with assms(4) have "can_send ch (hb_sm s)" by (auto simp: blocked_def)
    with 2 have "lock_fire G (Deliver (fst x)) s = Some (after_send (fst x) oper ch m s)" by simp
    then show ?thesis by (blast intro: lock_stepI)
  qed
qed

lemma lock_run_bound:
  assumes "rwlock G" "(lock_step G ^^ n) s s'" "hub_ok s"
  shows "hub_ok s' \<and> n + lock_work s' \<le> lock_work s"
  using assms(2)
proof (induction n arbitrary: s')
  case 0
  then show ?case using assms(3) by simp
next
  case (Suc n)
  then obtain u where u: "(lock_step G ^^ n) s u" "lock_step G u s'" by auto
  with Suc.IH have "hub_ok u" "n + lock_work u \<le> lock_work s" by blast+
  moreover from this u(2) have "lock_work s' < lock_work u" "hub_ok s'"
    using lock_work_decreases [OF assms(1)] lock_fire_ok [OF assms(1)] by (auto simp: lock_step_def)
  ultimately show ?case by simp
qed

lemma reachable_ok: "rwlock G \<Longrightarrow> (hub_step G)\<^sup>*\<^sup>* hub_new s \<Longrightarrow> hub_ok s"
  using hub.inv_reachable [of hub_new G s] by simp


section \<open>Runs from the start\<close>

fun fires :: "task policy \<Rightarrow> hub_event list \<Rightarrow> hub \<Rightarrow> hub option" where
  "fires G [] s = Some s"
| "fires G (e # es) s = (case hub_fire G e s of Some t \<Rightarrow> fires G es t | None \<Rightarrow> None)"

lemma fires_steps: "fires G es s = Some t \<Longrightarrow> (hub_step G)\<^sup>*\<^sup>* s t"
proof (induction es arbitrary: s)
  case (Cons e es)
  then obtain u where u: "hub_fire G e s = Some u" "fires G es u = Some t" by (auto split: option.splits)
  then have "hub_step G s u" by (auto simp: hub_step_def)
  with Cons.IH [OF u(2)] show ?case by (rule converse_rtranclp_into_rtranclp [rotated])
qed simp

lemma const_upd: "(\<lambda>_. c)(x := c) = (\<lambda>_. c)"
  by auto

lemma hub_stepI: "hub_fire G e s = Some t \<Longrightarrow> hub_step G s t"
  by (auto simp: hub_step_def)

lemmas hub_simps = ask_def admit_def return_def set_handler_phase_def publish_def after_send_def Let_def
  chan_send_def can_send_def connected_clients_def session_manager_new_def hub_new_def CHANNEL_CAPACITY_def

definition enter_alone :: "task \<Rightarrow> hub_event list" where
  "enter_alone t = [Lock (Grant t), Lock (Enter t)]"

text \<open>One client has connected, and its handler writes to a connection that is not read.\<close>

definition first_client :: "string \<Rightarrow> hub" where
  "first_client cid = \<lparr>hb_sm = \<lparr>sm_inner = [(cid, 0)], sm_queue = (\<lambda>_. []), sm_alive = {0}\<rparr>,
     hb_holding = [], hb_waiting = [], hb_stage = (\<lambda>_. Idle), hb_session = [0 \<mapsto> (cid, Writing)],
     hb_published = [cid], hb_next = 1\<rparr>"

lemma first_client_reached:
  assumes "rwlock G"
  shows "(hub_step G)\<^sup>*\<^sup>* hub_new (first_client cid)"
proof -
  have [simp]: "G [] [(t, a)] t" for t a by (rule granted_alone [OF assms])
  have "fires G ([Connect cid] @ enter_alone (Session 0) @ [Next_Call 0] @ enter_alone (Session 0) @
      [Publish 0, Pushed_All 0, Answer 0]) hub_new = Some (first_client cid)"
    by (simp add: hub_simps enter_alone_def first_client_def const_upd)
  then show ?thesis by (rule fires_steps)
qed

section \<open>Properties\<close>

text \<open>
  C12. The session table is right at the granularity of its lock, whatever handlers and senders do
  between their awaits: client ids are distinct, every entry leads to a running handler of that very client which has
  not yet removed it, and its receiver is alive; no channel holds more than 256 messages; whoever is inside
  \<^verbatim>\<open>register\<close> or \<^verbatim>\<open>unregister\<close> is the only task with the lock; and a message on its way to
  a client is being put into the channel of that client's entry, unchanged.
\<close>
theorem session_table_sound:
  assumes "rwlock G" "(hub_step G)\<^sup>*\<^sup>* hub_new s"
  shows "distinct (map fst (sm_inner (hb_sm s))) \<and>
    (\<forall>cid ch. map_of (sm_inner (hb_sm s)) cid = Some ch \<longrightarrow>
       ch \<in> sm_alive (hb_sm s) \<and> (\<exists>ph. hb_session s ch = Some (cid, ph))) \<and>
    (\<forall>ch. length (sm_queue (hb_sm s) ch) \<le> CHANNEL_CAPACITY) \<and>
    (\<forall>t u. holds (hb_stage s t) = Some Write \<longrightarrow> holds (hb_stage s u) \<noteq> None \<longrightarrow> u = t) \<and>
    (\<forall>t cid m ch m'. hb_stage s t = Sending (Send_To cid m) ch m' \<longrightarrow>
       m' = m \<and> map_of (sm_inner (hb_sm s)) cid = Some ch)"
proof -
  from table.inv_reachable [of hub_new G s] assms have ok: "hub_ok s" and tok: "table_ok s" by simp_all
  show ?thesis
  proof (intro conjI allI impI)
    fix cid ch assume "map_of (sm_inner (hb_sm s)) cid = Some ch"
    from table_okD(3) [OF tok this] table_okD(1) [OF tok]
    show "ch \<in> sm_alive (hb_sm s)" "\<exists>ph. hb_session s ch = Some (cid, ph)" by auto
  next
    fix t u assume "holds (hb_stage s t) = Some Write" "holds (hb_stage s u) \<noteq> None"
    with hub_okD(5) [OF ok, of t u] show "u = t" by auto
  next
    fix t cid m ch m' assume "hb_stage s t = Sending (Send_To cid m) ch m'"
    from table_okD(7) [OF tok this] show "m' = m" "map_of (sm_inner (hb_sm s)) cid = Some ch" by simp_all
  qed (rule table_okD(2) [OF tok] hub_okD(6) [OF ok])+
qed

lemma session_table_sound_witness:
  "\<exists>s. (hub_step fifo_grant)\<^sup>*\<^sup>* hub_new s \<and> map_of (sm_inner (hb_sm s)) ''a'' = Some 0 \<and>
    0 \<in> sm_alive (hb_sm s) \<and> (\<exists>ph. hb_session s 0 = Some (''a'', ph))"
proof -
  let ?s = "first_client ''a''"
  note r = first_client_reached [OF fifo.rwlock_axioms, of "''a''"]
  have "map_of (sm_inner (hb_sm ?s)) ''a'' = Some 0" by (simp add: first_client_def)
  with session_table_sound [OF fifo.rwlock_axioms r] r show ?thesis by blast
qed



text \<open>
  C14. Nothing but a full channel can stop the session methods: from every reachable state, with any
  number of clients, handlers and senders, the steps of the lock and the methods are at most three per pending
  call, and when none is possible any more either every call has returned or some task waits for room in the
  full channel of a living handler.
\<close>
theorem session_methods_settle:
  assumes "rwlock G" "(hub_step G)\<^sup>*\<^sup>* hub_new s" "(lock_step G ^^ n) s s'"
  shows "n \<le> 3 * (length (hb_waiting s) + length (hb_holding s)) \<and>
    ((\<exists>s''. lock_step G s' s'') \<or> lock_quiet s' \<or> blocked s')"
  using lock_run_bound [OF assms(1,3) reachable_ok [OF assms(1,2)]] lock_work_le [of s]
    lock_progress [OF assms(1), of s'] by fastforce

lemma session_methods_settle_witness:
  "\<exists>s s'. (hub_step fifo_grant)\<^sup>*\<^sup>* hub_new s \<and> (lock_step fifo_grant ^^ 2) s s' \<and>
     2 \<le> 3 * (length (hb_waiting s) + length (hb_holding s)) \<and> lock_quiet s'"
proof -
  obtain s where s: "fires fifo_grant [Connect ''a''] hub_new = Some s" by (simp add: Let_def)
  obtain u s' where 1: "lock_fire fifo_grant (Grant (Session 0)) s = Some u"
    and 2: "lock_fire fifo_grant (Enter (Session 0)) u = Some s'" and q: "lock_quiet s'"
    using s by (auto simp: hub_simps lock_quiet_def)
  from 1 2 have n: "(lock_step fifo_grant ^^ 2) s s'"
    by (auto simp: numeral_2_eq_2 intro!: relcomppI lock_stepI simp del: lock_fire.simps)
  note r = fires_steps [OF s]
  from session_methods_settle [OF fifo.rwlock_axioms r n] r n q show ?thesis by blast
qed

text \<open>
  C39. The published client list can stay wrong: a handler reads the session table and publishes
  what it read in separate steps, so of two clients that connect together one can be missing from the web
  interface's list although both are registered, served and no publication is outstanding.
\<close>
theorem stale_client_list:
  assumes "rwlock G" "a \<noteq> b"
  shows "\<exists>s. (hub_step G)\<^sup>*\<^sup>* hub_new s \<and> lock_quiet s \<and> (\<forall>t. hb_stage s t = Idle) \<and>
    hb_session s = [0 \<mapsto> (a, Serving), 1 \<mapsto> (b, Serving)] \<and>
    connected_clients (hb_sm s) = [a, b] \<and> hb_published s = [a]"
proof -
  have [simp]: "G [] [(t, x)] t" for t x by (rule granted_alone [OF assms(1)])
  obtain s where s: "fires G ([Connect a] @ enter_alone (Session 0) @ [Next_Call 0] @ enter_alone (Session 0) @
      [Connect b] @ enter_alone (Session 1) @ [Next_Call 1] @ enter_alone (Session 1) @
      [Publish 1, Publish 0, Pushed_All 0, Pushed_All 1]) hub_new = Some s"
    and "lock_quiet s" "\<forall>t. hb_stage s t = Idle" "hb_session s = [0 \<mapsto> (a, Serving), 1 \<mapsto> (b, Serving)]"
      "connected_clients (hb_sm s) = [a, b]" "hb_published s = [a]"
    using assms(2) by (simp add: hub_simps enter_alone_def lock_quiet_def fun_upd_twist)
  with fires_steps [OF s] show ?thesis by blast
qed

lemma stale_client_list_witness:
  "\<exists>s. (hub_step fifo_grant)\<^sup>*\<^sup>* hub_new s \<and> lock_quiet s \<and> (\<forall>t. hb_stage s t = Idle) \<and>
    hb_session s = [0 \<mapsto> (''a'', Serving), 1 \<mapsto> (''b'', Serving)] \<and>
    connected_clients (hb_sm s) = [''a'', ''b''] \<and> hb_published s = [''a'']"
  by (rule stale_client_list [OF fifo.rwlock_axioms]) simp


end
