(* ===== verification/Session_Deadlock.thy ===== *)
theory Session_Deadlock
  imports Session_Locks
begin

text \<open>
  The deadlock of the session table in \<^verbatim>\<open>crates/server/src/client_session.rs\<close>: a method waits
  for room in a channel with the lock in hand, while the handler that would empty the channel waits for the lock. The state
  is closed under all steps and is reached from the start.
\<close>

section \<open>A full channel whose handler is leaving\<close>

text \<open>
  Task \<open>t\<close> waits, lock in hand, for room in the full channel \<open>ch\<close>; the handler of \<open>ch\<close> left
  its loop and waits for the write lock in \<^verbatim>\<open>unregister\<close>, its receiver still alive.
\<close>

definition clogged :: "nat \<Rightarrow> task \<Rightarrow> hub \<Rightarrow> bool" where
  "clogged ch t s \<longleftrightarrow>
     (\<exists>oper m. hb_stage s t = Sending oper ch m) \<and>
     ch \<in> sm_alive (hb_sm s) \<and> length (sm_queue (hb_sm s) ch) = CHANNEL_CAPACITY \<and>
     (\<exists>cid. hb_session s ch = Some (cid, Withdrawing) \<and> hb_stage s (Session ch) = Await_Lock (Unregister cid))"

definition behind :: "task \<Rightarrow> (task \<times> access) list \<Rightarrow> task \<Rightarrow> bool" where
  "behind v W u \<longleftrightarrow> (\<exists>p q. W = p @ (v, Write) # q \<and> u \<in> fst ` set q)"

text \<open>The tasks that were in no method at \<open>s0\<close> still are in none, or queue behind that writer.\<close>

definition stuck_since :: "hub \<Rightarrow> nat \<Rightarrow> task \<Rightarrow> hub \<Rightarrow> bool" where
  "stuck_since s0 ch t s \<longleftrightarrow>
     hub_ok s \<and> clogged ch t s \<and> sm_inner (hb_sm s) = sm_inner (hb_sm s0) \<and>
     (\<forall>u. hb_stage s0 u = Idle \<longrightarrow> hb_stage s u = Idle \<or> behind (Session ch) (hb_waiting s) u)"

lemma behind_append: "behind v W u \<Longrightarrow> behind v (W @ X) u"
proof -
  assume "behind v W u"
  then obtain p q where "W @ X = p @ (v, Write) # (q @ X)" "u \<in> fst ` set (q @ X)"
    by (auto simp: behind_def)
  then show ?thesis unfolding behind_def by blast
qed

lemma behind_snoc:
  assumes "(v, Write) \<in> set W"
  shows "behind v (W @ [(u, a)]) u"
proof -
  from split_list [OF assms] obtain p q where "W @ [(u, a)] = p @ (v, Write) # (q @ [(u, a)])"
    by auto
  then show ?thesis unfolding behind_def by force
qed

lemma behind_delete:
  assumes "behind v W u" "x \<noteq> v" "x \<noteq> u"
  shows "behind v (AList.delete x W) u"
proof -
  obtain p q where W: "W = p @ (v, Write) # q" and u: "u \<in> fst ` set q"
    using assms(1) by (auto simp: behind_def)
  have "AList.delete x W = AList.delete x p @ (v, Write) # AList.delete x q"
    using assms(2) by (simp add: W AList.delete_eq)
  moreover have "u \<in> fst ` set (AList.delete x q)"
    using u assms(3) by (force simp: AList.delete_eq)
  ultimately show ?thesis unfolding behind_def by blast
qed

lemma behind_waiting: "behind v W u \<Longrightarrow> u \<in> fst ` set W"
  by (auto simp: behind_def)

lemma clogged_holds:
  assumes "clogged ch t s"
  shows "holds (hb_stage s t) \<noteq> None" "wants (hb_stage s (Session ch)) = Some Write" "t \<noteq> Session ch"
  using assms by (auto simp: clogged_def)

lemma clogged_queue:
  assumes "hub_ok s" "clogged ch t s"
  shows "(Session ch, Write) \<in> set (hb_waiting s)" "hb_holding s \<noteq> []"
proof -
  show "(Session ch, Write) \<in> set (hb_waiting s)"
    using hub_okD(3) [OF assms(1), of "Session ch"] clogged_holds(2) [OF assms(2)]
    by (simp add: map_of_SomeD)
  show "hb_holding s \<noteq> []"
    using hub_okD(4) [OF assms(1), of t] clogged_holds(1) [OF assms(2)] by auto
qed

lemma no_writer_inside:
  assumes "hub_ok s" "clogged ch t s" "u \<noteq> t"
  shows "holds (hb_stage s u) \<noteq> Some Write"
  using hub_okD(5) [OF assms(1), of u t] clogged_holds(1) [OF assms(2)] assms(3) by auto

lemma grant_clogged:
  assumes "rwlock G" "hub_ok s" "clogged ch t s" "G (hb_holding s) (hb_waiting s) u"
  shows "u \<noteq> Session ch" "\<not> behind (Session ch) (hb_waiting s) u"
proof -
  note cq = clogged_queue [OF assms(2,3)]
  show "u \<noteq> Session ch"
  proof
    assume "u = Session ch"
    then have "map_of (hb_waiting s) u = Some Write"
      using cq(1) hub_okD(1) [OF assms(2)] by simp
    then show False using rwlock.grant_write [OF assms(1,4)] cq(2) by simp
  qed
  show "\<not> behind (Session ch) (hb_waiting s) u"
    using rwlock.grant_queue [OF assms(1)] assms(4) hub_okD(1) [OF assms(2)]
    unfolding behind_def by metis
qed

lemma ask_stuck:
  assumes "stuck_since s0 ch t s" "hb_stage s u = Idle" "\<And>c. u = Session c \<Longrightarrow> c < hb_next s"
  shows "stuck_since s0 ch t (ask u oper s)"
proof -
  from assms(1) have ok: "hub_ok s" and cl: "clogged ch t s" by (simp_all add: stuck_since_def)
  have "clogged ch t (ask u oper s)" using cl assms(2) by (auto simp: clogged_def ask_def)
  moreover have "hub_ok (ask u oper s)" using ok assms(2,3) by (rule ask_ok)
  ultimately show ?thesis
    using assms(1,2) clogged_queue(1) [OF ok cl]
    by (auto simp: stuck_since_def ask_def behind_append behind_snoc)
qed

lemma lock_fire_stuck:
  assumes "rwlock G" "stuck_since s0 ch t s" "lock_fire G e s = Some s'"
  shows "stuck_since s0 ch t s'"
proof -
  from assms(2) have ok: "hub_ok s" and cl: "clogged ch t s" by (simp_all add: stuck_since_def)
  have ok': "hub_ok s'" using assms(1) ok assms(3) by (rule lock_fire_ok)
  show ?thesis
  proof (cases e)
    case (Grant u)
    with assms(3) obtain oper where st: "hb_stage s u = Await_Lock oper"
      and g: "G (hb_holding s) (hb_waiting s) u" and s': "s' = admit u oper s"
      by (auto split: stage.splits if_splits)
    note gc = grant_clogged [OF assms(1) ok cl g]
    have "u \<noteq> t" using clogged_holds(1) [OF cl] st by auto
    then have "clogged ch t s'" using cl gc(1) by (simp add: clogged_def s' admit_def)
    moreover have "hb_stage s0 u \<noteq> Idle" using assms(2) st gc(2) by (auto simp: stuck_since_def)
    ultimately show ?thesis
      using ok' assms(2) gc(1) by (auto simp: stuck_since_def s' admit_def intro: behind_delete)
  next
    case (Enter u)
    with assms(3) obtain oper where st: "hb_stage s u = Locked oper" and s': "s' = body u oper s"
      by (auto split: stage.splits)
    have "u \<noteq> t" using cl st by (auto simp: clogged_def)
    then have "access_of oper \<noteq> Write" using no_writer_inside [OF ok cl, of u] st by simp
    moreover have "u \<noteq> Session ch" using cl st by (auto simp: clogged_def)
    moreover have "hb_stage s0 u \<noteq> Idle"
      using assms(2) st behind_waiting [of "Session ch" "hb_waiting s" u] waiting_iff [OF ok, of u]
      by (auto simp: stuck_since_def)
    ultimately show ?thesis
      using ok' assms(2) \<open>u \<noteq> t\<close>
      by (cases oper) (auto simp: stuck_since_def clogged_def s' return_def split: option.splits)
  next
    case (Deliver u)
    with assms(3) obtain oper c m where st: "hb_stage s u = Sending oper c m" and cs: "can_send c (hb_sm s)"
      and s': "s' = after_send u oper c m s"
      by (auto split: stage.splits if_splits)
    have c: "c \<noteq> ch" using cl cs by (auto simp: clogged_def can_send_def)
    then have "u \<noteq> t" using cl st by (auto simp: clogged_def)
    then have "access_of oper \<noteq> Write" using no_writer_inside [OF ok cl, of u] st by simp
    moreover have "u \<noteq> Session ch" using cl st by (auto simp: clogged_def)
    moreover have "hb_stage s0 u \<noteq> Idle"
      using assms(2) st behind_waiting [of "Session ch" "hb_waiting s" u] waiting_iff [OF ok, of u]
      by (auto simp: stuck_since_def)
    ultimately show ?thesis
      using ok' assms(2) \<open>u \<noteq> t\<close> c
      by (cases oper)
        (auto simp: stuck_since_def clogged_def s' after_send_def Let_def return_def chan_send_def)
  qed
qed

lemma set_handler_phase_stuck:
  assumes "stuck_since s0 ch t s" "hb_session s c = Some (cid, ph)" "ph \<noteq> Withdrawing"
  shows "stuck_since s0 ch t (set_handler_phase c cid' ph' s)"
proof -
  have "hub_ok (set_handler_phase c cid' ph' s)"
    using assms by (intro set_handler_phase_ok) (auto simp: stuck_since_def)
  then show ?thesis using assms by (auto simp: stuck_since_def clogged_def set_handler_phase_def)
qed

lemma hub_fire_stuck:
  assumes "rwlock G" "stuck_since s0 ch t s" "hub_fire G e s = Some s'"
  shows "stuck_since s0 ch t s'"
proof -
  from assms(2) have ok: "hub_ok s" and cl: "clogged ch t s" by (simp_all add: stuck_since_def)
  have ok': "hub_ok s'" using assms(1) ok assms(3) by (rule hub_fire_ok)
  show ?thesis
  proof (cases e)
    case (Lock e')
    with assms show ?thesis by (simp add: lock_fire_stuck)
  next
    case (Connect cid)
    let ?c = "hb_next s"
    let ?s = "set_handler_phase ?c cid Registering (s\<lparr>hb_sm := (hb_sm s)\<lparr>sm_alive := insert ?c (sm_alive (hb_sm s)),
      sm_queue := (sm_queue (hb_sm s))(?c := [])\<rparr>, hb_next := Suc ?c\<rparr>)"
    have "ch < ?c" using session_known [OF ok, of ch] cl by (auto simp: clogged_def)
    moreover have "hub_ok ?s" using ok by (auto simp: hub_ok_def set_handler_phase_def)
    ultimately have "stuck_since s0 ch t ?s"
      using assms(2) by (auto simp: stuck_since_def clogged_def set_handler_phase_def)
    moreover have "hb_stage ?s (Session ?c) = Idle" using hub_okD(7) [OF ok] by simp
    ultimately have "stuck_since s0 ch t (ask (Session ?c) (Register cid ?c) ?s)" by (rule ask_stuck) simp
    with Connect assms(3) show ?thesis by (auto simp: Let_def)
  next
    case (Call k cid m)
    with assms show ?thesis by (auto intro!: ask_stuck split: if_splits)
  next
    case (Next_Call c)
    with assms(3) obtain p where p: "hb_session s c = Some p" and idle: "hb_stage s (Session c) = Idle"
      and s': "next_call c p s = Some s'" by (auto split: option.splits stage.splits)
    have k: "c < hb_next s" using session_known [OF ok] p by simp
    have a: "stuck_since s0 ch t (ask (Session c) oper s1)"
      if "stuck_since s0 ch t s1" "hb_stage s1 = hb_stage s" "hb_next s1 = hb_next s" for oper s1
      using that idle k by (auto intro: ask_stuck)
    from s' p show ?thesis
      by (cases "(c, p, s)" rule: next_call.cases) (auto intro!: a set_handler_phase_stuck assms(2))
  next
    case (Publish c)
    with assms(3) obtain p xs where p: "hb_session s c = Some p" and l: "hb_stage s (Session c) = Listed xs"
      and s': "s' = publish c xs p s" by (auto split: option.splits stage.splits)
    have "c \<noteq> ch" "t \<noteq> Session c" using cl l by (auto simp: clogged_def)
    moreover have "hb_stage s0 (Session c) \<noteq> Idle"
      using assms(2) l behind_waiting [of "Session ch" "hb_waiting s" "Session c"] waiting_iff [OF ok, of "Session c"]
      by (auto simp: stuck_since_def)
    ultimately show ?thesis
      using ok' assms(2) by (auto simp: stuck_since_def clogged_def s' publish_def Let_def set_handler_phase_def)
  next
    case (Receive c)
    then obtain cid m rest where p: "hb_session s c = Some (cid, Serving)" and q: "sm_queue (hb_sm s) c = m # rest"
      and s': "s' = set_handler_phase c cid Writing
        (s\<lparr>hb_sm := (hb_sm s)\<lparr>sm_queue := (sm_queue (hb_sm s))(c := rest)\<rparr>\<rparr>)"
      using assms(3) by (auto split: option.splits handler_phase.splits list.splits)
    have "c \<noteq> ch" using cl p by (auto simp: clogged_def)
    then show ?thesis using ok' assms(2) by (auto simp: stuck_since_def clogged_def s' set_handler_phase_def)
  qed (use assms in \<open>auto intro!: set_handler_phase_stuck split: option.splits handler_phase.splits if_splits\<close>)
qed

lemma stuck_steps:
  assumes "rwlock G" "(hub_step G)\<^sup>*\<^sup>* s s'" "stuck_since s0 ch t s"
  shows "stuck_since s0 ch t s'"
  using assms(2,3)
  by (induction rule: rtranclp_induct) (auto simp: hub_step_def intro: hub_fire_stuck [OF assms(1)])

lemma stuck_start: "hub_ok s \<Longrightarrow> clogged ch t s \<Longrightarrow> stuck_since s ch t s"
  by (simp add: stuck_since_def)


section \<open>How it comes about\<close>

text \<open>Messages to it pile up in its channel.\<close>

definition piled :: "string \<Rightarrow> message \<Rightarrow> nat \<Rightarrow> hub" where
  "piled cid m n = (first_client cid)\<lparr>hb_sm := \<lparr>sm_inner = [(cid, 0)],
     sm_queue = (\<lambda>_. [])(0 := replicate n m), sm_alive = {0}\<rparr>\<rparr>"

lemma pile_up:
  assumes "rwlock G" "n \<le> CHANNEL_CAPACITY"
  shows "(hub_step G)\<^sup>*\<^sup>* (first_client cid) (piled cid m n)"
  using assms(2)
proof (induction n)
  case 0
  then show ?case by (simp add: piled_def first_client_def fun_upd_idem)
next
  case (Suc n)
  let ?s = "piled cid m n" and ?t = "Caller 0"
  have "hub_fire G (Call 0 cid m) ?s = Some (ask ?t (Send_To cid m) ?s)"
    by (simp add: piled_def first_client_def)
  then have "hub_step G ?s (ask ?t (Send_To cid m) ?s)" by (rule hub_stepI)
  moreover have "(hub_step G)\<^sup>*\<^sup>* (ask ?t (Send_To cid m) ?s) (left ?t (Send_To cid m) ?s)"
    by (intro lock_steps_hub run_method_alone assms(1))
      (use Suc.prems in \<open>simp_all add: piled_def first_client_def can_send_def\<close>)
  moreover have "left ?t (Send_To cid m) ?s = piled cid m (Suc n)"
    by (simp add: left_def piled_def first_client_def send_to_def chan_send_def fun_upd_idem
        replicate_append_same)
  moreover have "(hub_step G)\<^sup>*\<^sup>* (first_client cid) ?s" using Suc by simp
  ultimately show ?case by (metis converse_rtranclp_into_rtranclp rtranclp_trans)
qed

text \<open>The next sender blocks, then the connection breaks.\<close>

definition clogged_hub :: "string \<Rightarrow> message \<Rightarrow> hub" where
  "clogged_hub cid m = (piled cid m CHANNEL_CAPACITY)\<lparr>
     hb_holding := [(Caller 0, Read)], hb_waiting := [(Session 0, Write)],
     hb_stage := (\<lambda>_. Idle)(Caller 0 := Sending (Send_To cid m) 0 m, Session 0 := Await_Lock (Unregister cid)),
     hb_session := [0 \<mapsto> (cid, Withdrawing)]\<rparr>"

lemma clogged_hub: "clogged 0 (Caller 0) (clogged_hub cid m)"
  by (simp add: clogged_def clogged_hub_def piled_def first_client_def)

lemma clogged_hub_reached:
  assumes "rwlock G"
  shows "(hub_step G)\<^sup>*\<^sup>* hub_new (clogged_hub cid m)"
proof -
  have [simp]: "G [] [(t, a)] t" for t a by (rule granted_alone [OF assms])
  have "fires G ([Call 0 cid m] @ enter_alone (Caller 0) @ [Written 0 False, Next_Call 0])
      (piled cid m CHANNEL_CAPACITY) = Some (clogged_hub cid m)"
    by (simp add: hub_simps enter_alone_def first_client_def piled_def clogged_hub_def)
  from fires_steps [OF this] pile_up [OF assms order_refl, of cid m] first_client_reached [OF assms, of cid]
  show ?thesis by (meson rtranclp_trans)
qed

section \<open>Properties\<close>

text \<open>
  C13. Deadlock on a full channel: once a task waits, with the session lock in hand, for room in the
  full channel of a client whose handler has left its loop and waits for the write lock in
  \<^verbatim>\<open>unregister\<close>, this never resolves. In every later state both still wait, the session table is
  what it was (no client can register or be removed), and every task that then was in no session method is in none
  or waits for the lock: no message is sent to any client, no other client can connect. Holds for any lock
  with tokio's contract.
\<close>
theorem full_channel_deadlock:
  assumes "rwlock G" "(hub_step G)\<^sup>*\<^sup>* hub_new s" "clogged ch t s" "(hub_step G)\<^sup>*\<^sup>* s s'"
  shows "clogged ch t s' \<and> sm_inner (hb_sm s') = sm_inner (hb_sm s) \<and>
    (\<forall>u. hb_stage s u = Idle \<longrightarrow> hb_stage s' u = Idle \<or> wants (hb_stage s' u) \<noteq> None)"
proof -
  have st: "stuck_since s ch t s'"
    using stuck_steps [OF assms(1,4)] stuck_start [OF reachable_ok [OF assms(1,2)] assms(3)] .
  then show ?thesis using behind_waiting waiting_iff by (fastforce simp: stuck_since_def)
qed

lemma full_channel_deadlock_witness:
  "\<exists>s s'. (hub_step fifo_grant)\<^sup>*\<^sup>* hub_new s \<and> hub_step fifo_grant s s' \<and> clogged 0 (Caller 0) s' \<and>
     wants (hb_stage s' (Session 1)) = Some Write \<and> sm_inner (hb_sm s') = [(''a'', 0)]"
proof -
  let ?s = "clogged_hub ''a'' (Control Ping)"
  obtain s' where s': "hub_fire fifo_grant (Connect ''b'') ?s = Some s'" by (simp add: Let_def)
  then have step: "hub_step fifo_grant ?s s'" by (rule hub_stepI)
  note r = clogged_hub_reached [OF fifo.rwlock_axioms, of "''a''" "Control Ping"]
  have "sm_inner (hb_sm ?s) = [(''a'', 0)]" by (simp add: clogged_hub_def piled_def)
  moreover have "wants (hb_stage s' (Session 1)) = Some Write"
    using s' by (auto simp: Let_def ask_def clogged_hub_def piled_def first_client_def)
  ultimately show ?thesis
    using full_channel_deadlock [OF fifo.rwlock_axioms r clogged_hub r_into_rtranclp [of "hub_step fifo_grant", OF step]]
      r step by metis
qed

text \<open>
  That deadlock is reached from the start by one client: it connects, stops reading, 256 messages
  are sent to it (rules pushed, work connections requested), a further sender waits for room, and then its
  connection breaks.
\<close>
theorem full_channel_reachable:
  assumes "rwlock G"
  shows "\<exists>s. (hub_step G)\<^sup>*\<^sup>* hub_new s \<and> clogged 0 (Caller 0) s \<and>
    map_of (sm_inner (hb_sm s)) cid = Some 0 \<and> sm_queue (hb_sm s) 0 = replicate CHANNEL_CAPACITY m"
proof (intro exI conjI)
  show "(hub_step G)\<^sup>*\<^sup>* hub_new (clogged_hub cid m)" using assms by (rule clogged_hub_reached)
  show "clogged 0 (Caller 0) (clogged_hub cid m)" by (rule clogged_hub)
qed (simp_all add: clogged_hub_def piled_def)

lemma full_channel_reachable_witness:
  "\<exists>s. (hub_step fifo_grant)\<^sup>*\<^sup>* hub_new s \<and> clogged 0 (Caller 0) s \<and>
    map_of (sm_inner (hb_sm s)) ''office'' = Some 0 \<and>
    sm_queue (hb_sm s) 0 = replicate CHANNEL_CAPACITY (Control Ping)"
  by (rule full_channel_reachable [OF fifo.rwlock_axioms])

end
