(* ===== verification/Api_Steps.thy ===== *)
theory Api_Steps
  imports Server_Inv
begin

text \<open>
  The handlers of \<^verbatim>\<open>crates/web/src/api.rs\<close> that change rules, cut at their awaits: each method
  of the rule manager, each start or stop of a listener, each change of a status and each message is a step of its
  own, together with the callbacks of \<^verbatim>\<open>crates/server/src/main.rs\<close> they run. Any number of handlers
  runs at the same time. Run alone a handler does what theory Api says it does in one step.
\<close>

section \<open>Handlers\<close>

text \<open>
  Where a handler is. \<open>After_Update\<close> and \<open>After_Delete\<close> tell for whom the delete callback runs. The
  first argument of \<open>Create_Cb\<close> to \<open>Read_Back\<close> numbers the database access of the final
  \<^verbatim>\<open>get_proxy\<close>.
\<close>

datatype stop_for = After_Update proxy_rule | After_Delete

datatype api_task =
    Requested api_call
  | Stored proxy_rule
  | Create_Cb nat proxy_rule
  | Create_Listen nat proxy_rule
  | Create_Status nat proxy_rule bool
  | Announce nat proxy_rule
  | Read_Back nat string
  | Merged string proxy_rule proxy_rule
  | Found string proxy_rule
  | Removed string proxy_rule
  | Delete_Cb proxy_rule stop_for
  | Delete_Listen proxy_rule stop_for
  | Delete_Status proxy_rule stop_for
  | Farewell proxy_rule
  | Replied u16

text \<open>The request of each handler up to its first change of state.\<close>

definition create_request ::
  "(nat \<Rightarrow> bool) \<Rightarrow> vec_json \<Rightarrow> (nat \<Rightarrow> bool) \<Rightarrow> create_proxy_request \<Rightarrow> server_world \<Rightarrow> api_task \<times> server_world" where
  "create_request U V F payload w =
     (case first_error (create_checks U payload) of
        Inl e \<Rightarrow> (Replied 400, w)
      | Inr _ \<Rightarrow>
          (case api_proxy_type (cr_type payload) of
             None \<Rightarrow> (Replied 400, w)
           | Some t \<Rightarrow>
               let rule = create_rule t payload in
               (case add_proxy V (F 0) rule (pm_of w) of
                  (Inl e, pm) \<Rightarrow> (Replied 400, set_pm pm w)
                | (Inr _, pm) \<Rightarrow> (Stored rule, set_pm pm w))))"

definition update_request ::
  "(nat \<Rightarrow> bool) \<Rightarrow> vec_json \<Rightarrow> (nat \<Rightarrow> bool) \<Rightarrow> string \<Rightarrow> update_proxy_request \<Rightarrow> server_world \<Rightarrow> api_task" where
  "update_request U V F name payload w =
     (case first_error (update_checks1 U payload) of
        Inl e \<Rightarrow> Replied 400
      | Inr _ \<Rightarrow>
          (case get_proxy V (F 0) name (pm_of w) of
             None \<Rightarrow> Replied 404
           | Some old \<Rightarrow>
               (case first_error (update_checks2 U payload (pe_rule old)) of
                  Inl e \<Rightarrow> Replied 400
                | Inr _ \<Rightarrow> Merged name (pe_rule old) (merge_rule name payload (pe_rule old)))))"

definition delete_request ::
  "vec_json \<Rightarrow> (nat \<Rightarrow> bool) \<Rightarrow> string \<Rightarrow> server_world \<Rightarrow> api_task" where
  "delete_request V F name w =
     (case get_proxy V (F 0) name (pm_of w) of
        None \<Rightarrow> Replied 404
      | Some entry \<Rightarrow> Found name (pe_rule entry))"

definition tell :: "serde \<Rightarrow> string \<Rightarrow> control_message \<Rightarrow> server_world \<Rightarrow> server_world" where
  "tell J cid m w = snd (notify_callback J cid (to_string_or_default J m) w)"

text \<open>One step: from one await to the next.\<close>

fun handler_step ::
  "(nat \<Rightarrow> bool) \<Rightarrow> vec_json \<Rightarrow> serde \<Rightarrow> (nat \<Rightarrow> bool) \<Rightarrow> api_task \<Rightarrow> server_world \<Rightarrow>
   api_task \<times> server_world" where
  "handler_step U V J F (Requested (Create payload)) w = create_request U V F payload w"
| "handler_step U V J F (Requested (Update name payload)) w = (update_request U V F name payload w, w)"
| "handler_step U V J F (Requested (Delete name)) w = (delete_request V F name w, w)"
| "handler_step U V J F (Stored rule) w =
     (Create_Cb 1 rule, on_pm (update_status (r_name rule) Starting) w)"
| "handler_step U V J F (Create_Cb k rule) w =
     (Create_Listen k rule, on_pm (update_status (r_name rule) Starting) w)"
| "handler_step U V J F (Create_Listen k rule) w =
     (let (ok, lm) = start_proxy_listener (se_busy (snd w)) rule (listeners_of w)
      in (Create_Status k rule ok, set_listeners lm w))"
| "handler_step U V J F (Create_Status k rule ok) w =
     (Announce k rule, on_pm (update_status (r_name rule) (if ok then Running else Error)) w)"
| "handler_step U V J F (Announce k rule) w =
     (Read_Back k (r_name rule), tell J (r_client_id rule) (ServerAssignProxy (assign_of_rule rule)) w)"
| "handler_step U V J F (Read_Back k name) w =
     (Replied (if get_proxy V (F k) name (pm_of w) = None then 500 else 200), w)"
| "handler_step U V J F (Merged name existing rule) w =
     (case update_proxy V (F 1) name rule (pm_of w) of
        (Inl e, pm) \<Rightarrow> (Replied 400, set_pm pm w)
      | (Inr _, pm) \<Rightarrow> (Delete_Cb existing (After_Update rule), set_pm pm w))"
| "handler_step U V J F (Found name rule) w =
     (case remove_proxy V (F 1) (F 2) name (pm_of w) of
        (Inl e, pm) \<Rightarrow> (Replied 400, set_pm pm w)
      | (Inr _, pm) \<Rightarrow> (Removed name rule, set_pm pm w))"
| "handler_step U V J F (Removed name rule) w =
     (Delete_Cb rule After_Delete, on_pm (update_status name Stopping) w)"
| "handler_step U V J F (Delete_Cb rule nxt) w =
     (Delete_Listen rule nxt, on_pm (update_status (r_name rule) Stopping) w)"
| "handler_step U V J F (Delete_Listen rule nxt) w =
     (Delete_Status rule nxt, set_listeners (stop_proxy_listener rule (listeners_of w)) w)"
| "handler_step U V J F (Delete_Status rule nxt) w =
     ((case nxt of After_Update new \<Rightarrow> Create_Cb 2 new | After_Delete \<Rightarrow> Farewell rule),
      on_pm (update_status (r_name rule) Stopped) w)"
| "handler_step U V J F (Farewell rule) w =
     (Replied 200, tell J (r_client_id rule) (ServerCloseProxy \<lparr>scp_name = r_name rule\<rparr>) w)"
| "handler_step U V J F (Replied code) w = (Replied code, w)"

fun handler_run ::
  "(nat \<Rightarrow> bool) \<Rightarrow> vec_json \<Rightarrow> serde \<Rightarrow> (nat \<Rightarrow> bool) \<Rightarrow> nat \<Rightarrow> api_task \<Rightarrow> server_world \<Rightarrow>
   api_task \<times> server_world" where
  "handler_run U V J F 0 h w = (h, w)"
| "handler_run U V J F (Suc n) h w = (let (h, w) = handler_step U V J F h w in handler_run U V J F n h w)"

section \<open>A handler alone\<close>

lemma handler_run_add:
  "handler_run U V J F (m + n) h w =
     (let (h, w) = handler_run U V J F m h w in handler_run U V J F n h w)"
  by (induction m arbitrary: h w) (simp_all add: case_prod_beta Let_def)

lemma replied_stays [simp]: "handler_run U V J F n (Replied c) w = (Replied c, w)"
  by (induction n) simp_all

lemma create_cb_run:
  "handler_run U V J F 5 (Create_Cb k rule) w =
     (let w = tell J (r_client_id rule) (ServerAssignProxy (assign_of_rule rule)) (create_callback rule w)
      in (Replied (if get_proxy V (F k) (r_name rule) (pm_of w) = None then 500 else 200), w))"
  by (simp add: eval_nat_numeral create_callback_def Let_def case_prod_beta)

lemma delete_cb_run:
  "handler_run U V J F 3 (Delete_Cb rule nxt) w =
     ((case nxt of After_Update new \<Rightarrow> Create_Cb 2 new | After_Delete \<Rightarrow> Farewell rule),
      delete_callback rule w)"
  by (simp add: eval_nat_numeral delete_callback_def Let_def)

lemma notify_assign_tell:
  "notify_assign (server_params U V J jwt bc) rule w =
     tell J (r_client_id rule) (ServerAssignProxy (assign_of_rule rule)) w"
  by (simp add: notify_assign_def tell_def)

lemma stored_run:
  "handler_run U V J F 6 (Stored rule) w =
     handler_run U V J F 5 (Create_Cb 1 rule) (on_pm (update_status (r_name rule) Starting) w)"
  by (simp add: eval_nat_numeral)

lemma merged_run:
  "handler_run U V J F 9 (Merged name existing rule) w =
     (case update_proxy V (F 1) name rule (pm_of w) of
        (Inl e, pm) \<Rightarrow> (Replied 400, set_pm pm w)
      | (Inr _, pm) \<Rightarrow> handler_run U V J F 5 (Create_Cb 2 rule) (delete_callback existing (set_pm pm w)))"
  using handler_run_add [of U V J F 3 5]
  by (simp add: eval_nat_numeral delete_callback_def Let_def split: sum.splits prod.splits)

lemma found_run:
  "handler_run U V J F 6 (Found name rule) w =
     (case remove_proxy V (F 1) (F 2) name (pm_of w) of
        (Inl e, pm) \<Rightarrow> (Replied 400, set_pm pm w)
      | (Inr _, pm) \<Rightarrow>
          (Replied 200, tell J (r_client_id rule) (ServerCloseProxy \<lparr>scp_name = r_name rule\<rparr>)
             (delete_callback rule (on_pm (update_status name Stopping) (set_pm pm w)))))"
  by (simp add: eval_nat_numeral delete_callback_def Let_def split: sum.splits prod.splits)

declare first_error_Inr [simp del]

lemma create_request_run:
  assumes "create_proxy (server_params U V J jwt bc) F payload w = (r, w')"
  shows "handler_run U V J F 7 (Requested (Create payload)) w = (Replied (rsp_code r), w')"
proof -
  have run: "handler_run U V J F 7 (Requested (Create payload)) w =
      (let (h, w) = create_request U V F payload w in handler_run U V J F 6 h w)" for w
    by (simp add: eval_nat_numeral case_prod_beta)
  show ?thesis
  proof (cases "first_error (create_checks U payload)")
    case (Inl e)
    with assms show ?thesis by (auto simp: run create_request_def create_proxy_def)
  next
    case ok: (Inr u)
    show ?thesis
    proof (cases "api_proxy_type (cr_type payload)")
      case None
      with assms ok show ?thesis by (auto simp: run create_request_def create_proxy_def)
    next
      case (Some t)
      let ?rule = "create_rule t payload"
      obtain res pm where a: "add_proxy V (F 0) ?rule (pm_of w) = (res, pm)" by fastforce
      show ?thesis
      proof (cases res)
        case (Inl e)
        with assms ok Some a show ?thesis by (auto simp: run create_request_def create_proxy_def Let_def)
      next
        case (Inr v)
        let ?w = "tell J (r_client_id ?rule) (ServerAssignProxy (assign_of_rule ?rule)) (create_callback ?rule
          (on_pm (update_status (r_name ?rule) Starting) (set_pm pm w)))"
        have "w' = ?w" "rsp_code r = (if get_proxy V (F 1) (r_name ?rule) (pm_of ?w) = None then 500 else 200)"
          using assms ok Some a Inr unfolding create_proxy_def notify_assign_tell
          by (auto simp: Let_def notify_assign_tell split: option.splits)
        then show ?thesis
          using ok Some a Inr by (simp add: run create_request_def stored_run create_cb_run Let_def)
      qed
    qed
  qed
qed

lemma update_request_run:
  assumes "api_update_proxy (server_params U V J jwt bc) F name payload w = (r, w')"
  shows "handler_run U V J F 10 (Requested (Update name payload)) w = (Replied (rsp_code r), w')"
proof -
  have run: "handler_run U V J F 10 (Requested (Update name payload)) w =
      handler_run U V J F 9 (update_request U V F name payload w) w" for w
    by (simp add: eval_nat_numeral)
  show ?thesis
  proof (cases "first_error (update_checks1 U payload)")
    case (Inl e)
    with assms show ?thesis by (auto simp: run update_request_def api_update_proxy_def)
  next
    case ok1: (Inr u)
    show ?thesis
    proof (cases "get_proxy V (F 0) name (pm_of w)")
      case None
      with assms ok1 show ?thesis by (auto simp: run update_request_def api_update_proxy_def)
    next
      case old: (Some old)
      show ?thesis
      proof (cases "first_error (update_checks2 U payload (pe_rule old))")
        case (Inl e)
        with assms ok1 old show ?thesis by (auto simp: run update_request_def api_update_proxy_def Let_def)
      next
        case ok2: (Inr u2)
        let ?rule = "merge_rule name payload (pe_rule old)"
        have n: "r_name ?rule = name" by (simp add: merge_rule_def)
        obtain res pm where a: "update_proxy V (F 1) name ?rule (pm_of w) = (res, pm)" by fastforce
        show ?thesis
        proof (cases res)
          case (Inl e)
          with assms ok1 old ok2 a show ?thesis
            by (auto simp: run update_request_def api_update_proxy_def merged_run Let_def)
        next
          case (Inr v)
          let ?w = "tell J (r_client_id ?rule) (ServerAssignProxy (assign_of_rule ?rule)) (create_callback ?rule
            (delete_callback (pe_rule old) (set_pm pm w)))"
          have "w' = ?w" "rsp_code r = (if get_proxy V (F 2) name (pm_of ?w) = None then 500 else 200)"
            using assms ok1 old ok2 a Inr unfolding api_update_proxy_def
            by (auto simp: Let_def notify_assign_tell split: option.splits)
          then show ?thesis
            using ok1 old ok2 a Inr by (simp add: run update_request_def merged_run create_cb_run Let_def n)
        qed
      qed
    qed
  qed
qed

lemma delete_request_run:
  assumes "delete_proxy (server_params U V J jwt bc) F name w = (r, w')"
  shows "handler_run U V J F 7 (Requested (Delete name)) w = (Replied (rsp_code r), w')"
proof -
  have run: "handler_run U V J F 7 (Requested (Delete name)) w =
      handler_run U V J F 6 (delete_request V F name w) w" for w
    by (simp add: eval_nat_numeral)
  show ?thesis
  proof (cases "get_proxy V (F 0) name (pm_of w)")
    case None
    with assms show ?thesis by (auto simp: run delete_request_def delete_proxy_def)
  next
    case (Some entry)
    then have n: "r_name (pe_rule entry) = name" by (auto dest: get_proxy_rule lookup_rule_name)
    obtain res pm where a: "remove_proxy V (F 1) (F 2) name (pm_of w) = (res, pm)" by fastforce
    with assms Some n show ?thesis
      by (cases res) (auto simp: run delete_request_def delete_proxy_def found_run tell_def Let_def)
  qed
qed


text \<open>The handler of a call, whichever it is.\<close>

lemma call_run:
  "handler_run U V J F 10 (Requested c) w =
     (let (code, w') = api_exec (server_params U V J jwt bc) F c w in (Replied code, w'))"
proof (cases c)
  case (Create payload)
  obtain r w' where "create_proxy (server_params U V J jwt bc) F payload w = (r, w')" by (rule prod.exhaust)
  with create_request_run [OF this] handler_run_add [of U V J F 7 3] Create show ?thesis by simp
next
  case (Update name payload)
  obtain r w' where "api_update_proxy (server_params U V J jwt bc) F name payload w = (r, w')" by (rule prod.exhaust)
  with update_request_run [OF this] Update show ?thesis by simp
next
  case (Delete name)
  obtain r w' where "delete_proxy (server_params U V J jwt bc) F name w = (r, w')" by (rule prod.exhaust)
  with delete_request_run [OF this] handler_run_add [of U V J F 7 3] Delete show ?thesis by simp
qed

section \<open>Handlers together\<close>

fun call_name :: "api_call \<Rightarrow> string" where
  "call_name (Create payload) = cr_name payload"
| "call_name (Update name payload) = name"
| "call_name (Delete name) = name"

text \<open>The rule a handler is at work on, until it has answered.\<close>

fun task_name :: "api_task \<Rightarrow> string option" where
  "task_name (Requested c) = Some (call_name c)"
| "task_name (Stored r) = Some (r_name r)"
| "task_name (Create_Cb k r) = Some (r_name r)"
| "task_name (Create_Listen k r) = Some (r_name r)"
| "task_name (Create_Status k r ok) = Some (r_name r)"
| "task_name (Announce k r) = Some (r_name r)"
| "task_name (Read_Back k n) = Some n"
| "task_name (Merged n ex r) = Some n"
| "task_name (Found n r) = Some n"
| "task_name (Removed n r) = Some n"
| "task_name (Delete_Cb r nxt) = Some (r_name r)"
| "task_name (Delete_Listen r nxt) = Some (r_name r)"
| "task_name (Delete_Status r nxt) = Some (r_name r)"
| "task_name (Farewell r) = Some (r_name r)"
| "task_name (Replied code) = None"

type_synonym api_pool = "nat \<Rightarrow> ((nat \<Rightarrow> bool) \<times> api_task) option"

definition idle_name :: "api_pool \<Rightarrow> string \<Rightarrow> bool" where
  "idle_name hs n \<longleftrightarrow> (\<forall>i F h. hs i = Some (F, h) \<longrightarrow> task_name h \<noteq> Some n)"

text \<open>
  Requests come in, handlers run, answers go out, and the rest of the server runs on. With \<open>X\<close> no
  request comes in while another one for the same rule is at work.
\<close>

inductive conc_step ::
  "bool \<Rightarrow> (nat \<Rightarrow> bool) \<Rightarrow> vec_json \<Rightarrow> serde \<Rightarrow> jwt_lib \<Rightarrow> (string \<Rightarrow> string \<Rightarrow> bool option) \<Rightarrow>
   api_pool \<times> server_world \<Rightarrow> api_pool \<times> server_world \<Rightarrow> bool" for X U V J jwt bc where
  request: "hs i = None \<Longrightarrow> (X \<longrightarrow> idle_name hs (call_name c)) \<Longrightarrow>
     conc_step X U V J jwt bc (hs, w) (hs(i \<mapsto> (F, Requested c)), w)"
| run: "hs i = Some (F, h) \<Longrightarrow> handler_step U V J F h w = (h', w') \<Longrightarrow>
     conc_step X U V J jwt bc (hs, w) (hs(i \<mapsto> (F, h')), w')"
| reply: "hs i = Some (F, Replied code) \<Longrightarrow>
     conc_step X U V J jwt bc (hs, w) (hs(i := None), w)"
| background: "background_step U V J jwt bc w w' \<Longrightarrow>
     conc_step X U V J jwt bc (hs, w) (hs, w')"

section \<open>Consistency name by name\<close>

text \<open>What runs for a rule name is what its rule asks for.\<close>

definition held :: "proxy_rule \<Rightarrow> listener_manager \<Rightarrow> bool" where
  "held r lm \<longleftrightarrow>
     (\<forall>d q. lm_domain_routes lm d = Some q \<longrightarrow> r_name q = r_name r \<longrightarrow>
        q = r \<and> \<not> stream_type (r_type r) \<and> d \<in> set (r_custom_domains r)) \<and>
     (\<forall>t. listener_of lm (r_name r) = Some t \<longrightarrow> serves t r)"

definition shown :: "bool \<Rightarrow> proxy_rule \<Rightarrow> listener_manager \<Rightarrow> bool" where
  "shown ok r lm \<longleftrightarrow> (stream_type (r_type r) \<longrightarrow> (ok \<longleftrightarrow> listener_of lm (r_name r) \<noteq> None))"

definition settled :: "vec_json \<Rightarrow> server_world \<Rightarrow> string \<Rightarrow> bool" where
  "settled V w n \<longleftrightarrow>
     (case rules_of V w n of
        None \<Rightarrow> statuses w n = None \<and> clear n (listeners_of w)
      | Some r \<Rightarrow> r_name r = n \<and> statuses w n \<noteq> None \<and> held r (listeners_of w) \<and>
          shown (statuses w n = Some Running) r (listeners_of w))"

lemma sys_ok_names:
  "sys_ok (rules_of V w) (statuses w) (listeners_of w) \<longleftrightarrow>
     lm_inv (listeners_of w) \<and> (\<forall>n. settled V w n)" (is "?l \<longleftrightarrow> ?r")
proof
  assume ok: ?l
  have "settled V w n" for n
  proof (cases "rules_of V w n")
    case None
    with clear_absent [OF ok None] ok show ?thesis by (auto simp: settled_def sys_ok_def)
  next
    case (Some r)
    with ok show ?thesis
      unfolding settled_def sys_ok_def rules_named_def routes_sound_def listeners_sound_def statuses_exact_def
        held_def shown_def
      by (auto; metis option.inject option.distinct(1))
  qed
  with ok show ?r by (simp add: sys_ok_def)
next
  assume r: ?r
  then have s: "settled V w n" for n by blast
  have dom: "statuses w n = None \<longleftrightarrow> rules_of V w n = None" for n
    using s [of n] by (auto simp: settled_def split: option.splits)
  have route: "rules_of V w (r_name q) = Some q \<and> \<not> stream_type (r_type q) \<and> d \<in> set (r_custom_domains q)"
    if "lm_domain_routes (listeners_of w) d = Some q" for d q
  proof (cases "rules_of V w (r_name q)")
    case None
    with s [of "r_name q"] that show ?thesis by (auto simp: settled_def clear_def)
  next
    case (Some r)
    with s [of "r_name q"] have "r_name r = r_name q" "held r (listeners_of w)" by (simp_all add: settled_def)
    with that have "q = r \<and> \<not> stream_type (r_type r) \<and> d \<in> set (r_custom_domains r)"
      unfolding held_def by metis
    with Some show ?thesis by simp
  qed
  have lst: "\<exists>r. rules_of V w n = Some r \<and> serves t r" if "listener_of (listeners_of w) n = Some t" for n t
    using s [of n] that by (auto simp: settled_def clear_def held_def split: option.splits)
  have nm: "r_name q = n" if "rules_of V w n = Some q" for n q
    using s [of n] that by (simp add: settled_def)
  have st: "statuses w n = Some Running \<longleftrightarrow> listener_of (listeners_of w) n \<noteq> None"
    if "rules_of V w n = Some q" "stream_type (r_type q)" for n q
    using s [of n] that nm [OF that(1)] by (simp add: settled_def shown_def)
  have "dom (statuses w) = dom (rules_of V w)" using dom by (auto simp: dom_def)
  with r route lst nm st show ?l
    unfolding sys_ok_def rules_named_def routes_sound_def listeners_sound_def statuses_exact_def by blast
qed

lemma sys_inv_names:
  "sys_inv V w \<longleftrightarrow> pm_inv (pm_of w) \<and> lm_inv (listeners_of w) \<and> (\<forall>n. settled V w n)"
  by (simp add: sys_inv_def sys_ok_names)

section \<open>What a handler relies on\<close>

definition bare :: "vec_json \<Rightarrow> server_world \<Rightarrow> proxy_rule \<Rightarrow> bool" where
  "bare V w r \<longleftrightarrow> rules_of V w (r_name r) = Some r \<and>
     statuses w (r_name r) \<noteq> None \<and> clear (r_name r) (listeners_of w)"

fun stop_ok :: "vec_json \<Rightarrow> server_world \<Rightarrow> string \<Rightarrow> stop_for \<Rightarrow> bool" where
  "stop_ok V w n (After_Update new) \<longleftrightarrow> r_name new = n \<and> rules_of V w n = Some new \<and> statuses w n \<noteq> None"
| "stop_ok V w n After_Delete \<longleftrightarrow> rules_of V w n = None \<and> statuses w n = None"

fun task_ok :: "vec_json \<Rightarrow> server_world \<Rightarrow> api_task \<Rightarrow> bool" where
  "task_ok V w (Requested c) \<longleftrightarrow> settled V w (call_name c)"
| "task_ok V w (Stored r) \<longleftrightarrow> bare V w r"
| "task_ok V w (Create_Cb k r) \<longleftrightarrow> bare V w r"
| "task_ok V w (Create_Listen k r) \<longleftrightarrow> bare V w r"
| "task_ok V w (Create_Status k r ok) \<longleftrightarrow>
     rules_of V w (r_name r) = Some r \<and> statuses w (r_name r) \<noteq> None \<and> held r (listeners_of w) \<and>
     shown ok r (listeners_of w)"
| "task_ok V w (Announce k r) \<longleftrightarrow> settled V w (r_name r)"
| "task_ok V w (Read_Back k n) \<longleftrightarrow> settled V w n"
| "task_ok V w (Merged n ex r) \<longleftrightarrow> settled V w n \<and> rules_of V w n = Some ex \<and> r_name r = n"
| "task_ok V w (Found n r) \<longleftrightarrow> settled V w n \<and> rules_of V w n = Some r"
| "task_ok V w (Removed n r) \<longleftrightarrow>
     r_name r = n \<and> rules_of V w n = None \<and> statuses w n = None \<and> held r (listeners_of w)"
| "task_ok V w (Delete_Cb r nxt) \<longleftrightarrow> held r (listeners_of w) \<and> stop_ok V w (r_name r) nxt"
| "task_ok V w (Delete_Listen r nxt) \<longleftrightarrow> held r (listeners_of w) \<and> stop_ok V w (r_name r) nxt"
| "task_ok V w (Delete_Status r nxt) \<longleftrightarrow> clear (r_name r) (listeners_of w) \<and> stop_ok V w (r_name r) nxt"
| "task_ok V w (Farewell r) \<longleftrightarrow> settled V w (r_name r)"
| "task_ok V w (Replied code) \<longleftrightarrow> True"

text \<open>A step for one name keeps what is known of the others; it may take routes from them.\<close>

definition keeps :: "vec_json \<Rightarrow> string \<Rightarrow> server_world \<Rightarrow> server_world \<Rightarrow> bool" where
  "keeps V n w w' \<longleftrightarrow>
     (\<forall>k. k \<noteq> n \<longrightarrow> rules_of V w' k = rules_of V w k \<and> statuses w' k = statuses w k \<and>
        listener_of (listeners_of w') k = listener_of (listeners_of w) k) \<and>
     (\<forall>d q. lm_domain_routes (listeners_of w') d = Some q \<longrightarrow> r_name q \<noteq> n \<longrightarrow>
        lm_domain_routes (listeners_of w) d = Some q)"

lemma keepsD:
  assumes "keeps V n w w'" "k \<noteq> n"
  shows "rules_of V w' k = rules_of V w k" "statuses w' k = statuses w k"
    "listener_of (listeners_of w') k = listener_of (listeners_of w) k"
    "lm_domain_routes (listeners_of w') d = Some q \<Longrightarrow> r_name q = k \<Longrightarrow> lm_domain_routes (listeners_of w) d = Some q"
  using assms by (auto simp: keeps_def)

lemma keeps_clear: "keeps V n w w' \<Longrightarrow> k \<noteq> n \<Longrightarrow> clear k (listeners_of w) \<Longrightarrow> clear k (listeners_of w')"
  unfolding clear_def by (metis keepsD(3,4))

lemma keeps_held:
  "keeps V n w w' \<Longrightarrow> r_name r \<noteq> n \<Longrightarrow> held r (listeners_of w) \<Longrightarrow> held r (listeners_of w')"
  unfolding held_def by (metis keepsD(3,4))

lemma keeps_settled: "keeps V n w w' \<Longrightarrow> k \<noteq> n \<Longrightarrow> settled V w k \<Longrightarrow> settled V w' k"
  using keeps_held [of V n w w'] keepsD(1-3) [of V n w w' k] keeps_clear [of V n w w' k]
  by (auto simp: settled_def shown_def split: option.splits)

lemma keeps_stop: "keeps V n w w' \<Longrightarrow> k \<noteq> n \<Longrightarrow> stop_ok V w k nxt \<Longrightarrow> stop_ok V w' k nxt"
  using keepsD(1,2) [of V n w w' k] by (cases nxt) auto

lemma keeps_task:
  assumes "keeps V n w w'" "task_name h \<noteq> Some n" "task_ok V w h"
  shows "task_ok V w' h"
  using assms(2,3) keepsD(1-3) [OF assms(1)]
  by (cases h) (auto simp: bare_def shown_def intro: keeps_settled [OF assms(1)] keeps_held [OF assms(1)]
    keeps_clear [OF assms(1)] keeps_stop [OF assms(1)])


section \<open>Steps of one handler\<close>

lemma clear_held: "clear (r_name r) lm \<Longrightarrow> held r lm"
  by (auto simp: clear_def held_def)

lemma stop_held:
  assumes "lm_inv lm" "held r lm" "lm' = stop_proxy_listener r lm"
  shows "lm_inv lm'" "clear (r_name r) lm'" "k \<noteq> r_name r \<Longrightarrow> listener_of lm' k = listener_of lm k"
    "lm_domain_routes lm' d = Some q \<Longrightarrow> lm_domain_routes lm d = Some q"
proof -
  note st = stop_listener_simps [OF assms(1), of "r_name r"]
  have "lm_inv lm' \<and> clear (r_name r) lm' \<and> (k \<noteq> r_name r \<longrightarrow> listener_of lm' k = listener_of lm k) \<and>
    (lm_domain_routes lm' d = Some q \<longrightarrow> lm_domain_routes lm d = Some q)"
  proof (cases "stream_type (r_type r)")
    case True
    then have "lm' = stop_listener (r_name r) lm"
      using assms(3) by (cases "r_type r") (simp_all add: stop_proxy_listener.simps)
    then show ?thesis using assms(2) True by (simp add: st clear_def held_def)
  next
    case False
    then have "lm' = unregister_domain_route r lm"
      using assms(3) by (cases "r_type r") (simp_all add: stop_proxy_listener.simps)
    moreover have "listener_of lm (r_name r) = None"
      using assms(2) False unfolding held_def serves_def by (metis not_Some_eq)
    ultimately show ?thesis using assms(1,2) by (auto simp: clear_def held_def split: if_splits)
  qed
  then show "lm_inv lm'" "clear (r_name r) lm'" "k \<noteq> r_name r \<Longrightarrow> listener_of lm' k = listener_of lm k"
    "lm_domain_routes lm' d = Some q \<Longrightarrow> lm_domain_routes lm d = Some q" by blast+
qed

lemma start_clear:
  assumes "lm_inv lm" "clear (r_name r) lm" "start_proxy_listener busy r lm = (ok, lm')"
  shows "lm_inv lm'" "held r lm'" "shown ok r lm'"
    "k \<noteq> r_name r \<Longrightarrow> listener_of lm' k = listener_of lm k"
    "lm_domain_routes lm' d = Some q \<Longrightarrow> r_name q \<noteq> r_name r \<Longrightarrow> lm_domain_routes lm d = Some q"
proof -
  have none: "listener_of lm (r_name r) = None"
    and fr: "r_name q \<noteq> r_name r" if "lm_domain_routes lm d = Some q" for d q
    using assms(2) that by (auto simp: clear_def)
  have none: "listener_of lm (r_name r) = None" using assms(2) by (simp add: clear_def)
  have bd: "tasks_bounded lm" "table_sound lm" using assms(1) by (simp_all add: lm_inv_def)
  have "lm_inv lm' \<and> held r lm' \<and> shown ok r lm' \<and> (k \<noteq> r_name r \<longrightarrow> listener_of lm' k = listener_of lm k) \<and>
    (lm_domain_routes lm' d = Some q \<longrightarrow> r_name q \<noteq> r_name r \<longrightarrow> lm_domain_routes lm d = Some q)"
  proof (cases "stream_type (r_type r)")
    case False
    then have "lm' = register_domain_route r lm"
      using assms(3) by (cases "r_type r"; simp add: start_proxy_listener.simps)+
    then show ?thesis using assms(1) none False fr by (auto simp: held_def shown_def split: if_splits)
  next
    case True
    show ?thesis
    proof (cases "r_remote_port r = 0")
      case z: True
      then have "\<not> ok" "lm' = lm"
        using assms(3) True by (cases "r_type r"; simp add: start_proxy_listener.simps)+
      then show ?thesis using assms(1) none clear_held [OF assms(2)] by (simp add: shown_def)
    next
      case False
      then have st: "start_stream_listener (kind_of (r_type r)) busy (r_name r) (r_remote_port r) (r_client_id r) lm = (ok, lm')"
        using assms(3) True
        by (cases "r_type r") (simp_all add: start_proxy_listener.simps start_tcp_listener_def start_udp_listener_def)
      note ss = start_stream_simps [OF st bd(1)]
      have "lm_inv lm'"
        by (rule start_stream_inv [OF assms(1) _ _ st])
          (use none listener_of_None [OF assms(1)] True in \<open>cases "r_type r"; simp\<close>)+
      moreover have "held r lm'" "shown ok r lm'"
        using ss(2,3,4) none fr True False by (cases ok; auto simp: held_def shown_def serves_def)+
      ultimately show ?thesis using ss(3) ss(5) [OF bd(2)] by simp
    qed
  qed
  then show "lm_inv lm'" "held r lm'" "shown ok r lm'"
    "k \<noteq> r_name r \<Longrightarrow> listener_of lm' k = listener_of lm k"
    "lm_domain_routes lm' d = Some q \<Longrightarrow> r_name q \<noteq> r_name r \<Longrightarrow> lm_domain_routes lm d = Some q" by blast+
qed


text \<open>The ways a step changes the world.\<close>

lemma keeps_refl [simp]: "keeps V n w w"
  by (simp add: keeps_def)

lemma status_inv [simp]: "pm_inv (update_status n s pm) = pm_inv pm"
  by (rule pm_inv_runtime) simp_all

lemma status_step:
  "keeps V n w (on_pm (update_status n s) w)"
  "statuses (on_pm (update_status n s) w) n = (if statuses w n = None then None else Some s)"
  by (auto simp: keeps_def domIff)

lemma tell_frame [simp]:
  "statuses (tell J c m w) = statuses w" "rules_of V (tell J c m w) = rules_of V w"
  "listeners_of (tell J c m w) = listeners_of w" "pm_of (tell J c m w) = pm_of w"
  by (simp_all add: tell_def)

lemma tell_step [simp]: "keeps V n w (tell J c m w)" "settled V (tell J c m w) k = settled V w k"
  by (simp add: keeps_def) (cases "rules_of V w k"; simp add: settled_def)

lemma settled_rule: "rules_of V w n = Some r \<Longrightarrow> settled V w n \<longleftrightarrow>
    r_name r = n \<and> statuses w n \<noteq> None \<and> held r (listeners_of w) \<and>
    shown (statuses w n = Some Running) r (listeners_of w)"
  by (simp add: settled_def)

lemma settled_none: "rules_of V w n = None \<Longrightarrow> settled V w n \<longleftrightarrow> statuses w n = None \<and> clear n (listeners_of w)"
  by (simp add: settled_def)

definition step_good :: "vec_json \<Rightarrow> string \<Rightarrow> server_world \<Rightarrow> api_task \<times> server_world \<Rightarrow> bool" where
  "step_good V n w p \<longleftrightarrow>
     pm_inv (pm_of (snd p)) \<and> lm_inv (listeners_of (snd p)) \<and> keeps V n w (snd p) \<and>
     (task_name (fst p) = Some n \<and> task_ok V (snd p) (fst p) \<or>
      (\<exists>c. fst p = Replied c) \<and> settled V (snd p) n)"

lemma create_request_good:
  assumes "vec_json_ok V" "pm_inv (pm_of w)" "lm_inv (listeners_of w)" "settled V w (cr_name payload)"
  shows "step_good V (cr_name payload) w (create_request U V F payload w)"
proof (cases "first_error (create_checks U payload)")
  case (Inl e)
  with assms show ?thesis by (simp add: step_good_def create_request_def)
next
  case ok: (Inr u)
  show ?thesis
  proof (cases "api_proxy_type (cr_type payload)")
    case None
    with ok assms show ?thesis by (simp add: step_good_def create_request_def)
  next
    case t: (Some t)
    let ?r = "create_rule t payload"
    have n: "r_name ?r = cr_name payload" by (simp add: create_rule_def)
    obtain res pm where a: "add_proxy V (F 0) ?r (pm_of w) = (res, pm)" by (rule prod.exhaust)
    show ?thesis
    proof (cases res)
      case (Inl e)
      with a have "pm = pm_of w" by (auto dest: add_proxy_Inl)
      with ok t a Inl assms show ?thesis by (simp add: step_good_def create_request_def Let_def)
    next
      case (Inr v)
      with a have "add_proxy V (F 0) ?r (pm_of w) = (Inr (), pm)" by simp
      note ad = add_proxy_Inr [OF assms(1) this]
      have st: "statuses (set_pm pm w) = (statuses w)(r_name ?r \<mapsto> Stopped)"
        by (rule ext) (simp add: statuses_set_pm ad(3) statuses_def runtime_new_def)
      have rl: "lookup_rule V pm = (rules_of V w)(r_name ?r \<mapsto> ?r)" using ad(1) by (simp add: rules_of_def)
      have "rules_of V w (cr_name payload) = None" using ad(4) n by (simp add: rules_of_def)
      with assms(4) have "clear (cr_name payload) (listeners_of w)" by (simp add: settled_none)
      with ok t a Inr ad(2) [OF assms(2)] assms(3) show ?thesis
        by (simp add: step_good_def create_request_def Let_def keeps_def bare_def st rl n)
    qed
  qed
qed

lemma update_request_good:
  assumes "pm_inv (pm_of w)" "lm_inv (listeners_of w)" "settled V w name"
  shows "step_good V name w (update_request U V F name payload w, w)"
proof -
  have "rules_of V w name = Some (pe_rule e)" if "get_proxy V (F 0) name (pm_of w) = Some e" for e
    using that by (auto dest: get_proxy_rule simp: rules_of_def)
  with assms show ?thesis
    by (auto simp: step_good_def update_request_def merge_rule_def split: sum.splits option.splits)
qed

lemma delete_request_good:
  assumes "pm_inv (pm_of w)" "lm_inv (listeners_of w)" "settled V w name"
  shows "step_good V name w (delete_request V F name w, w)"
proof -
  have "rules_of V w name = Some (pe_rule e)" if "get_proxy V (F 0) name (pm_of w) = Some e" for e
    using that by (auto dest: get_proxy_rule simp: rules_of_def)
  with assms show ?thesis
    by (auto simp: step_good_def delete_request_def split: option.splits)
qed

lemma merged_good:
  assumes "vec_json_ok V" "pm_inv (pm_of w)" "lm_inv (listeners_of w)" "task_ok V w (Merged n ex r)"
  shows "step_good V n w (handler_step U V J F (Merged n ex r) w)"
proof -
  obtain res pm where a: "update_proxy V (F 1) n r (pm_of w) = (res, pm)" by (rule prod.exhaust)
  show ?thesis
  proof (cases res)
    case (Inl e)
    with a have "pm = pm_of w" by (auto dest: update_proxy_Inl)
    with a Inl assms show ?thesis by (simp add: step_good_def)
  next
    case (Inr v)
    with a have "update_proxy V (F 1) n r (pm_of w) = (Inr (), pm)" by simp
    note up = update_proxy_Inr [OF assms(1) this]
    have st: "statuses (set_pm pm w) = statuses w"
      by (rule ext) (simp add: statuses_set_pm up(3) statuses_def)
    have "r\<lparr>r_name := n\<rparr> = r" using assms(4) by (cases r) simp
    then have rl: "lookup_rule V pm = (rules_of V w)(n \<mapsto> r)" using up(1) by (simp add: rules_of_def)
    from assms(4) have "r_name ex = n" "statuses w n \<noteq> None" "held ex (listeners_of w)" "r_name r = n"
      by (auto simp: settled_rule)
    with a Inr up(2) [OF assms(2)] assms(3) show ?thesis
      by (simp add: step_good_def keeps_def st rl)
  qed
qed

lemma found_good:
  assumes "pm_inv (pm_of w)" "lm_inv (listeners_of w)" "task_ok V w (Found n r)"
  shows "step_good V n w (handler_step U V J F (Found n r) w)"
proof -
  obtain res pm where a: "remove_proxy V (F 1) (F 2) n (pm_of w) = (res, pm)" by (rule prod.exhaust)
  show ?thesis
  proof (cases res)
    case (Inl e)
    with a have "pm = pm_of w" by (auto dest: remove_proxy_Inl)
    with a Inl assms show ?thesis by (simp add: step_good_def)
  next
    case (Inr q)
    with a have "remove_proxy V (F 1) (F 2) n (pm_of w) = (Inr q, pm)" by simp
    note rm = remove_proxy_Inr [OF this]
    have st: "statuses (set_pm pm w) = (statuses w)(n := None)"
      by (rule ext) (simp add: statuses_set_pm rm(3) statuses_def)
    have rl: "lookup_rule V pm = (rules_of V w)(n := None)" using rm(1) by (simp add: rules_of_def)
    from assms(3) have "r_name r = n" "held r (listeners_of w)" by (auto simp: settled_rule)
    with a Inr rm(2) [OF assms(1)] assms(2) show ?thesis
      by (simp add: step_good_def keeps_def st rl)
  qed
qed


lemma start_good:
  assumes "pm_inv (pm_of w)" "lm_inv (listeners_of w)" "bare V w r"
  shows "step_good V (r_name r) w (handler_step U V J F (Create_Listen k r) w)"
proof -
  obtain ok lm' where s: "start_proxy_listener (se_busy (snd w)) r (listeners_of w) = (ok, lm')"
    by (rule prod.exhaust)
  from assms(3) have cl: "clear (r_name r) (listeners_of w)" by (simp add: bare_def)
  note sc = start_clear [OF assms(2) cl s]
  from s sc(1-3) assms show ?thesis
    by (auto simp: step_good_def keeps_def bare_def sc(4) intro: sc(5))
qed

lemma stop_good:
  assumes "pm_inv (pm_of w)" "lm_inv (listeners_of w)" "task_ok V w (Delete_Listen r nxt)"
  shows "step_good V (r_name r) w (handler_step U V J F (Delete_Listen r nxt) w)"
proof -
  from assms(3) have h: "held r (listeners_of w)" by simp
  note sh = stop_held [OF assms(2) h refl]
  have "stop_ok V (set_listeners lm w) n nxt = stop_ok V w n nxt" for lm n by (cases nxt) simp_all
  with sh(1,2) assms show ?thesis
    by (auto simp: step_good_def keeps_def sh(3) intro: sh(4))
qed

lemma after_stop_good:
  assumes "pm_inv (pm_of w)" "lm_inv (listeners_of w)" "task_ok V w (Delete_Status r nxt)"
  shows "step_good V (r_name r) w (handler_step U V J F (Delete_Status r nxt) w)"
proof (cases nxt)
  case (After_Update new)
  with assms show ?thesis by (simp add: step_good_def status_step bare_def)
next
  case After_Delete
  with assms show ?thesis by (simp add: step_good_def status_step settled_none domIff)
qed

lemma handler_step_good:
  assumes "vec_json_ok V" "pm_inv (pm_of w)" "lm_inv (listeners_of w)" "task_ok V w h" "task_name h = Some n"
  shows "step_good V n w (handler_step U V J F h w)"
proof (cases h)
  case (Requested c)
  with assms show ?thesis
    by (cases c) (auto intro: create_request_good update_request_good delete_request_good)
next
  case (Create_Listen k r)
  with assms start_good show ?thesis by fastforce
next
  case (Create_Status k r ok)
  with assms show ?thesis by (auto simp: step_good_def status_step settled_rule shown_def)
next
  case (Merged m ex r)
  with assms merged_good show ?thesis by fastforce
next
  case (Found m r)
  with assms found_good show ?thesis by fastforce
next
  case (Removed m r)
  with assms show ?thesis by (auto simp: step_good_def status_step)
next
  case (Delete_Cb r nxt)
  have "stop_ok V (on_pm (update_status n s) w) n nxt = stop_ok V w n nxt" for s
    by (cases nxt) (auto simp: domIff)
  with assms Delete_Cb show ?thesis by (auto simp: step_good_def status_step)
next
  case (Delete_Listen r nxt)
  with assms stop_good show ?thesis by fastforce
next
  case (Delete_Status r nxt)
  with assms after_stop_good show ?thesis by fastforce
qed (use assms in \<open>auto simp: step_good_def status_step bare_def\<close>)

section \<open>All handlers together\<close>

definition conc_ok :: "vec_json \<Rightarrow> api_pool \<times> server_world \<Rightarrow> bool" where
  "conc_ok V s \<longleftrightarrow>
     pm_inv (pm_of (snd s)) \<and> lm_inv (listeners_of (snd s)) \<and>
     (\<forall>i F h. fst s i = Some (F, h) \<longrightarrow> task_ok V (snd s) h) \<and>
     (\<forall>i j F G h k. i \<noteq> j \<longrightarrow> fst s i = Some (F, h) \<longrightarrow> fst s j = Some (G, k) \<longrightarrow>
        task_name h \<noteq> None \<longrightarrow> task_name h \<noteq> task_name k) \<and>
     (\<forall>n. idle_name (fst s) n \<longrightarrow> settled V (snd s) n)"

lemma conc_okD:
  assumes "conc_ok V (hs, w)"
  shows "pm_inv (pm_of w)" "lm_inv (listeners_of w)" "hs i = Some (F, h) \<Longrightarrow> task_ok V w h"
    "i \<noteq> j \<Longrightarrow> hs i = Some (F, h) \<Longrightarrow> hs j = Some (G, k) \<Longrightarrow> task_name h \<noteq> None \<Longrightarrow> task_name h \<noteq> task_name k"
    "idle_name hs n \<Longrightarrow> settled V w n"
  using assms unfolding conc_ok_def fst_conv snd_conv by blast+

lemma request_conc:
  assumes "conc_ok V (hs, w)" "hs i = None" "idle_name hs (call_name c)"
  shows "conc_ok V (hs(i \<mapsto> (F, Requested c)), w)"
proof -
  note ok = conc_okD [OF assms(1)]
  let ?hs = "hs(i \<mapsto> (F, Requested c))"
  have free: "task_name k \<noteq> Some (call_name c)" "Some (call_name c) \<noteq> task_name k" if "hs j = Some (G, k)" for j G k
    using assms(3) that unfolding idle_name_def by metis+
  have "task_name h \<noteq> task_name k"
    if "j \<noteq> l" "?hs j = Some (G, h)" "?hs l = Some (H, k)" "task_name h \<noteq> None" for j l G H h k
    using that ok(4) [of j l] free [of j] free [of l] by (cases "j = i"; cases "l = i"; auto)
  moreover have "settled V w n" if "idle_name ?hs n" for n
  proof (rule ok(5))
    show "idle_name hs n"
      using that assms(2) unfolding idle_name_def by (metis fun_upd_other option.distinct(1))
  qed
  moreover have "task_ok V w h" if "?hs j = Some (G, h)" for j G h
    using that ok(3) [of j] ok(5) [OF assms(3)] by (cases "j = i") auto
  ultimately show ?thesis
    unfolding conc_ok_def fst_conv snd_conv using ok(1,2) by blast
qed

lemma replied_step: "task_name h = None \<Longrightarrow> handler_step U V J F h w = (h, w)"
  by (cases h) simp_all

lemma run_conc:
  assumes V: "vec_json_ok V" and cok: "conc_ok V (hs, w)" and hi: "hs i = Some (F, h)"
    and step: "handler_step U V J F h w = (h', w')"
  shows "conc_ok V (hs(i \<mapsto> (F, h')), w')"
proof (cases "task_name h")
  case None
  with replied_step step have "h' = h" "w' = w" by auto
  moreover from hi have "hs(i \<mapsto> (F, h)) = hs" by auto
  ultimately show ?thesis using cok by simp
next
  case (Some n)
  note ok = conc_okD [OF cok]
  from handler_step_good [OF V ok(1,2) ok(3) [OF hi] Some, of U J F] step
  have g: "pm_inv (pm_of w')" "lm_inv (listeners_of w')" "keeps V n w w'"
    and h': "task_name h' = Some n \<and> task_ok V w' h' \<or> (\<exists>c. h' = Replied c) \<and> settled V w' n"
    by (simp_all add: step_good_def)
  let ?hs = "hs(i \<mapsto> (F, h'))"
  have others: "task_name k \<noteq> Some n" if "hs j = Some (G, k)" "j \<noteq> i" for j G k
    using ok(4) [OF _ hi that(1)] that(2) Some by auto
  have name: "task_name h' = Some n \<or> task_name h' = None" using h' by auto
  have tasks: "task_ok V w' k" if "?hs j = Some (G, k)" for j G k
  proof (cases "j = i")
    case True
    with that h' show ?thesis by auto
  next
    case False
    with that have "hs j = Some (G, k)" by simp
    then show ?thesis using keeps_task [OF g(3) others ok(3)] False by blast
  qed
  have distinct: "task_name a \<noteq> task_name b"
    if "j \<noteq> l" "?hs j = Some (G, a)" "?hs l = Some (H, b)" "task_name a \<noteq> None" for j l G H a b
    using that ok(4) [of j l] others name by (cases "j = i"; cases "l = i"; force)
  have settled: "settled V w' m" if "idle_name ?hs m" for m
  proof (cases "m = n")
    case True
    have "task_name h' \<noteq> Some n"
      using that True unfolding idle_name_def by (metis fun_upd_same)
    with h' True show ?thesis by auto
  next
    case False
    have "idle_name hs m"
      unfolding idle_name_def
    proof (intro allI impI)
      fix j G k assume j: "hs j = Some (G, k)"
      show "task_name k \<noteq> Some m"
      proof (cases "j = i")
        case True
        with j hi Some False show ?thesis by auto
      next
        case False
        with that j show ?thesis unfolding idle_name_def by (metis fun_upd_other)
      qed
    qed
    then show ?thesis using keeps_settled [OF g(3) False ok(5)] by blast
  qed
  show ?thesis
    unfolding conc_ok_def fst_conv snd_conv using g(1,2) tasks distinct settled by blast
qed

lemma reply_conc:
  assumes "conc_ok V (hs, w)" "hs i = Some (F, Replied code)"
  shows "conc_ok V (hs(i := None), w)"
proof -
  note ok = conc_okD [OF assms(1)]
  have sub: "hs j = Some p" if "(hs(i := None)) j = Some p" for j p using that by (auto split: if_splits)
  have "settled V w n" if "idle_name (hs(i := None)) n" for n
  proof (rule ok(5))
    show "idle_name hs n"
      unfolding idle_name_def
    proof (intro allI impI)
      fix j G k assume "hs j = Some (G, k)"
      with that assms(2) show "task_name k \<noteq> Some n"
        unfolding idle_name_def by (cases "j = i") (auto, metis fun_upd_other)
    qed
  qed
  moreover have "task_ok V w k" if "(hs(i := None)) j = Some (G, k)" for j G k
    using ok(3) [OF sub [OF that]] .
  moreover have "task_name a \<noteq> task_name b"
    if "j \<noteq> l" "(hs(i := None)) j = Some (G, a)" "(hs(i := None)) l = Some (H, b)" "task_name a \<noteq> None"
    for j l G H a b using ok(4) [OF that(1) sub [OF that(2)] sub [OF that(3)] that(4)] .
  ultimately show ?thesis unfolding conc_ok_def fst_conv snd_conv using ok(1,2) by blast
qed

lemma task_ok_cong:
  assumes "rules_of V w' = rules_of V w" "statuses w' = statuses w" "listeners_of w' = listeners_of w"
  shows "settled V w' n = settled V w n" "task_ok V w' h = task_ok V w h"
proof -
  show s: "settled V w' n = settled V w n" for n
    by (cases "rules_of V w n") (simp_all add: settled_def assms)
  have "stop_ok V w' n nxt = stop_ok V w n nxt" for n nxt by (cases nxt) (simp_all add: assms)
  then show "task_ok V w' h = task_ok V w h" by (cases h) (simp_all add: s bare_def assms)
qed

lemma conc_step_ok:
  assumes "vec_json_ok V" "conc_step True U V J jwt bc s t" "conc_ok V s"
  shows "conc_ok V t"
  using assms(2)
proof cases
  case (request hs i c w F)
  with assms(3) show ?thesis by (auto intro: request_conc)
next
  case (run hs i F h w h' w')
  with assms(1,3) show ?thesis by (auto intro: run_conc)
next
  case (reply hs i F code w)
  with assms(3) show ?thesis by (auto intro: reply_conc)
next
  case (background w w' hs)
  note fr = background_step_frame [OF background(3)]
  then have "task_ok V w' h = task_ok V w h" "settled V w' n = settled V w n" for h n
    by (simp_all add: task_ok_cong [of V w' w])
  with fr assms(3) background(1,2) show ?thesis by (simp add: conc_ok_def)
qed

lemma conc_ok_start: "sys_inv V w \<Longrightarrow> conc_ok V (\<lambda>_. None, w)"
  by (simp add: conc_ok_def sys_inv_names)

lemma conc_ok_quiet: "conc_ok V (hs, w) \<Longrightarrow> (\<And>n. idle_name hs n) \<Longrightarrow> sys_inv V w"
  by (simp add: conc_ok_def sys_inv_names)

interpretation handlers: transition_system
  "\<lambda>s. vec_json_ok V \<and> fst s = (\<lambda>_. None) \<and> server_init V (snd s)" "conc_step True U V J jwt bc"
  "\<lambda>s. vec_json_ok V \<and> conc_ok V s" for U V J jwt bc
proof
  show "vec_json_ok V \<and> conc_ok V s"
    if "vec_json_ok V \<and> fst s = (\<lambda>_. None) \<and> server_init V (snd s)" for s
  proof -
    from that have "sys_inv V (snd s)" using server_boot_sys by (auto simp: server_init_def)
    with that conc_ok_start [of V "snd s"] show ?thesis by (cases s) simp
  qed
  show "vec_json_ok V \<and> conc_ok V t" if "vec_json_ok V \<and> conc_ok V s" "conc_step True U V J jwt bc s t" for s t
    using that conc_step_ok by blast
qed

end
