(* ===== verification/Api_Props.thy ===== *)
theory Api_Props
  imports Api_Steps Server_Props
begin

text \<open>
  What holds of rule handlers that run at the same time, and what two updates of one rule do to each
  other.
\<close>

section \<open>Runs\<close>

lemma conc_run:
  assumes "hs i = Some (F, h)" "handler_run U V J F k h w = (h', w')"
  shows "(conc_step X U V J jwt bc)\<^sup>*\<^sup>* (hs, w) (hs(i \<mapsto> (F, h')), w')"
  using assms
proof (induction k arbitrary: hs h w)
  case 0
  then have "hs(i \<mapsto> (F, h')) = hs" "w' = w" by auto
  then show ?case by simp
next
  case (Suc k)
  obtain h1 w1 where s: "handler_step U V J F h w = (h1, w1)" by (rule prod.exhaust)
  with Suc.prems have r: "handler_run U V J F k h1 w1 = (h', w')" by simp
  have "conc_step X U V J jwt bc (hs, w) (hs(i \<mapsto> (F, h1)), w1)"
    using Suc.prems(1) s by (rule conc_step.run)
  moreover have "(conc_step X U V J jwt bc)\<^sup>*\<^sup>* (hs(i \<mapsto> (F, h1)), w1) (hs(i \<mapsto> (F, h')), w')"
  proof -
    have "(conc_step X U V J jwt bc)\<^sup>*\<^sup>* (hs(i \<mapsto> (F, h1)), w1) (hs(i \<mapsto> (F, h1), i \<mapsto> (F, h')), w')"
      by (rule Suc.IH [OF _ r]) simp
    then show ?thesis by (simp only: fun_upd_upd)
  qed
  ultimately show ?case by (rule converse_rtranclp_into_rtranclp)
qed

lemma conc_request:
  "(X \<Longrightarrow> idle_name hs (call_name c)) \<Longrightarrow> hs i = None \<Longrightarrow>
     (conc_step X U V J jwt bc)\<^sup>*\<^sup>* (hs, w) (hs(i \<mapsto> (F, Requested c)), w)"
  by (blast intro: conc_step.request)

section \<open>Two updates of one rule\<close>

lemma port_free_stop:
  assumes "lm_inv lm" "\<not> port_taken udp p lm"
  shows "\<not> port_taken udp p (stop_listener n lm)"
proof -
  have "lm_tasks lm i = Some t" if "lm_tasks (stop_listener n lm) i = Some t" for i t
    using that by (auto simp: stop_listener_def abort_task_def split: option.splits if_splits)
  moreover have "tasks_bounded lm" "tasks_bounded (stop_listener n lm)"
    using assms(1) stop_listener_simps(1) [OF assms(1), of n] by (simp_all add: lm_inv_def)
  ultimately show ?thesis using assms(2) by (auto simp: port_taken_iff)
qed

lemma start_tcp:
  assumes "bind_ok busy Tcp_Task p lm" "p \<noteq> 0" "r_type r = Tcp" "r_remote_port r = p" "r_name r = n"
    "lm' = lm\<lparr>lm_tasks := (lm_tasks lm)(lm_spawned lm \<mapsto>
       \<lparr>lt_kind = Tcp_Task, lt_name = n, lt_port = p, lt_client = r_client_id r\<rparr>),
       lm_spawned := lm_spawned lm + 1, lm_listeners := (lm_listeners lm)(n \<mapsto> lm_spawned lm)\<rparr>"
  shows "start_proxy_listener busy r lm = (True, lm')"
  using assms by (simp add: start_proxy_listener.simps start_tcp_listener_def start_stream_listener_def
      spawn_task_def)

text \<open>Two listeners started for one name, one after the other: the table forgets the first.\<close>

lemma start_twice:
  assumes "lm_inv lm" "\<not> port_taken False p lm" "\<not> port_taken False q lm" "\<not> busy False p" "\<not> busy False q"
    "p \<noteq> q" "p \<noteq> 0" "q \<noteq> 0" "r_type r = Tcp" "r_remote_port r = p" "r_name r = n"
    "r_type r' = Tcp" "r_remote_port r' = q" "r_name r' = n"
    "start_proxy_listener busy r lm = (ok, lm1)" "start_proxy_listener busy r' lm1 = (ok', lm2)"
  shows "\<exists>i j. i \<noteq> j \<and>
    lm_tasks lm2 i = Some \<lparr>lt_kind = Tcp_Task, lt_name = n, lt_port = p, lt_client = r_client_id r\<rparr> \<and>
    lm_tasks lm2 j = Some \<lparr>lt_kind = Tcp_Task, lt_name = n, lt_port = q, lt_client = r_client_id r'\<rparr> \<and>
    lm_listeners lm2 n = Some j"
proof -
  let ?s = "lm_spawned lm"
  let ?t = "\<lparr>lt_kind = Tcp_Task, lt_name = n, lt_port = p, lt_client = r_client_id r\<rparr>"
  have "bind_ok busy Tcp_Task p lm" using assms(2,4) by (simp add: bind_ok_def)
  from start_tcp [OF this assms(7,9,10,11) refl] assms(15)
  have 1: "lm1 = lm\<lparr>lm_tasks := (lm_tasks lm)(?s \<mapsto> ?t), lm_spawned := ?s + 1,
      lm_listeners := (lm_listeners lm)(n \<mapsto> ?s)\<rparr>" by simp
  have bd: "tasks_bounded lm" using assms(1) by (simp add: lm_inv_def)
  then have "tasks_bounded lm1" by (auto simp: 1 tasks_bounded_def less_Suc_eq)
  then have "\<not> port_taken False q lm1"
    using assms(3,6) bd by (auto simp: port_taken_iff 1 split: if_splits)
  then have "bind_ok busy Tcp_Task q lm1" using assms(5) by (simp add: bind_ok_def)
  from start_tcp [OF this assms(8,12,13,14) refl] assms(16) show ?thesis
    by (intro exI [of _ ?s] exI [of _ "?s + 1"]) (auto simp: 1)
qed

lemma delete_callback_pm: "pool (pm_of (delete_callback r w)) = pool (pm_of w)"
  by (simp add: delete_callback_def Let_def)

lemma create_callback_result:
  "listeners_of (create_callback r w) = snd (start_proxy_listener (se_busy (snd w)) r (listeners_of w))"
  "se_busy (snd (create_callback r w)) = se_busy (snd w)" "pool (pm_of (create_callback r w)) = pool (pm_of w)"
  by (simp_all add: create_callback_def Let_def on_pm_def set_listeners_def map_pm_def split: prod.splits)

lemma busy_frame [simp]:
  "se_busy (snd (set_pm pm w)) = se_busy (snd w)" "se_busy (snd (tell J c m w)) = se_busy (snd w)"
  "se_busy (snd (delete_callback r w)) = se_busy (snd w)"
  by (auto simp: set_pm_def on_pm_def tell_def notify_callback_def set_sessions_def delete_callback_def Let_def
      set_listeners_def split: option.splits prod.splits)

lemma update_request_passes:
  assumes "rules_of V w n = Some old" "first_error (update_checks1 U p) = Inr ()"
    "first_error (update_checks2 U p old) = Inr ()" "\<not> F 0"
  shows "update_request U V F n p w = Merged n old (merge_rule n p old)"
proof -
  from assms(1,4) obtain e where "get_proxy V (F 0) n (pm_of w) = Some e" "pe_rule e = old"
    by (auto simp: rules_of_def get_proxy_def query_rule_lookup entry_of_def Let_def)
  with assms(2,3) show ?thesis by (simp add: update_request_def del: first_error_Inr)
qed


lemma merged_stop_run:
  "update_proxy V (F 1) n r (pm_of w) = (Inr (), pm) \<Longrightarrow>
     handler_run U V J F 4 (Merged n ex r) w = (Create_Cb 2 r, delete_callback ex (set_pm pm w))"
  by (simp add: eval_nat_numeral delete_callback_def Let_def)

text \<open>The run: both handlers read the rule, store, stop, then start and answer one after the other.\<close>

lemma updates_cross:
  assumes V: "vec_json_ok V" and inv: "sys_inv V w" and old: "rules_of V w n = Some old" "r_type old = Tcp"
    and "first_error (update_checks1 U p1) = Inr ()" "first_error (update_checks2 U p1 old) = Inr ()"
    and "first_error (update_checks1 U p2) = Inr ()" "first_error (update_checks2 U p2 old) = Inr ()"
    and r: "r1 = merge_rule n p1 old" "r2 = merge_rule n p2 old" "r_type r1 = Tcp" "r_type r2 = Tcp"
    and ports: "r_remote_port r1 \<noteq> r_remote_port r2" "r_remote_port r1 \<noteq> 0" "r_remote_port r2 \<noteq> 0"
      "bind_ok (se_busy (snd w)) Tcp_Task (r_remote_port r1) (listeners_of w)"
      "bind_ok (se_busy (snd w)) Tcp_Task (r_remote_port r2) (listeners_of w)"
  obtains w' i j t u where
    "(conc_step False U V J jwt bc)\<^sup>*\<^sup>* (\<lambda>_. None, w)
       ([0 \<mapsto> (no_faults, Replied 200), 1 \<mapsto> (no_faults, Replied 200)], w')"
    "rules_of V w' n = Some r2" "i \<noteq> j" "lm_tasks (listeners_of w') i = Some t" "lm_tasks (listeners_of w') j = Some u"
    "lt_name t = n" "lt_name u = n" "lt_port t = r_remote_port r1" "lt_port u = r_remote_port r2"
    "lm_listeners (listeners_of w') n = Some j"
proof -
  let ?C = "conc_step False U V J jwt bc" and ?F = no_faults
  have rn: "r_name r1 = n" "r_name r2 = n" "r_name old = n"
    using r(1,2) inv old(1) by (auto simp: merge_rule_def sys_inv_def sys_ok_def rules_named_def)
  have lmi: "lm_inv (listeners_of w)" using inv by (simp add: sys_inv_def sys_ok_def)
  define h1 h2 where "h1 = (?F, Merged n old r1)" and "h2 = (?F, Merged n old r2)"
  \<comment> \<open>both read the rule\<close>
  have read: "handler_run U V J ?F 1 (Requested (Update n p1)) w = (snd h1, w)"
    "handler_run U V J ?F 1 (Requested (Update n p2)) w = (snd h2, w)"
    using update_request_passes [OF old(1), of U p1 ?F] update_request_passes [OF old(1), of U p2 ?F] assms(5-8)
    by (simp_all add: h1_def h2_def r(1,2) del: first_error_Inr)
  have a0: "?C\<^sup>*\<^sup>* (\<lambda>_. None, w) ([0 \<mapsto> (?F, Requested (Update n p1))], w)"
    by (rule conc_request) simp_all
  have a1: "?C\<^sup>*\<^sup>* ([0 \<mapsto> (?F, Requested (Update n p1))], w)
      ([0 \<mapsto> (?F, Requested (Update n p1)), 1 \<mapsto> (?F, Requested (Update n p2))], w)"
    by (rule conc_request) simp_all
  have a2: "?C\<^sup>*\<^sup>* ([0 \<mapsto> (?F, Requested (Update n p1)), 1 \<mapsto> (?F, Requested (Update n p2))], w)
      ([0 \<mapsto> (?F, Requested (Update n p1)), 1 \<mapsto> (?F, Requested (Update n p2)), 0 \<mapsto> (?F, snd h1)], w)"
    by (rule conc_run [OF _ read(1)]) simp
  have a3: "?C\<^sup>*\<^sup>* ([0 \<mapsto> (?F, Requested (Update n p1)), 1 \<mapsto> (?F, Requested (Update n p2)), 0 \<mapsto> (?F, snd h1)], w)
      ([0 \<mapsto> (?F, Requested (Update n p1)), 1 \<mapsto> (?F, Requested (Update n p2)), 0 \<mapsto> (?F, snd h1), 1 \<mapsto> (?F, snd h2)], w)"
    by (rule conc_run [OF _ read(2)]) simp
  have up: "[0 :: nat \<mapsto> a, 1 \<mapsto> b, 0 \<mapsto> c] = [0 \<mapsto> c, 1 \<mapsto> b]" "[0 :: nat \<mapsto> a, 1 \<mapsto> b, 1 \<mapsto> c] = [0 \<mapsto> a, 1 \<mapsto> c]"
    for a b c :: "(nat \<Rightarrow> bool) \<times> api_task" by (auto simp: fun_eq_iff)
  have A: "?C\<^sup>*\<^sup>* (\<lambda>_. None, w) ([0 \<mapsto> h1, 1 \<mapsto> h2], w)"
    using rtranclp_trans [OF rtranclp_trans [OF a0 a1] rtranclp_trans [OF a2 a3]]
    by (simp add: up h1_def h2_def)
  \<comment> \<open>the first stores its rule and stops the listener\<close>
  have look: "lookup_rule V (pm_of w) n \<noteq> None" using old(1) by (simp add: rules_of_def)
  then obtain pm1 where u1: "update_proxy V False n r1 (pm_of w) = (Inr (), pm1)"
    using update_proxy_succeeds by blast
  let ?w1 = "delete_callback old (set_pm pm1 w)"
  have "handler_run U V J ?F 4 (snd h1) w = (Create_Cb 2 r1, ?w1)"
    using u1 by (simp add: merged_stop_run h1_def)
  note run = this
  have "([0 :: nat \<mapsto> h1, 1 \<mapsto> h2]) 0 = Some (?F, snd h1)" by (simp add: h1_def h2_def)
  from conc_run [where hs = "[0 :: nat \<mapsto> h1, 1 \<mapsto> h2]" and i = 0, OF this run]
  have B: "?C\<^sup>*\<^sup>* ([0 \<mapsto> h1, 1 \<mapsto> h2], w) ([0 \<mapsto> (?F, Create_Cb 2 r1), 1 \<mapsto> h2], ?w1)"
    by (simp only: up)
  \<comment> \<open>so does the second\<close>
  have "lookup_rule V (pm_of ?w1) n \<noteq> None"
    using update_proxy_Inr(1) [OF V u1] lookup_rule_pool [OF delete_callback_pm, of V old "set_pm pm1 w"] by simp
  then obtain pm2 where u2: "update_proxy V False n r2 (pm_of ?w1) = (Inr (), pm2)"
    using update_proxy_succeeds by blast
  let ?w2 = "delete_callback old (set_pm pm2 ?w1)"
  have "handler_run U V J ?F 4 (snd h2) ?w1 = (Create_Cb 2 r2, ?w2)"
    using u2 by (simp add: merged_stop_run h2_def)
  note run = this
  have "([0 :: nat \<mapsto> (?F, Create_Cb 2 r1), 1 \<mapsto> h2]) 1 = Some (?F, snd h2)" by (simp add: h1_def h2_def)
  from conc_run [where hs = "[0 :: nat \<mapsto> (?F, Create_Cb 2 r1), 1 \<mapsto> h2]" and i = 1, OF this run]
  have C: "?C\<^sup>*\<^sup>* ([0 \<mapsto> (?F, Create_Cb 2 r1), 1 \<mapsto> h2], ?w1)
      ([0 \<mapsto> (?F, Create_Cb 2 r1), 1 \<mapsto> (?F, Create_Cb 2 r2)], ?w2)"
    by (simp only: up)
  \<comment> \<open>both start their listeners and answer\<close>
  let ?w3 = "tell J (r_client_id r1) (ServerAssignProxy (assign_of_rule r1)) (create_callback r1 ?w2)"
  let ?w4 = "tell J (r_client_id r2) (ServerAssignProxy (assign_of_rule r2)) (create_callback r2 ?w3)"
  have pool: "pool (pm_of ?w2) = pool pm2" "pool (pm_of ?w3) = pool pm2" "pool (pm_of ?w4) = pool pm2"
    by (simp_all add: delete_callback_pm create_callback_result)
  have look2: "lookup_rule V pm2 n = Some r2"
  proof -
    have "r2\<lparr>r_name := n\<rparr> = r2" using rn(2) by (cases r2) simp
    then show ?thesis using update_proxy_Inr(1) [OF V u2] by simp
  qed
  then have l3: "get_proxy V False n (pm_of ?w3) \<noteq> None" "get_proxy V False n (pm_of ?w4) \<noteq> None"
    using lookup_rule_pool [OF pool(2), of V] lookup_rule_pool [OF pool(3), of V]
    by (simp_all add: get_proxy_def query_rule_lookup Let_def)
  have "handler_run U V J ?F 5 (Create_Cb 2 r1) ?w2 = (Replied 200, ?w3)"
    using l3(1) by (simp add: create_cb_run Let_def rn)
  note run = this
  have "([0 :: nat \<mapsto> (?F, Create_Cb 2 r1), 1 \<mapsto> (?F, Create_Cb 2 r2)]) 0 = Some (?F, Create_Cb 2 r1)" by (simp add: h1_def h2_def)
  from conc_run [where hs = "[0 :: nat \<mapsto> (?F, Create_Cb 2 r1), 1 \<mapsto> (?F, Create_Cb 2 r2)]" and i = 0, OF this run]
  have D: "?C\<^sup>*\<^sup>* ([0 \<mapsto> (?F, Create_Cb 2 r1), 1 \<mapsto> (?F, Create_Cb 2 r2)], ?w2)
      ([0 \<mapsto> (?F, Replied 200), 1 \<mapsto> (?F, Create_Cb 2 r2)], ?w3)"
    by (simp only: up)
  have "handler_run U V J ?F 5 (Create_Cb 2 r2) ?w3 = (Replied 200, ?w4)"
    using l3(2) by (simp add: create_cb_run Let_def rn)
  note run = this
  have "([0 :: nat \<mapsto> (?F, Replied 200), 1 \<mapsto> (?F, Create_Cb 2 r2)]) 1 = Some (?F, Create_Cb 2 r2)" by (simp add: h1_def h2_def)
  from conc_run [where hs = "[0 :: nat \<mapsto> (?F, Replied 200), 1 \<mapsto> (?F, Create_Cb 2 r2)]" and i = 1, OF this run]
  have E: "?C\<^sup>*\<^sup>* ([0 \<mapsto> (?F, Replied 200), 1 \<mapsto> (?F, Create_Cb 2 r2)], ?w3)
      ([0 \<mapsto> (?F, Replied 200), 1 \<mapsto> (?F, Replied 200)], ?w4)"
    by (simp only: up)
  note whole = rtranclp_trans [OF rtranclp_trans [OF A B] rtranclp_trans [OF C rtranclp_trans [OF D E]]]
  \<comment> \<open>the listeners\<close>
  let ?lm = "stop_listener n (stop_listener n (listeners_of w))"
  have stop: "stop_proxy_listener old lm = stop_listener n lm" for lm
    using old(2) rn(3) by (simp add: stop_proxy_listener.simps)
  have lm2: "listeners_of ?w2 = ?lm" by (simp add: stop)
  note inv1 = stop_listener_simps(1) [OF lmi, of n]
  have free: "\<not> port_taken False q ?lm" if "bind_ok (se_busy (snd w)) Tcp_Task q (listeners_of w)" for q
    using that port_free_stop [OF inv1 port_free_stop [OF lmi]] by (simp add: bind_ok_def)
  obtain ok1 lm3 where s1: "start_proxy_listener (se_busy (snd w)) r1 ?lm = (ok1, lm3)" by (rule prod.exhaust)
  obtain ok2 lm4 where s2: "start_proxy_listener (se_busy (snd w)) r2 lm3 = (ok2, lm4)" by (rule prod.exhaust)
  have lm4: "listeners_of ?w4 = lm4"
    using s1 s2 by (simp add: create_callback_result lm2 stop)
  from start_twice [OF stop_listener_simps(1) [OF inv1] free [OF ports(4)] free [OF ports(5)] _ _ ports(1-3)
      r(3) refl rn(1) r(4) refl rn(2) s1 s2] ports(4,5)
  obtain i j where "i \<noteq> j" "lm_tasks lm4 i = Some \<lparr>lt_kind = Tcp_Task, lt_name = n, lt_port = r_remote_port r1, lt_client = r_client_id r1\<rparr>"
    "lm_tasks lm4 j = Some \<lparr>lt_kind = Tcp_Task, lt_name = n, lt_port = r_remote_port r2, lt_client = r_client_id r2\<rparr>"
    "lm_listeners lm4 n = Some j" by (auto simp: bind_ok_def)
  moreover have "rules_of V ?w4 n = Some r2"
    using look2 lookup_rule_pool [OF pool(3), of V] by (simp add: rules_of_def)
  ultimately show ?thesis using that [OF whole] lm4 by simp
qed


section \<open>Properties\<close>




text \<open>
  C38. Two updates of one rule at the same time lose an update and leak a listener: if both handlers
  read a TCP rule before either stores, and both stop its listener before either starts one, then both answer 200,
  the stored rule is the second request merged into the old rule (the changes of the first request are gone), and
  two listener tasks of that name run: the table knows the second only, the first keeps its port and goes on
  forwarding until the server ends.
\<close>
theorem simultaneous_updates_leak:
  assumes "vec_json_ok V" "sys_inv V w" "rules_of V w n = Some old" "r_type old = Tcp"
    and "first_error (update_checks1 U p1) = Inr ()" "first_error (update_checks2 U p1 old) = Inr ()"
    and "first_error (update_checks1 U p2) = Inr ()" "first_error (update_checks2 U p2 old) = Inr ()"
    and "r1 = merge_rule n p1 old" "r2 = merge_rule n p2 old" "r_type r1 = Tcp" "r_type r2 = Tcp"
    and "r_remote_port r1 \<noteq> r_remote_port r2" "r_remote_port r1 \<noteq> 0" "r_remote_port r2 \<noteq> 0"
      "bind_ok (se_busy (snd w)) Tcp_Task (r_remote_port r1) (listeners_of w)"
      "bind_ok (se_busy (snd w)) Tcp_Task (r_remote_port r2) (listeners_of w)"
  shows "\<exists>w' i j t u. (conc_step False U V J jwt bc)\<^sup>*\<^sup>* (\<lambda>_. None, w)
       ([0 \<mapsto> (no_faults, Replied 200), 1 \<mapsto> (no_faults, Replied 200)], w') \<and>
    rules_of V w' n = Some r2 \<and>
    i \<noteq> j \<and> lm_tasks (listeners_of w') i = Some t \<and> lm_tasks (listeners_of w') j = Some u \<and>
    lt_name t = n \<and> lt_name u = n \<and> lt_port t = r_remote_port r1 \<and> lt_port u = r_remote_port r2 \<and>
    lm_listeners (listeners_of w') n = Some j"
  by (rule updates_cross [OF assms, of J jwt bc]) blast

definition port_update :: "u16 \<Rightarrow> update_proxy_request" where
  "port_update p = \<lparr>ur_type = None, ur_client_id = None, ur_local_ip = None, ur_local_port = None,
     ur_remote_port = Some p, ur_custom_domains = None, ur_proxy_protocol = None\<rparr>"

lemma simultaneous_updates_leak_witness:
  "\<exists>w' i j t u. (conc_step False (\<lambda>_. False) sample_vec_json sample_serde sample_jwt (\<lambda>_ _. None))\<^sup>*\<^sup>*
      (\<lambda>_. None, sample_server [sample_rule ''a''])
      ([0 \<mapsto> (no_faults, Replied 200), 1 \<mapsto> (no_faults, Replied 200)], w') \<and>
    i \<noteq> j \<and> lm_tasks (listeners_of w') i = Some t \<and> lm_tasks (listeners_of w') j = Some u \<and>
    lt_port t = 6001 \<and> lt_port u = 6002 \<and> lm_listeners (listeners_of w') ''a'' = Some j"
proof -
  let ?w = "sample_server [sample_rule ''a'']" and ?r = "sample_rule ''a''" and ?U = "\<lambda>_ :: nat. False"
  have inv: "sys_inv sample_vec_json ?w" by (rule sample_server_sys) simp
  have old: "rules_of sample_vec_json ?w ''a'' = Some ?r"
    by (simp add: sample_server_rules sample_rule_def)
  have tcp: "r_type ?r = Tcp" by (simp add: sample_rule_def)
  have c1: "first_error (update_checks1 ?U (port_update p)) = Inr ()" for p
    by (simp add: update_checks1_def port_update_def opt_check_def)
  have c2: "first_error (update_checks2 ?U (port_update p) ?r) = Inr ()" if "p \<noteq> 0" for p
    using that by (simp add: update_checks2_def port_update_def opt_check_def validate_port_def)
  have m: "merge_rule ''a'' (port_update p) ?r = ?r\<lparr>r_remote_port := p\<rparr>" for p
    by (simp add: merge_rule_def port_update_def unwrap_or_def sample_rule_def)
  have b1: "bind_ok (se_busy (snd ?w)) Tcp_Task 6001 (listeners_of ?w)" by code_simp
  have b2: "bind_ok (se_busy (snd ?w)) Tcp_Task 6002 (listeners_of ?w)" by code_simp
  from simultaneous_updates_leak [OF sample_vec_json_ok inv old tcp c1 c2 c1 c2 refl refl, of 6001 6002
      sample_serde sample_jwt "\<lambda>_ _. None"] b1 b2
  show ?thesis by (simp add: m tcp) blast
qed

end
