(* ===== verification/Accept_Loops.thy ===== *)
theory Accept_Loops
  imports Server_Props
begin

text \<open>
  The loops that accept connections: \<^verbatim>\<open>run_tunnel_listener\<close> of \<^verbatim>\<open>crates/server/src/tunnel.rs\<close>, and the
  tasks of \<^verbatim>\<open>start_tcp_listener\<close>, \<^verbatim>\<open>start_http_listener\<close> and \<^verbatim>\<open>start_https_listener\<close> of
  \<^verbatim>\<open>crates/server/src/proxy_listener.rs\<close>, up to the call of \<^verbatim>\<open>handle_stream_proxy_conn\<close> in the task of each
  connection. Sockets and TLS handshakes are given by their outcomes.
\<close>

section \<open>What a loop is given\<close>

datatype 'c accepted = Accepted 'c | Accept_Error

text \<open>
  A connection of a user: the text of its address, what the peek finds (\<open>None\<close>: it fails) and, for the HTTPS listener,
  whether the TLS handshake succeeds. A peek waits for the first bytes, not for more.
\<close>

record user_conn =
  uc_peer :: string
  uc_arrived :: "bytes option"
  uc_handshake :: bool

record client_conn =
  cc_handshake :: bool
  cc_first :: first_msg

text \<open>The arguments of \<^verbatim>\<open>handle_stream_proxy_conn\<close>.\<close>

record stream_call =
  sc_name :: string
  sc_client :: string
  sc_user :: "string option"

section \<open>Tasks of connections\<close>

definition peek_limit :: nat where
  "peek_limit = 4096"

definition handle_http_proxy_conn :: "listener_manager \<Rightarrow> user_conn \<Rightarrow> stream_call option" where
  "handle_http_proxy_conn lm c =
     (case uc_arrived c of
        None \<Rightarrow> None
      | Some arrived \<Rightarrow>
          (case route_http (take peek_limit arrived) lm of
             None \<Rightarrow> None
           | Some rule \<Rightarrow>
               Some \<lparr>sc_name = r_name rule, sc_client = r_client_id rule, sc_user = Some (uc_peer c)\<rparr>))"

text \<open>The outer \<open>None\<close> of \<open>route_https\<close>, a panic, ends the task of the connection.\<close>

definition handle_https_conn :: "listener_manager \<Rightarrow> user_conn \<Rightarrow> stream_call option" where
  "handle_https_conn lm c =
     (case uc_arrived c of
        None \<Rightarrow> None
      | Some arrived \<Rightarrow>
          (case route_https (take peek_limit arrived) lm of
             Some (Some rule) \<Rightarrow>
               if uc_handshake c
               then Some \<lparr>sc_name = r_name rule, sc_client = r_client_id rule, sc_user = Some (uc_peer c)\<rparr>
               else None
           | _ \<Rightarrow> None))"

section \<open>Loops\<close>

text \<open>
  What each accepted connection leads to, in the order of the accepts. The listeners of rules go on
  after a failed accept; for the shared ones each connection comes with the routes its task finds.
\<close>

fun tcp_loop :: "string \<Rightarrow> string \<Rightarrow> user_conn accepted list \<Rightarrow> stream_call list" where
  "tcp_loop name client_id [] = []"
| "tcp_loop name client_id (Accepted c # rest) =
     \<lparr>sc_name = name, sc_client = client_id, sc_user = Some (uc_peer c)\<rparr> # tcp_loop name client_id rest"
| "tcp_loop name client_id (Accept_Error # rest) = tcp_loop name client_id rest"

fun http_loop :: "(listener_manager \<times> user_conn) accepted list \<Rightarrow> stream_call option list" where
  "http_loop [] = []"
| "http_loop (Accepted (lm, c) # rest) = handle_http_proxy_conn lm c # http_loop rest"
| "http_loop (Accept_Error # rest) = http_loop rest"

fun https_loop :: "(listener_manager \<times> user_conn) accepted list \<Rightarrow> stream_call option list" where
  "https_loop [] = []"
| "https_loop (Accepted (lm, c) # rest) = handle_https_conn lm c # https_loop rest"
| "https_loop (Accept_Error # rest) = https_loop rest"

text \<open>The tunnel: \<^verbatim>\<open>accept().await?\<close>; the second component tells whether the loop still runs.\<close>

definition tunnel_task :: "client_conn \<Rightarrow> dispatch option" where
  "tunnel_task c = (if cc_handshake c then Some (dispatch_connection (cc_first c)) else None)"

fun tunnel_loop :: "client_conn accepted list \<Rightarrow> dispatch option list \<times> bool" where
  "tunnel_loop [] = ([], True)"
| "tunnel_loop (Accepted c # rest) = (let (ds, running) = tunnel_loop rest in (tunnel_task c # ds, running))"
| "tunnel_loop (Accept_Error # rest) = ([], False)"

section \<open>Failed accepts\<close>

fun conns :: "'c accepted list \<Rightarrow> 'c list" where
  "conns [] = []"
| "conns (Accepted c # rest) = c # conns rest"
| "conns (Accept_Error # rest) = conns rest"

lemma conns_append [simp]: "conns (as @ bs) = conns as @ conns bs"
  by (induction as rule: conns.induct) simp_all

lemma tcp_loop_serves:
  "tcp_loop name client_id as =
     map (\<lambda>c. \<lparr>sc_name = name, sc_client = client_id, sc_user = Some (uc_peer c)\<rparr>) (conns as)"
  by (induction as rule: conns.induct) simp_all

lemma http_loop_serves: "http_loop as = map (\<lambda>(lm, c). handle_http_proxy_conn lm c) (conns as)"
  by (induction as rule: http_loop.induct) simp_all

lemma https_loop_serves: "https_loop as = map (\<lambda>(lm, c). handle_https_conn lm c) (conns as)"
  by (induction as rule: https_loop.induct) simp_all

lemma tunnel_loop_serves:
  "Accept_Error \<notin> set as \<Longrightarrow> tunnel_loop (as @ bs) =
     (map tunnel_task (conns as) @ fst (tunnel_loop bs), snd (tunnel_loop bs))"
  by (induction as rule: conns.induct) (auto simp: split_beta)

text \<open>
  One failed accept (a process out of file descriptors, say) ends the tunnel for good, while the listeners of the rules
  lose nothing but that attempt.
\<close>

lemma tunnel_ends_at_failed_accept:
  assumes "Accept_Error \<notin> set as"
  shows "tunnel_loop (as @ Accept_Error # bs) = (map tunnel_task (conns as), False)"
  by (simp add: tunnel_loop_serves [OF assms])

lemma rule_listener_survives_failed_accept:
  "tcp_loop name client_id (as @ Accept_Error # bs) = tcp_loop name client_id (as @ bs)"
  by (simp add: tcp_loop_serves)

section \<open>Cut requests\<close>

definition head_lines :: "string list \<Rightarrow> string" where
  "head_lines ls = concat (map crlf ls)"

lemma ascii_append [simp]: "ascii (s @ t) \<longleftrightarrow> ascii s \<and> ascii t"
  by (simp add: ascii_def)

lemma ascii_prefix: "ascii t \<Longrightarrow> prefix s t \<Longrightarrow> ascii s"
  by (auto simp: prefix_def)

lemma extract_host_ascii:
  "ascii s \<Longrightarrow> extract_host_from_http (as_bytes s) = host_in_lines (str_lines s)"
  by (simp add: extract_host_from_http_def)

text \<open>A line without its end is the last one.\<close>

lemma lines_from_last: "LF \<notin> set l \<Longrightarrow> lines_from acc l = (if acc @ l = [] then [] else [acc @ l])"
  by (induction l arbitrary: acc) auto

lemma str_lines_last: "LF \<notin> set l \<Longrightarrow> str_lines l = (if l = [] then [] else [l])"
  by (simp add: str_lines_def lines_from_last)

lemma no_host_prefix: "\<not> prefix ''Host:'' l \<Longrightarrow> prefix p l \<Longrightarrow> \<not> prefix ''Host:'' p"
  by (meson prefix_order.trans)

lemma cut_line_no_host:
  assumes "passed_over l" "prefix p (crlf l)" "p \<noteq> crlf l"
  shows "host_in_lines (str_lines p) = None"
proof -
  have lf: "LF \<notin> set l" and nh: "\<not> prefix ''Host:'' l" using assms(1) by (simp_all add: passed_over_def)
  have "prefix p (l @ [CR])"
    using assms(2,3) prefix_snoc [of p "l @ [CR]" LF] by (simp add: crlf_def)
  then have p: "LF \<notin> set p" using lf set_mono_prefix by fastforce
  have "\<not> prefix ''Host:'' p"
  proof
    assume "prefix ''Host:'' p"
    with \<open>prefix p (l @ [CR])\<close> have "prefix ''Host:'' (l @ [CR])" by (meson prefix_order.trans)
    with nh have "''Host:'' = l @ [CR]" by simp
    then have "last ''Host:'' = CR" by (metis last_snoc)
    then show False by simp
  qed
  then show ?thesis by (simp add: str_lines_last [OF p] strip_prefix_def)
qed

lemma cut_head_no_host:
  assumes "\<forall>l \<in> set ls. passed_over l" "prefix p (head_lines ls)"
  shows "host_in_lines (str_lines p) = None"
  using assms
proof (induction ls arbitrary: p)
  case Nil
  then show ?case by (simp add: head_lines_def str_lines_def)
next
  case (Cons l ls)
  have l: "passed_over l" using Cons.prems(1) by simp
  from Cons.prems(2) have "prefix p (crlf l @ head_lines ls)" by (simp add: head_lines_def)
  then consider (cut) "prefix p (crlf l)" "p \<noteq> crlf l" | (on) q where "p = crlf l @ q" "prefix q (head_lines ls)"
    by (metis append_Nil2 prefix_append prefix_order.refl Nil_prefix)
  then show ?case
  proof cases
    case cut
    then show ?thesis by (rule cut_line_no_host [OF l])
  next
    case (on q)
    then have "host_in_lines (str_lines q) = None" using Cons by simp
    with on(1) l show ?thesis
      by (simp add: str_lines_crlf_append passed_over_def strip_prefix_def)
  qed
qed

text \<open>Within \<^verbatim>\<open>Host: \<close> itself there is no line that starts with \<^verbatim>\<open>Host:\<close> and a name.\<close>

lemma cut_value:
  assumes "\<forall>l \<in> set ls. passed_over l" "plain_host h"
  shows "host_in_lines (str_lines (head_lines ls @ ''Host: '' @ h)) = Some h"
proof -
  have "LF \<notin> set h" using plain_host_chars [OF assms(2), of "[]" LF] by (auto simp: port_suffix_def)
  then have lf: "LF \<notin> set (''Host: '' @ h)" by simp
  have "host_in_lines (str_lines (head_lines ls @ ''Host: '' @ h)) = host_in_lines [''Host: '' @ h]"
    by (simp only: head_lines_def passed_over_lines [OF assms(1)] str_lines_last [OF lf]) simp
  also have "\<dots> = Some (host_without_port (trim ('' '' @ h)))"
    using strip_prefix_append [of "''Host:''" "'' '' @ h"] by simp
  also have "trim ('' '' @ h) = h"
    using trim_plain [OF assms(2), of "[]"] by (simp add: trim_def port_suffix_def)
  also have "host_without_port h = h"
    using host_without_port_plain [OF assms(2), of "[]"] by (simp add: port_suffix_def)
  finally show ?thesis .
qed

lemma plain_host_take: "plain_host h \<Longrightarrow> 0 < j \<Longrightarrow> plain_host (take j h)"
  by (auto simp: plain_host_def list_all_iff dest: in_set_takeD)


text \<open>What the shared HTTP listener does with the first bytes of a request.\<close>

abbreviation arriving :: "string \<Rightarrow> user_conn \<Rightarrow> user_conn" where
  "arriving s c \<equiv> c\<lparr>uc_arrived := Some (as_bytes s)\<rparr>"

definition call_of :: "user_conn \<Rightarrow> proxy_rule \<Rightarrow> stream_call" where
  "call_of c rule = \<lparr>sc_name = r_name rule, sc_client = r_client_id rule, sc_user = Some (uc_peer c)\<rparr>"

lemma http_conn_host:
  assumes "ascii s" "length s \<le> peek_limit"
  shows "handle_http_proxy_conn lm (arriving s c) =
    (case host_in_lines (str_lines s) of None \<Rightarrow> None | Some h \<Rightarrow> map_option (call_of c) (lm_domain_routes lm h))"
  using assms
  by (simp add: handle_http_proxy_conn_def route_http_def extract_host_ascii call_of_def split: option.splits)

section \<open>Properties\<close>

text \<open>
  C36. The first segment decides. The routing of the shared HTTP listener depends on how much of the request
  has arrived when it looks: if the segment ends before the \<^verbatim>\<open>Host:\<close> line the connection is dropped, and if it ends
  within the host name the connection goes to the rule of the name read so far, which may be another one (of
  another client), or to none. Only with the whole name there it goes to the rule of that name.
\<close>
theorem first_segment_decides:
  assumes "\<forall>l \<in> set ls. passed_over l" and "plain_host h" and "ascii (head_lines ls)"
    and "length (head_lines ls @ ''Host: '' @ h) \<le> peek_limit"
    and "req = head_lines ls @ ''Host: '' @ h @ rest"
  shows "(\<forall>k \<le> length (head_lines ls). handle_http_proxy_conn lm (arriving (take k req) c) = None) \<and>
    (\<forall>j. 0 < j \<longrightarrow> j \<le> length h \<longrightarrow>
       handle_http_proxy_conn lm (arriving (take (length (head_lines ls) + 6 + j) req) c) =
         map_option (call_of c) (lm_domain_routes lm (take j h)))"
proof (intro conjI allI impI)
  fix k assume k: "k \<le> length (head_lines ls)"
  let ?s = "take k (head_lines ls)"
  have s: "take k req = ?s" using k by (simp add: assms(5))
  have "ascii ?s" using assms(3) take_is_prefix by (rule ascii_prefix)
  moreover have "length ?s \<le> peek_limit" using assms(4) by simp
  moreover have "host_in_lines (str_lines ?s) = None"
    by (rule cut_head_no_host [OF assms(1) take_is_prefix])
  ultimately show "handle_http_proxy_conn lm (arriving (take k req) c) = None"
    unfolding s by (simp add: http_conn_host)
next
  fix j assume j: "0 < j" "j \<le> length h"
  let ?s = "head_lines ls @ ''Host: '' @ take j h"
  have s: "take (length (head_lines ls) + 6 + j) req = ?s"
  proof -
    let ?a = "head_lines ls @ ''Host: ''"
    have "take (length ?a + j) (?a @ h @ rest) = ?a @ take j h" using j(2) by (simp only: take_append) simp
    then show ?thesis by (simp add: assms(5))
  qed
  have h: "plain_host (take j h)" by (rule plain_host_take [OF assms(2) j(1)])
  have "ascii (take j h)"
    unfolding ascii_def list_all_iff
  proof
    fix x assume "x \<in> set (take j h)"
    from plain_host_char [OF h this] show "of_char x < (128 :: nat)" by linarith
  qed
  then have a: "ascii ?s" using assms(3) by (simp add: ascii_def)
  have l: "length ?s \<le> peek_limit" using assms(4) j(2) by simp
  show "handle_http_proxy_conn lm (arriving (take (length (head_lines ls) + 6 + j) req) c) =
      map_option (call_of c) (lm_domain_routes lm (take j h))"
    unfolding s http_conn_host [OF a l] cut_value [OF assms(1) h] by simp
qed

definition sample_domain_rule :: "string \<Rightarrow> string \<Rightarrow> proxy_rule" where
  "sample_domain_rule n d =
     \<lparr>r_name = n, r_type = Http, r_client_id = n @ ''-client'', r_local_ip = ''127.0.0.1'', r_local_port = 80,
      r_remote_port = 0, r_custom_domains = [d], r_proxy_protocol = []\<rparr>"

definition sample_routes :: listener_manager where
  "sample_routes =
     register_domain_route (sample_domain_rule ''shop'' ''shop.example.com'')
       (register_domain_route (sample_domain_rule ''cafe'' ''shop.example.co'') listener_manager_new)"

theorem first_segment_decides_witness:
  "map_option sc_client (handle_http_proxy_conn sample_routes
      (arriving (take 37 (crlf ''GET / HTTP/1.1'' @ ''Host: shop.example.com'')) \<lparr>uc_peer = ''1.2.3.4:5'', uc_arrived = None, uc_handshake = True\<rparr>)) =
     Some ''cafe-client''"
proof -
  let ?c = "\<lparr>uc_peer = ''1.2.3.4:5'', uc_arrived = None, uc_handshake = True\<rparr>"
  have ls: "\<forall>l \<in> set [''GET / HTTP/1.1'']. passed_over l" by (simp add: passed_over_def)
  have h: "plain_host ''shop.example.com''" by (simp add: plain_host_def)
  have a: "ascii (head_lines [''GET / HTTP/1.1''])" by (simp add: head_lines_def crlf_def ascii_def)
  have l: "length (head_lines [''GET / HTTP/1.1''] @ ''Host: '' @ ''shop.example.com'') \<le> peek_limit"
    by (simp add: head_lines_def crlf_def peek_limit_def)
  have e: "crlf ''GET / HTTP/1.1'' @ ''Host: shop.example.com'' =
      head_lines [''GET / HTTP/1.1''] @ ''Host: '' @ ''shop.example.com'' @ []"
    by (simp add: head_lines_def)
  have n: "length (head_lines [''GET / HTTP/1.1'']) + 6 + 15 = 37" by (simp add: head_lines_def crlf_def)
  have "handle_http_proxy_conn sample_routes
      (arriving (take 37 (crlf ''GET / HTTP/1.1'' @ ''Host: shop.example.com'')) ?c) =
    map_option (call_of ?c) (lm_domain_routes sample_routes (take 15 ''shop.example.com''))"
    using first_segment_decides [OF ls h a l e, of sample_routes ?c, THEN conjunct2, rule_format, of 15]
    unfolding n by simp
  then show ?thesis
    by (simp add: sample_routes_def register_domain_route_def sample_domain_rule_def call_of_def)
qed

text \<open>
  The same holds of the HTTPS listener: as long as the server name has not arrived, whatever extensions
  have, the connection is dropped.
\<close>

lemma hello_cut_before_name:
  assumes "wf_client_hello h" and "\<forall>e \<in> set before. wf_ext e \<and> fst e \<noteq> 0" and "extlen < 65536"
    and "length (concat (map ext_bytes before)) \<le> extlen"
    and "length (hello_bytes h @ be16 extlen @ concat (map ext_bytes before)) \<le> peek_limit"
  shows "handle_https_conn lm
    (c\<lparr>uc_arrived := Some (hello_bytes h @ be16 extlen @ concat (map ext_bytes before))\<rparr>) = None"
proof -
  let ?pre = "hello_bytes h @ be16 extlen" and ?mid = "concat (map ext_bytes before)"
  let ?n = "length ?pre"
  have "extract_sni_from_client_hello (?pre @ ?mid) = sni_scan (?pre @ ?mid) (?n + extlen) ?n"
    using extract_sni_hello [OF assms(1,3)] by (simp only: append_assoc Let_def length_append length_be16)
  also have "\<dots> = sni_scan (?pre @ ?mid) (?n + extlen) (?n + length ?mid)"
    using sni_scan_skips [OF assms(2) refl, of ?pre "?n + extlen" "[]"] assms(4) by simp
  also have "\<dots> = Some None" by (rule sni_scan_stop) simp
  finally have "extract_sni_from_client_hello (?pre @ ?mid) = Some None" .
  moreover have "take peek_limit (?pre @ ?mid) = ?pre @ ?mid" using assms(5) by simp
  ultimately show ?thesis by (simp add: handle_https_conn_def route_https_def)
qed

text \<open>On a consistent server a running listener and a route belong to a stored rule.\<close>

lemma task_rule:
  assumes "sys_inv V w" "lm_tasks (listeners_of w) i = Some t" "stream_kind (lt_kind t)"
  obtains r where "rules_of V w (lt_name t) = Some r" "serves t r"
proof -
  have ok: "sys_ok (rules_of V w) (statuses w) (listeners_of w)" using assms(1) by (simp add: sys_inv_def)
  then have "lm_listeners (listeners_of w) (lt_name t) = Some i"
    using assms(2,3) unfolding sys_ok_def lm_inv_def no_detached_def by blast
  then have "listener_of (listeners_of w) (lt_name t) = Some t" by (simp add: listener_of_def assms(2))
  with ok that show ?thesis unfolding sys_ok_def listeners_sound_def by blast
qed

lemma route_rule:
  assumes "sys_inv V w" "lm_domain_routes (listeners_of w) d = Some r"
  shows "rules_of V w (r_name r) = Some r \<and> \<not> stream_type (r_type r) \<and> d \<in> set (r_custom_domains r)"
  using assms by (auto simp: sys_inv_def sys_ok_def routes_sound_def)

lemma http_call:
  assumes "handle_http_proxy_conn lm c = Some call"
  obtains bs d r where "uc_arrived c = Some bs" "extract_host_from_http (take peek_limit bs) = Some d"
    "lm_domain_routes lm d = Some r" "call = call_of c r"
  using assms by (auto simp: handle_http_proxy_conn_def route_http_def call_of_def split: option.splits)

lemma https_call:
  assumes "handle_https_conn lm c = Some call"
  obtains bs d r where "uc_arrived c = Some bs" "extract_sni_from_client_hello (take peek_limit bs) = Some (Some d)"
    "lm_domain_routes lm d = Some r" "call = call_of c r" "uc_handshake c"
  using assms by (auto simp: handle_https_conn_def route_https_def call_of_def split: option.splits if_splits)

text \<open>A call made for a connection under a rule.\<close>

definition call_for :: "proxy_rule \<Rightarrow> user_conn \<Rightarrow> stream_call \<Rightarrow> bool" where
  "call_for r c call \<longleftrightarrow>
     sc_name call = r_name r \<and> sc_client call = r_client_id r \<and> sc_user call = Some (uc_peer c)"

text \<open>
  C24. Users are only handed over for stored rules. In every state of the server that start-up and any steps lead to, a
  connection of a TCP listener is passed on under the stored rule of that listener, for its client; the shared listeners pass a
  connection on only under a stored HTTP or HTTPS rule that lists the name read from its first bytes (its \<^verbatim>\<open>Host\<close>
  header, or the server name of its ClientHello, and then only after the TLS handshake), for the client of that rule.
\<close>
theorem users_reach_stored_rules:
  assumes "vec_json_ok V" and "server_init V w0" and "(server_step U V J jwt bc)\<^sup>*\<^sup>* w0 w"
  shows "(\<forall>i t as call. lm_tasks (listeners_of w) i = Some t \<and> lt_kind t = Tcp_Task \<and>
        call \<in> set (tcp_loop (lt_name t) (lt_client t) as) \<longrightarrow>
      (\<exists>r. rules_of V w (lt_name t) = Some r \<and> r_type r = Tcp \<and> r_remote_port r = lt_port t \<and>
         (\<exists>c \<in> set (conns as). call_for r c call))) \<and>
    (\<forall>c call. handle_http_proxy_conn (listeners_of w) c = Some call \<longrightarrow>
      (\<exists>bs d r. uc_arrived c = Some bs \<and> extract_host_from_http (take peek_limit bs) = Some d \<and>
         rules_of V w (r_name r) = Some r \<and> \<not> stream_type (r_type r) \<and> d \<in> set (r_custom_domains r) \<and>
         call_for r c call)) \<and>
    (\<forall>c call. handle_https_conn (listeners_of w) c = Some call \<longrightarrow>
      (\<exists>bs d r. uc_arrived c = Some bs \<and> extract_sni_from_client_hello (take peek_limit bs) = Some (Some d) \<and>
         uc_handshake c \<and> rules_of V w (r_name r) = Some r \<and> \<not> stream_type (r_type r) \<and>
         d \<in> set (r_custom_domains r) \<and> call_for r c call))"
proof (intro conjI allI impI)
  have inv: "sys_inv V w" using server_run.inv_reachable [OF _ assms(3)] assms(1,2) by blast
  {
    fix i t as call
    assume a: "lm_tasks (listeners_of w) i = Some t \<and> lt_kind t = Tcp_Task \<and>
      call \<in> set (tcp_loop (lt_name t) (lt_client t) as)"
    obtain r where r: "rules_of V w (lt_name t) = Some r" "serves t r"
      by (rule task_rule [OF inv, of i t]) (use a in auto)
    have "r_type r = Tcp" using r(2) a by (cases "r_type r") (auto simp: serves_def)
    with r a show "\<exists>r. rules_of V w (lt_name t) = Some r \<and> r_type r = Tcp \<and> r_remote_port r = lt_port t \<and>
        (\<exists>c \<in> set (conns as). call_for r c call)"
      by (auto simp: tcp_loop_serves serves_def call_for_def)
  next
    fix c call assume "handle_http_proxy_conn (listeners_of w) c = Some call"
    then obtain bs d r where "uc_arrived c = Some bs" "extract_host_from_http (take peek_limit bs) = Some d"
      "lm_domain_routes (listeners_of w) d = Some r" "call = call_of c r" by (rule http_call)
    with route_rule [OF inv] show "\<exists>bs d r. uc_arrived c = Some bs \<and>
        extract_host_from_http (take peek_limit bs) = Some d \<and> rules_of V w (r_name r) = Some r \<and>
        \<not> stream_type (r_type r) \<and> d \<in> set (r_custom_domains r) \<and> call_for r c call"
      by (auto simp: call_of_def call_for_def)
  next
    fix c call assume "handle_https_conn (listeners_of w) c = Some call"
    then obtain bs d r where "uc_arrived c = Some bs"
      "extract_sni_from_client_hello (take peek_limit bs) = Some (Some d)"
      "lm_domain_routes (listeners_of w) d = Some r" "call = call_of c r" "uc_handshake c" by (rule https_call)
    with route_rule [OF inv] show "\<exists>bs d r. uc_arrived c = Some bs \<and>
        extract_sni_from_client_hello (take peek_limit bs) = Some (Some d) \<and> uc_handshake c \<and>
        rules_of V w (r_name r) = Some r \<and> \<not> stream_type (r_type r) \<and> d \<in> set (r_custom_domains r) \<and>
        call_for r c call"
      by (auto simp: call_of_def call_for_def)
  }
qed

theorem users_reach_stored_rules_witness:
  "\<exists>call. handle_http_proxy_conn (listeners_of (sample_server [sample_web_rule ''a'' [''x.org'']]))
      (arriving (crlf ''GET / HTTP/1.1'' @ ''Host: x.org'')
        \<lparr>uc_peer = ''1.2.3.4:5'', uc_arrived = None, uc_handshake = True\<rparr>) = Some call \<and>
    (\<exists>r. rules_of sample_vec_json (sample_server [sample_web_rule ''a'' [''x.org'']]) (r_name r) = Some r \<and>
       r_client_id r = sc_client call)"
proof -
  let ?w = "sample_server [sample_web_rule ''a'' [''x.org'']]" and ?s = "crlf ''GET / HTTP/1.1'' @ ''Host: x.org''"
  let ?c = "arriving ?s \<lparr>uc_peer = ''1.2.3.4:5'', uc_arrived = None, uc_handshake = True\<rparr>"
  have "host_in_lines (str_lines (head_lines [''GET / HTTP/1.1''] @ ''Host: '' @ ''x.org'')) = Some ''x.org''"
    by (rule cut_value) (simp_all add: passed_over_def plain_host_def)
  then have h: "host_in_lines (str_lines ?s) = Some ''x.org''" by (simp add: head_lines_def)
  have s: "ascii ?s" "length ?s \<le> peek_limit" by (simp_all add: crlf_def ascii_def peek_limit_def)
  have "lm_domain_routes (listeners_of ?w) ''x.org'' \<noteq> None" by code_simp
  then obtain call where call: "handle_http_proxy_conn (listeners_of ?w) ?c = Some call"
    unfolding http_conn_host [OF s] h by auto
  have i: "server_init sample_vec_json ?w" by (rule sample_server_init) simp
  from users_reach_stored_rules [OF sample_vec_json_ok i rtranclp.rtrancl_refl] call
  have "\<exists>r. rules_of sample_vec_json ?w (r_name r) = Some r \<and> call_for r ?c call" by blast
  with call show ?thesis by (auto simp: call_for_def)
qed

end
