(* ===== verification/Config_File.thy ===== *)
theory Config_File
  imports Config "HOL-Library.Monad_Syntax"
begin

text \<open>
  \<^verbatim>\<open>parse_server_config\<close> and \<^verbatim>\<open>parse_client_config\<close> of
  \<^verbatim>\<open>crates/core/src/config.rs\<close>: what the derived \<^verbatim>\<open>Deserialize\<close> of the sections takes from a parsed
  document, with the defaults of its attributes. The text parser of the \<^verbatim>\<open>toml\<close> crate is a parameter that gives
  the document or an error. Which error is reported is left open.
\<close>

section \<open>Documents\<close>

text \<open>
  Values of a TOML document; floats and dates, which no field accepts, are one constructor. Integers are 64-bit
  in TOML. A document has one table per section, with distinct keys; a section written as an array, which derived
  deserialisers read field by field, counts as one that does not parse.
\<close>

datatype toml_value =
    T_String string
  | T_Integer int
  | T_Boolean bool
  | T_Array "toml_value list"
  | T_Table "(string \<times> toml_value) list"
  | T_Other

type_synonym toml_table = "(string \<times> toml_value) list"
type_synonym toml_doc = "(string \<times> toml_table) list"

section \<open>Types of fields\<close>

fun to_text :: "toml_value \<Rightarrow> string option" where
  "to_text (T_String s) = Some s"
| "to_text _ = None"

fun to_flag :: "toml_value \<Rightarrow> bool option" where
  "to_flag (T_Boolean b) = Some b"
| "to_flag _ = None"

fun to_u16 :: "toml_value \<Rightarrow> u16 option" where
  "to_u16 (T_Integer i) = (if 0 \<le> i \<and> i < 65536 then Some (word_of_int i) else None)"
| "to_u16 _ = None"

fun to_u64 :: "toml_value \<Rightarrow> u64 option" where
  "to_u64 (T_Integer i) = (if 0 \<le> i \<and> i < 2 ^ 64 then Some (word_of_int i) else None)"
| "to_u64 _ = None"

fun to_texts :: "toml_value \<Rightarrow> string list option" where
  "to_texts (T_Array vs) = those (map to_text vs)"
| "to_texts _ = None"

text \<open>A field without attribute, and one with \<^verbatim>\<open>#[serde(default)]\<close>.\<close>

definition required :: "(toml_value \<Rightarrow> 'a option) \<Rightarrow> string \<Rightarrow> toml_table \<Rightarrow> 'a option" where
  "required f key t = Option.bind (map_of t key) f"

definition defaulted :: "'a \<Rightarrow> (toml_value \<Rightarrow> 'a option) \<Rightarrow> string \<Rightarrow> toml_table \<Rightarrow> 'a option" where
  "defaulted d f key t = (case map_of t key of None \<Rightarrow> Some d | Some v \<Rightarrow> f v)"

section \<open>Sections\<close>

definition read_server_section :: "toml_table \<Rightarrow> server_section option" where
  "read_server_section t = do {
     addr \<leftarrow> required to_text ''bind_addr'' t;
     port \<leftarrow> required to_u16 ''bind_port'' t;
     token \<leftarrow> required to_text ''token'' t;
     http \<leftarrow> defaulted 0 to_u16 ''http_port'' t;
     https \<leftarrow> defaulted 0 to_u16 ''https_port'' t;
     Some \<lparr>bind_addr = addr, bind_port = port, srv_token = token, http_port = http, https_port = https\<rparr>
   }"

definition read_web_section :: "toml_table \<Rightarrow> web_section option" where
  "read_web_section t = do {
     enable \<leftarrow> required to_flag ''enable'' t;
     addr \<leftarrow> required to_text ''bind_addr'' t;
     port \<leftarrow> required to_u16 ''bind_port'' t;
     user \<leftarrow> required to_text ''user'' t;
     password \<leftarrow> required to_text ''password'' t;
     secret \<leftarrow> defaulted [] to_text ''jwt_secret'' t;
     hours \<leftarrow> defaulted default_token_expire_hours to_u64 ''token_expire_hours'' t;
     origins \<leftarrow> defaulted [] to_texts ''cors_origins'' t;
     Some \<lparr>web_enable = enable, web_bind_addr = addr, web_bind_port = port, web_user = user,
       web_password = password, jwt_secret = secret, token_expire_hours = hours, cors_origins = origins\<rparr>
   }"

definition read_tls_section :: "toml_table \<Rightarrow> tls_section option" where
  "read_tls_section t = do {
     auto \<leftarrow> required to_flag ''auto_cert'' t;
     cert \<leftarrow> required to_text ''cert_file'' t;
     key \<leftarrow> required to_text ''key_file'' t;
     Some \<lparr>auto_cert = auto, cert_file = cert, key_file = key\<rparr>
   }"

definition read_client_section :: "toml_table \<Rightarrow> client_section option" where
  "read_client_section t = do {
     i \<leftarrow> required to_text ''id'' t;
     addr \<leftarrow> required to_text ''server_addr'' t;
     port \<leftarrow> required to_u16 ''server_port'' t;
     token \<leftarrow> required to_text ''token'' t;
     ca \<leftarrow> defaulted [] to_text ''ca_cert'' t;
     name \<leftarrow> defaulted [] to_text ''server_name'' t;
     Some \<lparr>cl_id = i, cl_server_addr = addr, cl_server_port = port, cl_token = token, cl_ca_cert = ca,
       cl_server_name = name\<rparr>
   }"

definition parse_server_config :: "(string \<Rightarrow> toml_doc option) \<Rightarrow> string \<Rightarrow> server_config option" where
  "parse_server_config toml content = do {
     doc \<leftarrow> toml content;
     server \<leftarrow> Option.bind (map_of doc ''server'') read_server_section;
     web \<leftarrow> Option.bind (map_of doc ''web'') read_web_section;
     tls \<leftarrow> Option.bind (map_of doc ''tls'') read_tls_section;
     Some \<lparr>cfg_server = server, cfg_web = web, cfg_tls = tls\<rparr>
   }"

definition parse_client_config :: "(string \<Rightarrow> toml_doc option) \<Rightarrow> string \<Rightarrow> client_section option" where
  "parse_client_config toml content = do {
     doc \<leftarrow> toml content;
     Option.bind (map_of doc ''client'') read_client_section
   }"

section \<open>What a section says\<close>

text \<open>The value of a field as the file has it, and a field that may be left out at its default.\<close>

definition says :: "toml_table \<Rightarrow> string \<Rightarrow> toml_value \<Rightarrow> bool" where
  "says t key v \<longleftrightarrow> map_of t key = Some v"

definition says_or_omits :: "toml_table \<Rightarrow> string \<Rightarrow> toml_value \<Rightarrow> toml_value \<Rightarrow> bool" where
  "says_or_omits t key d v \<longleftrightarrow> map_of t key = Some v \<or> map_of t key = None \<and> v = d"

abbreviation port_value :: "u16 \<Rightarrow> toml_value" where
  "port_value p \<equiv> T_Integer (uint p)"

definition server_table :: "toml_table \<Rightarrow> server_section \<Rightarrow> bool" where
  "server_table t s \<longleftrightarrow>
     says t ''bind_addr'' (T_String (bind_addr s)) \<and> says t ''bind_port'' (port_value (bind_port s)) \<and>
     says t ''token'' (T_String (srv_token s)) \<and>
     says_or_omits t ''http_port'' (T_Integer 0) (port_value (http_port s)) \<and>
     says_or_omits t ''https_port'' (T_Integer 0) (port_value (https_port s))"

definition web_table :: "toml_table \<Rightarrow> web_section \<Rightarrow> bool" where
  "web_table t s \<longleftrightarrow>
     says t ''enable'' (T_Boolean (web_enable s)) \<and> says t ''bind_addr'' (T_String (web_bind_addr s)) \<and>
     says t ''bind_port'' (port_value (web_bind_port s)) \<and> says t ''user'' (T_String (web_user s)) \<and>
     says t ''password'' (T_String (web_password s)) \<and>
     says_or_omits t ''jwt_secret'' (T_String []) (T_String (jwt_secret s)) \<and>
     says_or_omits t ''token_expire_hours'' (T_Integer 24) (T_Integer (uint (token_expire_hours s))) \<and>
     says_or_omits t ''cors_origins'' (T_Array []) (T_Array (map T_String (cors_origins s)))"

definition tls_table :: "toml_table \<Rightarrow> tls_section \<Rightarrow> bool" where
  "tls_table t s \<longleftrightarrow>
     says t ''auto_cert'' (T_Boolean (auto_cert s)) \<and> says t ''cert_file'' (T_String (cert_file s)) \<and>
     says t ''key_file'' (T_String (key_file s))"

definition client_table :: "toml_table \<Rightarrow> client_section \<Rightarrow> bool" where
  "client_table t s \<longleftrightarrow>
     says t ''id'' (T_String (cl_id s)) \<and> says t ''server_addr'' (T_String (cl_server_addr s)) \<and>
     says t ''server_port'' (port_value (cl_server_port s)) \<and> says t ''token'' (T_String (cl_token s)) \<and>
     says_or_omits t ''ca_cert'' (T_String []) (T_String (cl_ca_cert s)) \<and>
     says_or_omits t ''server_name'' (T_String []) (T_String (cl_server_name s))"

section \<open>Lemmas\<close>

lemma to_text_Some [simp]: "to_text v = Some s \<longleftrightarrow> v = T_String s"
  by (cases v) auto

lemma to_flag_Some [simp]: "to_flag v = Some b \<longleftrightarrow> v = T_Boolean b"
  by (cases v) auto

lemma to_u16_Some [simp]: "to_u16 v = Some p \<longleftrightarrow> v = port_value p"
proof (cases v)
  case (T_Integer i)
  have "word_of_int i = p \<longleftrightarrow> i = uint p" if "0 \<le> i" "i < 65536"
    using that by (auto simp: uint_word_of_int_eq take_bit_int_eq_self)
  moreover have "0 \<le> uint p" "uint p < 65536" using uint_bounded [of p] by simp_all
  ultimately show ?thesis by (auto simp: T_Integer)
qed auto

lemma to_u64_Some [simp]: "to_u64 v = Some p \<longleftrightarrow> v = T_Integer (uint p)"
proof (cases v)
  case (T_Integer i)
  have "word_of_int i = p \<longleftrightarrow> i = uint p" if "0 \<le> i" "i < 2 ^ 64"
    using that by (auto simp: uint_word_of_int_eq take_bit_int_eq_self)
  moreover have "0 \<le> uint p" "uint p < 2 ^ 64" using uint_bounded [of p] by simp_all
  ultimately show ?thesis by (auto simp: T_Integer)
qed auto

lemma those_texts: "those (map to_text vs) = Some ss \<longleftrightarrow> vs = map T_String ss"
proof (induction vs arbitrary: ss)
  case Nil
  then show ?case by auto
next
  case (Cons v vs)
  then show ?case by (cases "to_text v"; cases ss) (auto split: option.splits)
qed

lemma to_texts_Some [simp]: "to_texts v = Some ss \<longleftrightarrow> v = T_Array (map T_String ss)"
  by (cases v) (auto simp: those_texts)

lemma required_Some:
  "required f key t = Some x \<longleftrightarrow> (\<exists>v. map_of t key = Some v \<and> f v = Some x)"
  by (auto simp: required_def bind_eq_Some_conv)

lemma defaulted_Some:
  "defaulted d f key t = Some x \<longleftrightarrow>
     map_of t key = None \<and> x = d \<or> (\<exists>v. map_of t key = Some v \<and> f v = Some x)"
  by (auto simp: defaulted_def split: option.splits)

lemmas fields = bind_eq_Some_conv required_Some defaulted_Some says_def says_or_omits_def

lemma port_default: "uint p = 0 \<longleftrightarrow> p = (0 :: u16)"
  by (rule uint_0_iff)

lemma hours_default: "uint h = 24 \<longleftrightarrow> h = default_token_expire_hours"
  by (simp add: default_token_expire_hours_def word_uint_eq_iff)

lemma read_server_section_iff: "read_server_section t = Some s \<longleftrightarrow> server_table t s"
  by (cases s) (auto simp: read_server_section_def server_table_def fields port_default)

lemma read_web_section_iff: "read_web_section t = Some s \<longleftrightarrow> web_table t s"
  by (cases s) (auto simp: read_web_section_def web_table_def fields hours_default)

lemma read_tls_section_iff: "read_tls_section t = Some s \<longleftrightarrow> tls_table t s"
  by (cases s) (auto simp: read_tls_section_def tls_table_def fields)

lemma read_client_section_iff: "read_client_section t = Some s \<longleftrightarrow> client_table t s"
  by (cases s) (auto simp: read_client_section_def client_table_def fields)

lemma server_config_iff:
  "parse_server_config toml content = Some cfg \<longleftrightarrow>
     (\<exists>doc server web tls. toml content = Some doc \<and>
        map_of doc ''server'' = Some server \<and> map_of doc ''web'' = Some web \<and> map_of doc ''tls'' = Some tls \<and>
        server_table server (cfg_server cfg) \<and> web_table web (cfg_web cfg) \<and> tls_table tls (cfg_tls cfg))"
  by (cases cfg) (auto simp: parse_server_config_def bind_eq_Some_conv read_server_section_iff
      read_web_section_iff read_tls_section_iff)

lemma client_config_iff:
  "parse_client_config toml content = Some cfg \<longleftrightarrow>
     (\<exists>doc t. toml content = Some doc \<and> map_of doc ''client'' = Some t \<and> client_table t cfg)"
  by (auto simp: parse_client_config_def bind_eq_Some_conv read_client_section_iff)

section \<open>Properties\<close>

text \<open>
  C30. The configuration files mean what the sections say. A text is accepted as a server configuration
  exactly if it parses as TOML, has the three sections, and in them every field without a default with a value of its type (ports and
  hours within their integer types), every field with a default either absent and at that default (no HTTP and HTTPS ports, an
  empty secret, 24 hours, no origins) or present with a value of its type; the configuration then holds those values, and other keys and the order
  of keys do not matter. The same for the client section.
\<close>
theorem config_files_exact:
  "(parse_server_config toml content = Some cfg \<longleftrightarrow>
     (\<exists>doc server web tls. toml content = Some doc \<and>
        map_of doc ''server'' = Some server \<and> map_of doc ''web'' = Some web \<and> map_of doc ''tls'' = Some tls \<and>
        server_table server (cfg_server cfg) \<and> web_table web (cfg_web cfg) \<and> tls_table tls (cfg_tls cfg))) \<and>
   (parse_client_config toml content = Some cl \<longleftrightarrow>
     (\<exists>doc t. toml content = Some doc \<and> map_of doc ''client'' = Some t \<and> client_table t cl))"
  by (rule conjI [OF server_config_iff client_config_iff])

text \<open>The document of the test \<^verbatim>\<open>test_parse_server_config_no_http\<close>.\<close>

definition sample_doc :: toml_doc where
  "sample_doc =
     [(''server'', [(''bind_addr'', T_String ''0.0.0.0''), (''bind_port'', T_Integer 7000),
        (''token'', T_String ''test-token'')]),
      (''web'', [(''enable'', T_Boolean True), (''bind_addr'', T_String ''0.0.0.0''), (''bind_port'', T_Integer 7500),
        (''user'', T_String ''admin''), (''password'', T_String ''admin'')]),
      (''tls'', [(''auto_cert'', T_Boolean True), (''cert_file'', T_String []), (''key_file'', T_String [])])]"

lemma sample_doc_config:
  "parse_server_config (\<lambda>_. Some sample_doc) [] = Some
     \<lparr>cfg_server = \<lparr>bind_addr = ''0.0.0.0'', bind_port = 7000, srv_token = ''test-token'', http_port = 0,
        https_port = 0\<rparr>,
      cfg_web = \<lparr>web_enable = True, web_bind_addr = ''0.0.0.0'', web_bind_port = 7500, web_user = ''admin'',
        web_password = ''admin'', jwt_secret = [], token_expire_hours = 24, cors_origins = []\<rparr>,
      cfg_tls = \<lparr>auto_cert = True, cert_file = [], key_file = []\<rparr>\<rparr>"
  by code_simp

end
