(* ===== verification/Program_Start.thy ===== *)
theory Program_Start
  imports Server_Main Connector Config_File
begin

text \<open>
  The two processes: \<^verbatim>\<open>main\<close> of \<^verbatim>\<open>crates/server/src/main.rs\<close> from the command line to the sockets of the tunnel
  (\<^verbatim>\<open>tunnel.rs\<close>) and of the Web panel (\<^verbatim>\<open>run_web_panel\<close>), its end (\<^verbatim>\<open>stop_all\<close>), the database file
  (\<^verbatim>\<open>ProxyManager::open\<close>), and \<^verbatim>\<open>main\<close> of \<^verbatim>\<open>crates/client/src/main.rs\<close>. The arguments are those \<^verbatim>\<open>clap\<close> found.
\<close>

section \<open>Paths\<close>

text \<open>
  \<^verbatim>\<open>Path::parent\<close> and \<^verbatim>\<open>Path::join\<close> on Unix. Empty pieces and single dots do not count as components, except a
  dot at the front of a relative path.
\<close>

fun pieces :: "string \<Rightarrow> string list" where
  "pieces [] = [[]]"
| "pieces (c # cs) =
     (if c = CHR ''/'' then [] # pieces cs else (c # hd (pieces cs)) # tl (pieces cs))"

fun join_pieces :: "string list \<Rightarrow> string" where
  "join_pieces [] = []"
| "join_pieces [s] = s"
| "join_pieces (s # t # ss) = s @ CHR ''/'' # join_pieces (t # ss)"

definition no_component :: "string \<Rightarrow> bool" where
  "no_component s \<longleftrightarrow> s = [] \<or> s = ''.''"

definition trimmed :: "string list \<Rightarrow> string list" where
  "trimmed ss = rev (dropWhile no_component (rev ss))"

definition trimmed_relative :: "string list \<Rightarrow> string list" where
  "trimmed_relative ss =
     (if ss \<noteq> [] \<and> hd ss = ''.'' then ''.'' # trimmed (tl ss) else trimmed ss)"

definition absolute :: "string \<Rightarrow> bool" where
  "absolute p \<longleftrightarrow> p \<noteq> [] \<and> hd p = CHR ''/''"

definition path_parent :: "string \<Rightarrow> string option" where
  "path_parent p =
     (if absolute p then
        let ss = trimmed (pieces (tl p)) in
        if ss = [] then None else Some (CHR ''/'' # join_pieces (trimmed (butlast ss)))
      else
        let ss = trimmed_relative (pieces p) in
        if ss = [] then None else Some (join_pieces (trimmed_relative (butlast ss))))"

definition path_join :: "string \<Rightarrow> string \<Rightarrow> string" where
  "path_join base file =
     (if absolute file then file
      else if base = [] \<or> last base = CHR ''/'' then base @ file
      else base @ CHR ''/'' # file)"

section \<open>The server process\<close>

text \<open>\<open>sa_command\<close> is the password of \<^verbatim>\<open>hash-password\<close>.\<close>

record server_args =
  sa_config :: string
  sa_db :: "string option"
  sa_command :: "string option"

definition db_path :: "server_args \<Rightarrow> string" where
  "db_path args =
     (case sa_db args of
        Some db \<Rightarrow> db
      | None \<Rightarrow>
          (let config_dir = (case path_parent (sa_config args) of Some d \<Rightarrow> d | None \<Rightarrow> ''.'')
           in path_join config_dir ''rustproxy.db''))"

text \<open>
  What a start finds: the libraries, the outcomes of file operations, the faults of the database, the random
  bytes and the ports other programs hold, on the address of the server (\<open>mc_busy\<close>) and on that of the Web panel.
  \<open>mc_databases\<close> gives the rows of the database at a path, \<open>None\<close> if there is no file, \<open>Some None\<close> if SQLite cannot open it.
  \<open>mc_clash\<close> tells whether sockets on two addresses exclude each other on the same port, and \<open>mc_panel_first\<close>
  which of the two spawned tasks binds first.
\<close>

record 'c machine =
  mc_bcrypt_hash :: "string \<Rightarrow> string option"
  mc_toml :: "string \<Rightarrow> toml_doc option"
  mc_databases :: "string \<Rightarrow> proxy_rule_row list option option"
  mc_vec :: vec_json
  mc_certs :: "'c cert_lib"
  mc_https_certs :: "'c cert_lib"
  mc_io :: file_io
  mc_https_io :: file_io
  mc_faults :: "nat \<Rightarrow> bool"
  mc_random :: bytes
  mc_busy :: "bool \<Rightarrow> u16 \<Rightarrow> bool"
  mc_panel_busy :: "u16 \<Rightarrow> bool"
  mc_clash :: "string \<Rightarrow> string \<Rightarrow> bool"
  mc_panel_first :: bool
  mc_files :: files

definition read_to_string :: "file_io \<Rightarrow> string \<Rightarrow> files \<Rightarrow> string option" where
  "read_to_string io path fs = Option.bind (read_file io path fs) from_utf8"

text \<open>\<^verbatim>\<open>ProxyManager::open\<close>; a new file is an empty database. \<^verbatim>\<open>io_mkdir\<close> is about the directory of the path.\<close>

definition open_database ::
  "file_io \<Rightarrow> (string \<Rightarrow> proxy_rule_row list option option) \<Rightarrow> string \<Rightarrow> proxy_rule_row list option" where
  "open_database io databases path =
     (if path_parent path \<noteq> None \<and> \<not> io_mkdir io path then None
      else case databases path of
        None \<Rightarrow> if io_create io path then Some [] else None
      | Some db \<Rightarrow> db)"

text \<open>The sockets of the tunnel and of the panel; \<open>None\<close>: the panel is switched off.\<close>

definition panel_collides :: "'c machine \<Rightarrow> server_config \<Rightarrow> bool" where
  "panel_collides M cfg \<longleftrightarrow>
     web_bind_addr (cfg_web cfg) = bind_addr (cfg_server cfg) \<or>
     mc_clash M (bind_addr (cfg_server cfg)) (web_bind_addr (cfg_web cfg))"

definition bind_services :: "'c machine \<Rightarrow> server_config \<Rightarrow> listener_manager \<Rightarrow> bool \<times> bool option" where
  "bind_services M cfg lm =
     (let tunnel_port = bind_port (cfg_server cfg);
          panel_port = web_bind_port (cfg_web cfg);
          tunnel = bind_ok (mc_busy M) Tcp_Task tunnel_port lm;
          panel = (\<not> mc_panel_busy M panel_port \<and> \<not> (panel_collides M cfg \<and> port_taken False panel_port lm))
      in if \<not> web_enable (cfg_web cfg) then (tunnel, None)
         else if tunnel \<and> panel \<and> panel_collides M cfg \<and> tunnel_port = panel_port
         then (\<not> mc_panel_first M, Some (mc_panel_first M))
         else (tunnel, Some panel))"

text \<open>The ports a running process holds besides those of its listeners, for the address of the listeners.\<close>

definition held_ports ::
  "'c machine \<Rightarrow> server_config \<Rightarrow> bool \<times> bool option \<Rightarrow> bool \<Rightarrow> u16 \<Rightarrow> bool" where
  "held_ports M cfg services udp port \<longleftrightarrow>
     mc_busy M udp port \<or>
     \<not> udp \<and> (fst services \<and> port = bind_port (cfg_server cfg) \<or>
       snd services = Some True \<and> panel_collides M cfg \<and> port = web_bind_port (cfg_web cfg))"

datatype exit_reason =
    Hash_Printed string | Hash_Failed
  | Config_Unreadable string | Config_Invalid | Start_Failed start_error

record 'c process =
  pr_config :: server_config
  pr_started :: "'c started"
  pr_tunnel :: bool
  pr_panel :: "bool option"

definition server_process :: "'c machine \<Rightarrow> server_args \<Rightarrow> (exit_reason + 'c process) \<times> files" where
  "server_process M args =
     (case sa_command args of
        Some password \<Rightarrow>
          (case mc_bcrypt_hash M password of
             None \<Rightarrow> (Inl Hash_Failed, mc_files M)
           | Some hash \<Rightarrow> (Inl (Hash_Printed hash), mc_files M))
      | None \<Rightarrow>
          (case read_to_string (mc_io M) (sa_config args) (mc_files M) of
             None \<Rightarrow> (Inl (Config_Unreadable (sa_config args)), mc_files M)
           | Some config_content \<Rightarrow>
               (case parse_server_config (mc_toml M) config_content of
                  None \<Rightarrow> (Inl Config_Invalid, mc_files M)
                | Some config \<Rightarrow>
                    (case server_main (mc_vec M) (mc_certs M) (mc_https_certs M) (mc_io M) (mc_https_io M)
                            (mc_faults M) (mc_random M) (mc_busy M) config
                            (open_database (mc_io M) (mc_databases M) (db_path args)) (mc_files M) of
                       (Inl e, fs) \<Rightarrow> (Inl (Start_Failed e), fs)
                     | (Inr s, fs) \<Rightarrow>
                         (let config = fill_jwt_secret (mc_random M) config;
                              w = st_world s;
                              services = bind_services M config (listeners_of w);
                              w = (fst w, (snd w)\<lparr>se_busy := held_ports M config services\<rparr>)
                          in (Inr \<lparr>pr_config = config, pr_started = s\<lparr>st_world := w\<rparr>,
                                   pr_tunnel = fst services, pr_panel = snd services\<rparr>, fs))))))"

text \<open>What the panel of a process answers, if it has one, while the state of the process is \<open>st\<close>.\<close>

definition run_web_panel ::
  "(string \<Rightarrow> string) \<Rightarrow> jwt_lib \<Rightarrow> (string \<Rightarrow> bytes option) \<Rightarrow> nat \<Rightarrow> 'c process \<Rightarrow> app_state \<Rightarrow>
   http_method \<Rightarrow> string \<Rightarrow> string option \<Rightarrow> routed option" where
  "run_web_panel nest_path J assets now p st method path auth_header =
     (if pr_panel p = Some True
      then Some (build_app nest_path J assets now (app_config st) method path auth_header) else None)"

text \<open>After \<^verbatim>\<open>ctrl_c\<close>: the task of the tunnel is aborted and all listeners are stopped.\<close>

definition server_shutdown :: "string list \<Rightarrow> 'c process \<Rightarrow> server_world \<Rightarrow> 'c process \<times> server_world" where
  "server_shutdown names p w = (p\<lparr>pr_tunnel := False\<rparr>, set_listeners (stop_all names (listeners_of w)) w)"

section \<open>The client process\<close>

text \<open>Either the configuration is refused, or the process connects for ever; then the delays between its attempts.\<close>

definition client_process ::
  "(string \<Rightarrow> toml_doc option) \<Rightarrow> 'c tls_lib \<Rightarrow> file_io \<Rightarrow> files \<Rightarrow> string \<Rightarrow> connect_outcomes list \<Rightarrow>
   exit_reason + nat list" where
  "client_process toml L io fs config Cs =
     (case read_to_string io config fs of
        None \<Rightarrow> Inl (Config_Unreadable config)
      | Some config_content \<Rightarrow>
          (case parse_client_config toml config_content of
             None \<Rightarrow> Inl Config_Invalid
           | Some cfg \<Rightarrow> Inr (client_main L cfg Cs)))"

section \<open>The database lies beside the configuration\<close>

lemma pieces_nonempty [simp]: "pieces s \<noteq> []"
  by (cases s) simp_all

lemma pieces_single: "CHR ''/'' \<notin> set s \<Longrightarrow> pieces s = [s]"
  by (induction s) auto

lemma pieces_append: "CHR ''/'' \<notin> set s \<Longrightarrow> pieces (s @ CHR ''/'' # t) = s # pieces t"
  by (induction s) auto

definition slash_free :: "string list \<Rightarrow> bool" where
  "slash_free ss \<longleftrightarrow> (\<forall>s \<in> set ss. CHR ''/'' \<notin> set s)"

lemma pieces_slash_free [simp]: "slash_free (pieces s)"
proof (induction s)
  case (Cons c s)
  then show ?case
    by (cases "pieces s") (auto simp: slash_free_def)
qed (simp add: slash_free_def)

lemma pieces_join: "ss \<noteq> [] \<Longrightarrow> slash_free ss \<Longrightarrow> pieces (join_pieces ss) = ss"
  by (induction ss rule: join_pieces.induct) (auto simp: slash_free_def pieces_single pieces_append)

lemma join_snoc: "ss \<noteq> [] \<Longrightarrow> join_pieces (ss @ [s]) = join_pieces ss @ CHR ''/'' # s"
  by (induction ss rule: join_pieces.induct) simp_all

lemma join_last:
  assumes "ss \<noteq> []" "slash_free ss" "last ss \<noteq> []"
  shows "join_pieces ss \<noteq> [] \<and> last (join_pieces ss) \<noteq> CHR ''/''"
  using assms
  by (induction ss rule: join_pieces.induct) (use last_in_set in \<open>fastforce simp: slash_free_def split: if_splits\<close>)+

lemma trimmed_last: "trimmed ss = [] \<or> \<not> no_component (last (trimmed ss))"
  using hd_dropWhile [of no_component "rev ss"] by (auto simp: trimmed_def last_rev)

lemma trimmed_snoc [simp]: "\<not> no_component s \<Longrightarrow> trimmed (ss @ [s]) = ss @ [s]"
  by (simp add: trimmed_def)

lemma trimmed_idem [simp]: "trimmed (trimmed ss) = trimmed ss"
  by (simp add: trimmed_def)

lemma trimmed_subset: "set (trimmed ss) \<subseteq> set ss"
  by (auto simp: trimmed_def dest: set_dropWhileD)

lemma trimmed_slash_free: "slash_free ss \<Longrightarrow> slash_free (trimmed ss)"
  using trimmed_subset by (fastforce simp: slash_free_def)

lemma trimmed_relative_slash_free: "slash_free ss \<Longrightarrow> slash_free (trimmed_relative ss)"
  using trimmed_slash_free [of ss] trimmed_slash_free [of "tl ss"]
  by (cases ss) (auto simp: trimmed_relative_def slash_free_def)

lemma butlast_slash_free: "slash_free ss \<Longrightarrow> slash_free (butlast ss)"
  by (auto simp: slash_free_def dest: in_set_butlastD)

text \<open>The parent of a file put into a trimmed directory is that directory.\<close>

lemma parent_of_absolute:
  assumes "slash_free ss" "trimmed ss = ss" "\<not> no_component file" "CHR ''/'' \<notin> set file"
  shows "path_parent (path_join (CHR ''/'' # join_pieces ss) file) = Some (CHR ''/'' # join_pieces ss)"
proof -
  have na: "\<not> absolute file" using assms(4) by (cases "file") (auto simp: absolute_def)
  have j: "path_join (CHR ''/'' # join_pieces ss) file = CHR ''/'' # join_pieces (ss @ [file])"
  proof (cases "ss = []")
    case True
    then show ?thesis using na by (simp add: path_join_def)
  next
    case False
    have "last (join_pieces ss) \<noteq> CHR ''/''" "join_pieces ss \<noteq> []"
      using assms(1,2) False trimmed_last [of ss] join_last [OF False] by (auto simp: no_component_def)
    then show ?thesis using na False by (simp add: path_join_def join_snoc)
  qed
  have "slash_free (ss @ [file])" using assms(1,4) by (auto simp: slash_free_def)
  then have p: "pieces (join_pieces (ss @ [file])) = ss @ [file]" by (intro pieces_join) simp_all
  show ?thesis
    unfolding j using assms(2,3) by (simp add: path_parent_def absolute_def p Let_def)
qed

lemma trimmed_relative_snoc:
  assumes "trimmed_relative ss = ss" "\<not> no_component s"
  shows "trimmed_relative (ss @ [s]) = ss @ [s]"
proof (cases ss)
  case Nil
  then show ?thesis using assms(2) by (auto simp: trimmed_relative_def no_component_def trimmed_def)
next
  case (Cons x xs)
  then show ?thesis using assms by (simp add: trimmed_relative_def flip: append_Cons)
qed

lemma trimmed_relative_last:
  assumes "trimmed_relative ss = ss" "ss \<noteq> []"
  shows "last ss \<noteq> []"
proof (cases "hd ss = ''.''")
  case True
  with assms have "ss = ''.'' # trimmed (tl ss)" by (simp add: trimmed_relative_def)
  with trimmed_last [of "tl ss"] show ?thesis
    by (metis last.simps list.distinct(1) no_component_def)
next
  case False
  with assms trimmed_last [of ss] show ?thesis by (simp add: trimmed_relative_def no_component_def)
qed

lemma parent_of_relative:
  assumes "slash_free ss" "trimmed_relative ss = ss" "ss = [] \<or> hd ss \<noteq> []"
    and "\<not> no_component file" "CHR ''/'' \<notin> set file"
  shows "path_parent (path_join (join_pieces ss) file) = Some (join_pieces ss)"
proof -
  have na: "\<not> absolute file" using assms(5) by (cases "file") (auto simp: absolute_def)
  have j: "path_join (join_pieces ss) file = join_pieces (ss @ [file])"
  proof (cases "ss = []")
    case True
    then show ?thesis using na by (simp add: path_join_def)
  next
    case False
    from trimmed_relative_last [OF assms(2) False]
    have "last (join_pieces ss) \<noteq> CHR ''/''" "join_pieces ss \<noteq> []"
      using join_last [OF False assms(1)] by simp_all
    then show ?thesis using na False by (simp add: path_join_def join_snoc)
  qed
  have sf: "slash_free (ss @ [file])" using assms(1,5) by (auto simp: slash_free_def)
  then have p: "pieces (join_pieces (ss @ [file])) = ss @ [file]" by (intro pieces_join) simp_all
  have "absolute (join_pieces (ss @ [file])) \<longleftrightarrow> False"
  proof -
    have "\<exists>c cs more. join_pieces (ss @ [file]) = c # more \<and> c # cs = hd (ss @ [file])"
      using assms(3,4) by (cases ss; cases "hd (ss @ [file])"; cases "tl ss") (auto simp: no_component_def)
    then obtain c cs more where c: "join_pieces (ss @ [file]) = c # more" "c # cs = hd (ss @ [file])" by blast
    have "hd (ss @ [file]) \<in> set (ss @ [file])" by (rule hd_in_set) simp
    with sf c(2) have "c \<noteq> CHR ''/''" unfolding slash_free_def by (metis list.set_intros(1))
    then show ?thesis by (simp add: absolute_def c(1))
  qed
  with trimmed_relative_snoc [OF assms(2,4)] assms(2) show ?thesis
    unfolding j by (simp add: path_parent_def p Let_def)
qed

lemma trimmed_relative_idem [simp]: "trimmed_relative (trimmed_relative ss) = trimmed_relative ss"
proof (cases "ss \<noteq> [] \<and> hd ss = ''.''")
  case True
  then show ?thesis by (simp add: trimmed_relative_def)
next
  case False
  have "hd (trimmed ss) = hd ss" if "trimmed ss \<noteq> []"
  proof -
    have "ss = trimmed ss @ rev (takeWhile no_component (rev ss))"
      unfolding trimmed_def by (metis rev_append rev_rev_ident takeWhile_dropWhile_id)
    with that show ?thesis by (metis hd_append2)
  qed
  moreover have "ss \<noteq> []" if "trimmed ss \<noteq> []" using that by (auto simp: trimmed_def)
  ultimately show ?thesis using False by (auto simp: trimmed_relative_def)
qed

lemma trimmed_relative_hd: "trimmed_relative ss \<noteq> [] \<Longrightarrow> hd (trimmed_relative ss) = hd ss"
proof -
  assume a: "trimmed_relative ss \<noteq> []"
  have "ss = trimmed ss @ rev (takeWhile no_component (rev ss))"
    unfolding trimmed_def by (metis rev_append rev_rev_ident takeWhile_dropWhile_id)
  then have "trimmed ss \<noteq> [] \<Longrightarrow> hd (trimmed ss) = hd ss" by (metis hd_append2)
  with a show ?thesis by (auto simp: trimmed_relative_def)
qed

lemma hd_pieces: "\<not> absolute p \<Longrightarrow> trimmed_relative (pieces p) \<noteq> [] \<Longrightarrow> hd (pieces p) \<noteq> []"
  by (cases p) (auto simp: absolute_def trimmed_relative_def trimmed_def no_component_def)

lemma database_beside_config:
  assumes "sa_db args = None" and "path_parent (sa_config args) = Some dir"
  shows "path_parent (db_path args) = Some dir"
proof -
  have f: "\<not> no_component ''rustproxy.db''" "CHR ''/'' \<notin> set ''rustproxy.db''" by (simp_all add: no_component_def)
  have db: "db_path args = path_join dir ''rustproxy.db''" using assms by (simp add: db_path_def)
  show ?thesis
  proof (cases "absolute (sa_config args)")
    case True
    let ?ss = "trimmed (butlast (trimmed (pieces (tl (sa_config args)))))"
    have "dir = CHR ''/'' # join_pieces ?ss"
      using assms(2) True by (auto simp: path_parent_def Let_def split: if_splits)
    moreover have "slash_free ?ss" by (intro trimmed_slash_free butlast_slash_free pieces_slash_free)
    ultimately show ?thesis using parent_of_absolute [of ?ss, OF _ _ f] db by simp
  next
    case False
    let ?s = "trimmed_relative (pieces (sa_config args))"
    let ?ss = "trimmed_relative (butlast ?s)"
    have dir: "dir = join_pieces ?ss" and ne: "?s \<noteq> []"
      using assms(2) False by (auto simp: path_parent_def Let_def split: if_splits)
    have sf: "slash_free ?ss"
      by (intro trimmed_relative_slash_free butlast_slash_free pieces_slash_free)
    have "hd ?ss \<noteq> []" if "?ss \<noteq> []"
    proof -
      have "butlast ?s \<noteq> []" using that by (auto simp: trimmed_relative_def trimmed_def)
      then have "hd (butlast ?s) = hd ?s" by (cases ?s) auto
      with trimmed_relative_hd [OF that] trimmed_relative_hd [OF ne] hd_pieces [OF False ne]
      show ?thesis by simp
    qed
    then have "path_parent (path_join (join_pieces ?ss) ''rustproxy.db'') = Some (join_pieces ?ss)"
      by (intro parent_of_relative [OF sf trimmed_relative_idem _ f]) blast
    then show ?thesis by (simp only: db dir)
  qed
qed

end
