(* ===== verification/Start_Props.thy ===== *)
theory Start_Props
  imports Program_Start
begin

text \<open>
  What the start of a server process brings up and what keeps it down (the ports taken by the rules, the shared listeners,
  the tunnel and the Web panel), which files it writes, and what is left after the shutdown.
\<close>

section \<open>Ports taken during a start\<close>

lemma port_taken_ex:
  "port_taken udp port lm \<longleftrightarrow>
     (\<exists>i < lm_spawned lm. \<exists>t. lm_tasks lm i = Some t \<and> udp_socket (lt_kind t) = udp \<and> lt_port t = port)"
  by (auto simp: port_taken_def list_ex_iff split: option.splits)

lemma spawn_keeps_port:
  assumes "port_taken udp port lm" "lm_tasks lm' = (lm_tasks lm)(lm_spawned lm \<mapsto> t)"
    and "lm_spawned lm' = lm_spawned lm + 1"
  shows "port_taken udp port lm'"
proof -
  from assms(1) obtain i u where "i < lm_spawned lm" "lm_tasks lm i = Some u"
    "udp_socket (lt_kind u) = udp" "lt_port u = port"
    by (auto simp: port_taken_ex)
  then show ?thesis unfolding port_taken_ex by (intro exI [of _ i] exI [of _ u] conjI) (simp_all add: assms(2,3))
qed

lemma spawn_takes_port:
  assumes "lm_tasks lm' = (lm_tasks lm)(lm_spawned lm \<mapsto> t)" "lm_spawned lm' = lm_spawned lm + 1"
  shows "port_taken (udp_socket (lt_kind t)) (lt_port t) lm'"
  unfolding port_taken_ex by (intro exI [of _ "lm_spawned lm"] exI [of _ t]) (simp add: assms)

lemma start_stream_port:
  assumes "start_stream_listener kind busy name port cid lm = (ok, lm')"
  shows "port_taken udp p lm \<Longrightarrow> port_taken udp p lm'" and "\<not> bind_ok busy kind port lm'"
proof -
  let ?t = "\<lparr>lt_kind = kind, lt_name = name, lt_port = port, lt_client = cid\<rparr>"
  have "(port_taken udp p lm \<longrightarrow> port_taken udp p lm') \<and> \<not> bind_ok busy kind port lm'"
  proof (cases "bind_ok busy kind port lm")
    case True
    then have l: "lm_tasks lm' = (lm_tasks lm)(lm_spawned lm \<mapsto> ?t)" "lm_spawned lm' = lm_spawned lm + 1"
      using assms by (auto simp: start_stream_listener_def spawn_task_def)
    show ?thesis
      using spawn_keeps_port [OF _ l, of udp p] spawn_takes_port [OF l] by (simp add: bind_ok_def)
  next
    case False
    then show ?thesis using assms by (simp add: start_stream_listener_def)
  qed
  then show "port_taken udp p lm \<Longrightarrow> port_taken udp p lm'" "\<not> bind_ok busy kind port lm'" by blast+
qed

lemma start_proxy_port:
  assumes "start_proxy_listener busy rule lm = (ok, lm')"
  shows "port_taken udp p lm \<Longrightarrow> port_taken udp p lm'"
    and "r_type rule = Tcp \<Longrightarrow> r_remote_port rule \<noteq> 0 \<Longrightarrow> \<not> bind_ok busy Tcp_Task (r_remote_port rule) lm'"
proof -
  show "port_taken udp p lm \<Longrightarrow> port_taken udp p lm'"
    using assms start_stream_port(1) [of _ busy "r_name rule" "r_remote_port rule" "r_client_id rule" lm ok lm' udp p]
    by (cases "r_type rule") (auto simp: start_proxy_listener.simps start_tcp_listener_def start_udp_listener_def
        register_domain_route_def port_taken_ex split: if_splits)
  show "r_type rule = Tcp \<Longrightarrow> r_remote_port rule \<noteq> 0 \<Longrightarrow> \<not> bind_ok busy Tcp_Task (r_remote_port rule) lm'"
    using assms start_stream_port(2) [of Tcp_Task busy "r_name rule" "r_remote_port rule" "r_client_id rule" lm ok lm']
    by (simp add: start_proxy_listener.simps start_tcp_listener_def)
qed

lemma shared_port:
  assumes "port_taken udp p lm"
  shows "port_taken udp p (snd (start_http_listener busy q lm))"
    and "port_taken udp p (snd (start_https_listener busy q lm))"
  using assms spawn_keeps_port [OF assms]
  by (simp_all add: start_http_listener_def start_https_listener_def spawn_task_def)

lemma on_pm_env [simp]: "snd (on_pm f w) = snd w"
  by (simp add: on_pm_def)

lemma start_existing_env:
  "listeners_of (start_existing r w) = snd (start_proxy_listener (se_busy (snd w)) r (listeners_of w))"
  "se_busy (snd (start_existing r w)) = se_busy (snd w)"
  by (simp_all add: start_existing_def Let_def split: prod.splits)

lemma start_existing_port:
  "port_taken udp p (listeners_of w) \<Longrightarrow> port_taken udp p (listeners_of (start_existing r w))"
  using start_proxy_port(1) [of "se_busy (snd w)" r "listeners_of w"]
  by (cases "start_proxy_listener (se_busy (snd w)) r (listeners_of w)") (simp add: start_existing_env)

lemma start_all_port:
  "port_taken udp p (listeners_of w) \<Longrightarrow> port_taken udp p (listeners_of (fold start_existing rs w))"
  by (induction rs arbitrary: w) (simp_all add: start_existing_port)

lemma start_all_busy: "se_busy (snd (fold start_existing rs w)) = se_busy (snd w)"
  by (induction rs arbitrary: w) (simp_all add: start_existing_env)

lemma start_all_takes:
  assumes "r \<in> set rs" "r_type r = Tcp" "r_remote_port r \<noteq> 0" "\<not> se_busy (snd w) False (r_remote_port r)"
  shows "port_taken False (r_remote_port r) (listeners_of (fold start_existing rs w))"
  using assms
proof (induction rs arbitrary: w)
  case (Cons q rs)
  show ?case
  proof (cases "q = r")
    case True
    obtain ok lm' where s: "start_proxy_listener (se_busy (snd w)) q (listeners_of w) = (ok, lm')"
      by (cases "start_proxy_listener (se_busy (snd w)) q (listeners_of w)")
    have "port_taken False (r_remote_port r) lm'"
      using start_proxy_port(2) [OF s] Cons.prems True by (simp add: bind_ok_def)
    then have "port_taken False (r_remote_port r) (listeners_of (start_existing q w))"
      by (simp add: start_existing_env s)
    then show ?thesis by (simp add: start_all_port)
  next
    case False
    with Cons show ?thesis by (simp add: start_existing_env)
  qed
qed simp

lemma register_all_port:
  "port_taken udp p (listeners_of (fold register_existing rs w)) = port_taken udp p (listeners_of w)"
  by (induction rs arbitrary: w) (simp_all add: register_existing_def register_domain_route_def port_taken_def)

text \<open>After a start nobody else gets the port of a stored TCP rule, whatever the order of the rules.\<close>

lemma boot_takes_port:
  assumes "row \<in> set rows" "rule_of_row V row = r" "r_type r = Tcp" "r_remote_port r \<noteq> 0" "\<not> F 1"
  shows "\<not> bind_ok busy Tcp_Task (r_remote_port r) (listeners_of (server_boot V F random busy cfg rows))"
proof (cases "busy False (r_remote_port r)")
  case False
  let ?cfg = "fill_jwt_secret random cfg"
  let ?w0 = "(app_with_db ?cfg rows, \<lparr>se_sessions = session_manager_new,
      se_listeners = listener_manager_new, se_busy = busy\<rparr>)"
  let ?w1 = "on_pm (load_from_db V (F 0)) ?w0"
  let ?w2 = "start_existing_listeners V (F 1) ?w1"
  have "map pe_rule (list_proxies V False (pm_of ?w1)) = map (rule_of_row V) rows"
    by (simp add: list_proxies_def query_all_rules_def entry_of_def Let_def comp_def load_from_db_def load_rules
        app_with_db_def open_manager_def)
  then have "r \<in> set (map pe_rule (list_proxies V (F 1) (pm_of ?w1)))" using assms(1,2,5) by auto
  then have t2: "port_taken False (r_remote_port r) (listeners_of ?w2)"
    unfolding start_existing_listeners_def by (rule start_all_takes) (use assms(3,4) False in simp_all)
  then show ?thesis
    unfolding server_boot_def Let_def register_existing_domain_routes_def
    by (simp add: register_all_port shared_port bind_ok_def)
qed (simp add: bind_ok_def)

section \<open>Shutdown\<close>

lemma stop_listener_tables:
  "lm_listeners (stop_listener n lm) = (lm_listeners lm)(n := None)"
  "lm_http_listener (stop_listener n lm) = lm_http_listener lm"
  "lm_https_listener (stop_listener n lm) = lm_https_listener lm"
  by (auto simp: stop_listener_def abort_task_def fun_eq_iff split: option.splits)

lemma stop_each:
  "lm_inv lm \<Longrightarrow> lm_inv (fold stop_listener names lm) \<and>
   (\<forall>n. lm_listeners (fold stop_listener names lm) n = (if n \<in> set names then None else lm_listeners lm n))"
  by (induction names arbitrary: lm) (auto simp: stop_listener_simps stop_listener_tables)

text \<open>Aborting the two shared tasks after that leaves no task.\<close>

lemma no_streams:
  assumes "lm_inv lm" "\<And>n. lm_listeners lm n = None" "lm_tasks lm i = Some t"
  shows "lm_http_listener lm = Some i \<or> lm_https_listener lm = Some i"
proof -
  have "\<not> stream_kind (lt_kind t)"
    using assms unfolding lm_inv_def no_detached_def by (metis option.distinct(1))
  then have "lt_kind t = Http_Task \<or> lt_kind t = Https_Task" by (cases "lt_kind t") simp_all
  with assms(1,3) show ?thesis unfolding lm_inv_def shared_sound_def by blast
qed

lemma stop_all_ends:
  assumes "lm_inv lm" "set names = dom (lm_listeners lm)"
  shows "lm_tasks (stop_all names lm) i = None"
proof -
  let ?lm = "fold stop_listener names lm"
  have n: "lm_listeners ?lm n = None" for n
    using stop_each [OF assms(1), of names] assms(2) by auto
  have inv: "lm_inv ?lm" using stop_each [OF assms(1)] by blast
  have "lm_tasks (stop_all names lm) i =
    (if lm_http_listener ?lm = Some i \<or> lm_https_listener ?lm = Some i then None else lm_tasks ?lm i)"
    by (auto simp: stop_all_def Let_def abort_task_def split: option.splits)
  with no_streams [OF inv n, of i] show ?thesis by (cases "lm_tasks ?lm i") auto
qed

text \<open>After the shutdown of a consistent server no port is held by it, and its rules are where they were.\<close>

lemma shutdown_frees_ports:
  assumes "sys_inv V w" "set names = dom (lm_listeners (listeners_of w))"
    and "server_shutdown names p w = (p', w')"
  shows "\<not> port_taken udp port (listeners_of w')" "\<not> pr_tunnel p'" "rules_of V w' = rules_of V w"
proof -
  have "lm_inv (listeners_of w)" using assms(1) by (simp add: sys_inv_def sys_ok_def)
  note ends = stop_all_ends [OF this assms(2)]
  show "\<not> port_taken udp port (listeners_of w')" "\<not> pr_tunnel p'" "rules_of V w' = rules_of V w"
    using assms(3) ends by (auto simp: server_shutdown_def port_taken_ex)
qed

section \<open>What a start leaves\<close>

text \<open>The only files a start writes are the certificate and the key its configuration names.\<close>

lemma certificate_files_only:
  assumes "build_server_tls_config L io tls fs = (res, fs')" "fs' path \<noteq> fs path"
  shows "path = cert_file tls \<or> path = key_file tls"
  using assms
  by (auto simp: build_server_tls_config_def get_or_create_cert_def save_cert_to_files_def write_file_def Let_def
      split: sum.splits prod.splits option.splits if_splits)

lemma server_main_files:
  assumes "server_main V L L' io io' F random busy cfg rows fs = (res, fs')" "fs' path \<noteq> fs path"
  shows "path = cert_file (cfg_tls cfg) \<or> path = key_file (cfg_tls cfg)"
proof (rule ccontr)
  assume n: "\<not> ?thesis"
  have same: "fs2 path = fs1 path" if "build_server_tls_config L io (cfg_tls cfg) fs1 = (r, fs2)" for L io fs1 fs2 r
    using certificate_files_only [OF that, of path] n by blast
  have "fs' path = fs path"
    using assms(1) by (auto simp: server_main_def Let_def split: prod.splits sum.splits option.splits if_splits
        dest!: same)
  with assms(2) show False by simp
qed

lemma start_writes_only_certificate:
  assumes "server_process M args = (res, fs)" "fs path \<noteq> mc_files M path"
  obtains content cfg where "sa_command args = None"
    "read_to_string (mc_io M) (sa_config args) (mc_files M) = Some content"
    "parse_server_config (mc_toml M) content = Some cfg"
    "path = cert_file (cfg_tls cfg) \<or> path = key_file (cfg_tls cfg)"
proof -
  from assms obtain content cfg where c: "sa_command args = None"
    "read_to_string (mc_io M) (sa_config args) (mc_files M) = Some content"
    "parse_server_config (mc_toml M) content = Some cfg"
    by (auto simp: server_process_def split: option.splits)
  obtain r fs1 where m: "server_main (mc_vec M) (mc_certs M) (mc_https_certs M) (mc_io M) (mc_https_io M)
      (mc_faults M) (mc_random M) (mc_busy M) cfg
      (open_database (mc_io M) (mc_databases M) (db_path args)) (mc_files M) = (r, fs1)" by fastforce
  have "fs1 = fs" using assms(1) c m by (auto simp: server_process_def Let_def split: sum.splits)
  from that [OF c server_main_files [OF m]] this assms(2) show ?thesis by blast
qed

section \<open>Properties\<close>

text \<open>A started process, in its parts.\<close>

lemma server_process_Inr:
  assumes "server_process M args = (Inr p, fs)"
  obtains content cfg rows boot where
    "read_to_string (mc_io M) (sa_config args) (mc_files M) = Some content"
    "parse_server_config (mc_toml M) content = Some cfg"
    "open_database (mc_io M) (mc_databases M) (db_path args) = Some rows"
    "boot = server_boot (mc_vec M) (mc_faults M) (mc_random M) (mc_busy M) cfg rows"
    "pr_config p = fill_jwt_secret (mc_random M) cfg"
    "(pr_tunnel p, pr_panel p) = bind_services M (pr_config p) (listeners_of boot)"
    "listeners_of (st_world (pr_started p)) = listeners_of boot"
    "pm_of (st_world (pr_started p)) = pm_of boot"
proof -
  from assms obtain content cfg where c: "sa_command args = None"
    "read_to_string (mc_io M) (sa_config args) (mc_files M) = Some content"
    "parse_server_config (mc_toml M) content = Some cfg"
    by (auto simp: server_process_def split: option.splits)
  obtain r fs1 where m: "server_main (mc_vec M) (mc_certs M) (mc_https_certs M) (mc_io M) (mc_https_io M)
      (mc_faults M) (mc_random M) (mc_busy M) cfg
      (open_database (mc_io M) (mc_databases M) (db_path args)) (mc_files M) = (r, fs1)" by fastforce
  with assms c obtain s where r: "r = Inr s" by (cases r) (auto simp: server_process_def)
  from m [unfolded r] show ?thesis
  proof (rule server_main_Inr)
    fix rs fs2
    assume d: "open_database (mc_io M) (mc_databases M) (db_path args) = Some rs"
      and b: "st_world s = server_boot (mc_vec M) (mc_faults M) (mc_random M) (mc_busy M) cfg rs"
    show ?thesis
      by (rule that [OF c(2,3) d b]) (use assms c m r in \<open>auto simp: server_process_def Let_def\<close>)
  qed
qed

text \<open>It is consistent, and its tokens are signed with a secret.\<close>

lemma process_consistent:
  assumes "server_process M args = (Inr p, fs)" "\<not> mc_faults M 0" "mc_random M \<noteq> []"
    and "\<And>rows. open_database (mc_io M) (mc_databases M) (db_path args) = Some rows \<Longrightarrow> distinct (map row_name rows)"
  shows "sys_inv (mc_vec M) (st_world (pr_started p))" "jwt_secret (cfg_web (pr_config p)) \<noteq> []"
proof -
  have "sys_inv (mc_vec M) (st_world (pr_started p)) \<and> jwt_secret (cfg_web (pr_config p)) \<noteq> []"
    using assms(1)
  proof (rule server_process_Inr)
    fix content cfg rows boot
    assume d: "open_database (mc_io M) (mc_databases M) (db_path args) = Some rows"
      and w: "boot = server_boot (mc_vec M) (mc_faults M) (mc_random M) (mc_busy M) cfg rows"
      and c: "pr_config p = fill_jwt_secret (mc_random M) cfg"
      and l: "listeners_of (st_world (pr_started p)) = listeners_of boot"
        "pm_of (st_world (pr_started p)) = pm_of boot"
    have "sys_inv (mc_vec M) boot"
      unfolding w by (rule server_boot_sys) (rule assms(4) [OF d], rule assms(2))
    then have "sys_inv (mc_vec M) (st_world (pr_started p))" by (rule sys_inv_same [OF _ l(2,1)])
    moreover have "jwt_secret (cfg_web (pr_config p)) \<noteq> []"
      using assms(3) by (cases "mc_random M") (simp_all add: c fill_jwt_secret_def generate_random_secret_def)
    ultimately show ?thesis by blast
  qed
  then show "sys_inv (mc_vec M) (st_world (pr_started p))" "jwt_secret (cfg_web (pr_config p)) \<noteq> []" by blast+
qed

lemma no_tunnel:
  "\<not> bind_ok (mc_busy M) Tcp_Task (bind_port (cfg_server cfg)) lm \<Longrightarrow> \<not> fst (bind_services M cfg lm)"
  by (simp add: bind_services_def Let_def)

text \<open>
  C35. A rule can take the server off the air. A TCP rule whose remote port is the tunnel port of the server is accepted and
  stored (the answer is 200, with status \<^verbatim>\<open>error\<close> since the port is held by the tunnel). At every later start on that
  database the listeners of the rules come first: whatever other programs hold and whatever the
  other rules are, the process serves without its tunnel, so that no client can connect.
\<close>
theorem rule_takes_tunnel_port:
  assumes "vec_json_ok V" and "sys_inv V w" and "se_busy (snd w) False (cr_remote_port payload)"
    and "create_proxy (server_params U V J jwt bc) no_faults payload w = (resp, w')"
    and "rsp_code resp = 200" and "api_proxy_type (cr_type payload) = Some Tcp"
    and "mc_vec M = V" and "\<not> mc_faults M 1"
    and "open_database (mc_io M) (mc_databases M) (db_path args) = Some (pool (pm_of w'))"
    and "server_process M args = (Inr p, fs)"
    and "bind_port (cfg_server (pr_config p)) = cr_remote_port payload"
  shows "rules_of V w' (cr_name payload) = Some (create_rule Tcp payload) \<and>
    map_option pi_status (rsp_data resp) = Some ''error'' \<and> \<not> pr_tunnel p"
proof (intro conjI)
  have st: "stream_type Tcp" by simp
  note created = create_reports_listener [OF assms(1,2,4-6) st]
  have "\<not> bind_ok (se_busy (snd w)) (kind_of Tcp) (cr_remote_port payload) (listeners_of w)"
    using assms(3) by (simp add: bind_ok_def)
  with created show "rules_of V w' (cr_name payload) = Some (create_rule Tcp payload)"
    "map_option pi_status (rsp_data resp) = Some ''error''" by simp_all
  let ?r = "create_rule Tcp payload"
  from created have "rules_of V w' (cr_name payload) = Some ?r" by blast
  then obtain row where "find (\<lambda>q. row_name q = cr_name payload) (pool (pm_of w')) = Some row"
    and q: "rule_of_row V row = ?r"
    by (auto simp: rules_of_def lookup_rule_def query_rule_def)
  then have row: "row \<in> set (pool (pm_of w'))" by (auto simp: find_Some_iff)
  have port: "r_remote_port ?r = cr_remote_port payload" "r_type ?r = Tcp" by (simp_all add: create_rule_def)
  from assms(4,5) have "\<forall>c \<in> set (create_checks U payload). c = Inr ()"
    by (cases rule: create_proxy_cases) auto
  from create_checks_valid(2) [OF this assms(6)] have p0: "r_remote_port ?r \<noteq> 0"
    by (simp add: remote_port_ok_def create_rule_def)
  from assms(10) show "\<not> pr_tunnel p"
  proof (rule server_process_Inr)
    fix content cfg rows boot
    assume d: "open_database (mc_io M) (mc_databases M) (db_path args) = Some rows"
      and w: "boot = server_boot (mc_vec M) (mc_faults M) (mc_random M) (mc_busy M) cfg rows"
      and b: "(pr_tunnel p, pr_panel p) = bind_services M (pr_config p) (listeners_of boot)"
    have "\<not> bind_ok (mc_busy M) Tcp_Task (r_remote_port ?r) (listeners_of boot)"
      unfolding w assms(7) by (rule boot_takes_port [OF _ q port(2) p0])
        (use d assms(8,9) row in simp_all)
    with no_tunnel [of M "pr_config p" "listeners_of boot"] assms(11) port(1) b show ?thesis
      by (metis fst_conv)
  qed
qed

text \<open>A server on ports 7000 and 7500 with the sample document as its configuration.\<close>

definition sample_machine :: "proxy_rule_row list \<Rightarrow> identity machine" where
  "sample_machine rows =
     \<lparr>mc_bcrypt_hash = (\<lambda>_. None), mc_toml = (\<lambda>_. Some sample_doc), mc_databases = (\<lambda>_. Some (Some rows)),
      mc_vec = sample_vec_json, mc_certs = sample_cert_lib [1], mc_https_certs = sample_cert_lib [1],
      mc_io = no_io_error, mc_https_io = no_io_error, mc_faults = no_faults, mc_random = [1],
      mc_busy = free_ports, mc_panel_busy = (\<lambda>_. False), mc_clash = (\<lambda>_ _. False), mc_panel_first = False,
      mc_files = [''server.toml'' \<mapsto> []]\<rparr>"

definition sample_args :: server_args where
  "sample_args = \<lparr>sa_config = ''server.toml'', sa_db = None, sa_command = None\<rparr>"

lemma sample_process:
  "\<exists>p. server_process (sample_machine rows) sample_args = (Inr p, [''server.toml'' \<mapsto> []]) \<and>
     cfg_server (pr_config p) =
       \<lparr>bind_addr = ''0.0.0.0'', bind_port = 7000, srv_token = ''test-token'', http_port = 0, https_port = 0\<rparr> \<and>
     web_bind_port (cfg_web (pr_config p)) = 7500"
proof -
  have u: "from_utf8 [] = Some []" using from_utf8_ascii [of "[]"] by (simp add: ascii_def)
  have d: "open_database no_io_error (\<lambda>_. Some (Some rows)) p = Some rows" for p
    by (simp add: open_database_def no_io_error_def)
  have k: "cb_server_config (sample_cert_lib [1]) [[1]] (Pkcs8 [1]) = Some ([[1]], Pkcs8 [1])"
    by (simp add: sample_cert_lib_def)
  have b: "build_server_tls_config (sample_cert_lib [1]) no_io_error \<lparr>auto_cert = True, cert_file = [], key_file = []\<rparr> fs =
      (Inr ([[1]], Pkcs8 [1]), fs)" for fs
    by (simp add: build_server_tls_config_def get_or_create_cert_def sample_generate k)
  let ?srv = "\<lparr>bind_addr = ''0.0.0.0'', bind_port = 7000, srv_token = ''test-token'', http_port = 0, https_port = 0\<rparr>"
  obtain cfg where cfg: "parse_server_config (\<lambda>_. Some sample_doc) [] = Some cfg"
    "cfg_tls cfg = \<lparr>auto_cert = True, cert_file = [], key_file = []\<rparr>" "cfg_server cfg = ?srv"
    "web_bind_port (cfg_web cfg) = 7500"
    using sample_doc_config by (metis server_config.select_convs(1-3) web_section.select_convs(3))
  have r: "read_to_string no_io_error ''server.toml'' [''server.toml'' \<mapsto> []] = Some []"
    by (simp add: read_to_string_def read_file_def no_io_error_def u)
  obtain s where m: "server_main sample_vec_json (sample_cert_lib [1]) (sample_cert_lib [1]) no_io_error no_io_error
      no_faults [1] free_ports cfg (Some rows) [''server.toml'' \<mapsto> []] = (Inr s, [''server.toml'' \<mapsto> []])"
    by (simp add: server_main_def cfg b Let_def)
  have "cfg_server (fill_jwt_secret [1] cfg) = ?srv" "web_bind_port (cfg_web (fill_jwt_secret [1] cfg)) = 7500"
    by (simp_all add: fill_jwt_secret_def cfg)
  then show ?thesis
    by (simp add: server_process_def sample_machine_def sample_args_def r cfg(1) d m Let_def)
qed

lemma sample_tunnel_checks:
  "\<forall>c \<in> set (create_checks U (sample_create ''web'' ''tcp'' 7000 [])). c = Inr ()"
  by (simp add: create_checks_def sample_create_def sample_ip validate_proxy_name_def
      Api.validate_client_id_def chars_ascii ascii_def is_alphanumeric_def ascii_alphanumeric_def)

theorem rule_takes_tunnel_port_witness:
  "\<exists>resp w' p fs. create_proxy sample_server_params no_faults (sample_create ''web'' ''tcp'' 7000 [])
      (fst (sample_server []), (snd (sample_server []))\<lparr>se_busy := \<lambda>udp port. port = 7000\<rparr>) = (resp, w') \<and>
    rsp_code resp = 200 \<and>
    server_process (sample_machine (pool (pm_of w'))) sample_args = (Inr p, fs) \<and> \<not> pr_tunnel p"
proof -
  let ?w = "(fst (sample_server []), (snd (sample_server []))\<lparr>se_busy := \<lambda>udp port. port = 7000\<rparr>)"
  let ?c = "sample_create ''web'' ''tcp'' 7000 []"
  obtain resp w' where e: "create_proxy sample_server_params no_faults ?c ?w = (resp, w')"
    by (cases "create_proxy sample_server_params no_faults ?c ?w")
  have "sys_inv sample_vec_json (sample_server [])" by (rule sample_server_sys) simp
  then have inv: "sys_inv sample_vec_json ?w" by (rule sys_inv_same) simp_all
  then have pmi: "pm_inv (pm_of ?w)" by (simp add: sys_inv_def)
  have t: "api_proxy_type (cr_type ?c) = Some Tcp" by (simp add: sample_create_def api_proxy_type_def)
  have "rules_of sample_vec_json (sample_server []) = Map.empty" by (rule ext) (simp add: sample_server_rules)
  then have none: "rules_of sample_vec_json ?w = Map.empty" by (simp add: rules_of_def)
  have ex: "api_exec sample_server_params no_faults (Create ?c) ?w = (rsp_code resp, w')" using e by simp
  have "api_spec (\<lambda>_. False) (Create ?c) Map.empty = (rsp_code resp, rules_of sample_vec_json w')"
    using server.api_exec_spec(1) [OF pmi ex] none by simp
  then have code: "rsp_code resp = 200" using sample_tunnel_checks t by simp
  obtain p where p: "server_process (sample_machine (pool (pm_of w'))) sample_args =
      (Inr p, [''server.toml'' \<mapsto> []])" "bind_port (cfg_server (pr_config p)) = cr_remote_port ?c"
    using sample_process [of "pool (pm_of w')"] by (auto simp: sample_create_def)
  have busy: "se_busy (snd ?w) False (cr_remote_port ?c)" by (simp add: sample_create_def)
  have "\<not> pr_tunnel p"
    using rule_takes_tunnel_port [OF sample_vec_json_ok inv busy e code t _ _ _ p]
    by (simp add: sample_machine_def open_database_def no_io_error_def)
  with e code p(1) show ?thesis by blast
qed

section \<open>Rules that run after a start\<close>

text \<open>The socket of a TCP or UDP rule.\<close>

definition uses_socket :: "proxy_rule \<Rightarrow> bool \<Rightarrow> u16 \<Rightarrow> bool" where
  "uses_socket r udp port \<longleftrightarrow>
     stream_type (r_type r) \<and> udp_socket (kind_of (r_type r)) = udp \<and> r_remote_port r = port"

lemma start_proxy_source:
  assumes "start_proxy_listener busy r lm = (ok, lm')" "port_taken udp p lm'"
  shows "port_taken udp p lm \<or> uses_socket r udp p"
proof -
  have src: "port_taken udp p lm \<or> udp_socket kind = udp \<and> port = p"
    if s: "start_stream_listener kind busy n port cid lm = (ok, lm')" for kind n port cid
  proof (cases "bind_ok busy kind port lm")
    case True
    then have l: "lm_tasks lm' = (lm_tasks lm)(lm_spawned lm \<mapsto>
        \<lparr>lt_kind = kind, lt_name = n, lt_port = port, lt_client = cid\<rparr>)" "lm_spawned lm' = lm_spawned lm + 1"
      using s by (auto simp: start_stream_listener_def spawn_task_def)
    show ?thesis
      using assms(2) unfolding port_taken_ex l by (auto simp: less_Suc_eq split: if_splits)
  qed (use s assms(2) in \<open>simp add: start_stream_listener_def\<close>)
  show ?thesis
  proof (cases "stream_type (r_type r) \<and> r_remote_port r \<noteq> 0")
    case True
    then have "start_stream_listener (kind_of (r_type r)) busy (r_name r) (r_remote_port r) (r_client_id r) lm = (ok, lm')"
      using assms(1) by (cases "r_type r")
        (simp_all add: start_proxy_listener.simps start_tcp_listener_def start_udp_listener_def)
    from src [OF this] True show ?thesis by (auto simp: uses_socket_def)
  next
    case False
    then have "lm_tasks lm' = lm_tasks lm \<and> lm_spawned lm' = lm_spawned lm"
      using assms(1) by (cases "r_type r") (auto simp: start_proxy_listener.simps register_domain_route_def)
    with assms(2) show ?thesis by (simp add: port_taken_ex)
  qed
qed

lemma start_existing_source:
  assumes "port_taken udp p (listeners_of (start_existing r w))"
  shows "port_taken udp p (listeners_of w) \<or> uses_socket r udp p"
  using assms start_proxy_source [of "se_busy (snd w)" r "listeners_of w"]
  by (cases "start_proxy_listener (se_busy (snd w)) r (listeners_of w)") (simp add: start_existing_env)

lemma start_all_source:
  assumes "port_taken udp p (listeners_of (fold start_existing rs w))"
  shows "port_taken udp p (listeners_of w) \<or> (\<exists>r \<in> set rs. uses_socket r udp p)"
  using assms
proof (induction rs arbitrary: w)
  case (Cons q rs)
  then have "port_taken udp p (listeners_of (start_existing q w)) \<or> (\<exists>r \<in> set rs. uses_socket r udp p)" by simp
  with start_existing_source [of udp p q w] show ?case by auto
qed simp

lemma start_free_rule:
  assumes "stream_type (r_type r)" "r_remote_port r \<noteq> 0"
    and "bind_ok busy (kind_of (r_type r)) (r_remote_port r) lm" "tasks_bounded lm"
  shows "listener_of (snd (start_proxy_listener busy r lm)) (r_name r) =
    Some \<lparr>lt_kind = kind_of (r_type r), lt_name = r_name r, lt_port = r_remote_port r, lt_client = r_client_id r\<rparr>"
proof -
  obtain ok lm' where s: "start_stream_listener (kind_of (r_type r)) busy (r_name r) (r_remote_port r)
      (r_client_id r) lm = (ok, lm')" by fastforce
  have "start_proxy_listener busy r lm = (ok, lm')"
    using s assms(1,2) by (cases "r_type r")
      (simp_all add: start_proxy_listener.simps start_tcp_listener_def start_udp_listener_def)
  with start_stream_simps(1,4) [OF s assms(4)] assms(3) show ?thesis by simp
qed

lemma start_all_listener:
  assumes "sys_inv V w" "\<And>q. q \<in> set rs \<Longrightarrow> rules_of V w (r_name q) = Some q"
    and "\<And>q. q \<in> set rs \<Longrightarrow> listener_of (listeners_of w) (r_name q) = None"
    and "distinct (map r_name rs)" "n \<notin> r_name ` set rs"
  shows "listener_of (listeners_of (fold start_existing rs w)) n = listener_of (listeners_of w) n"
  using assms
proof (induction rs arbitrary: w)
  case (Cons r rs)
  have s1: "sys_inv V (start_existing r w)" using Cons.prems by (intro start_existing_sys) auto
  have lmi: "lm_inv (listeners_of w)" using Cons.prems(1) by (simp add: sys_inv_def sys_ok_def)
  have "listener_of (listeners_of (fold start_existing rs (start_existing r w))) n =
      listener_of (listeners_of (start_existing r w)) n"
  proof (rule Cons.IH [OF s1])
    fix q assume q: "q \<in> set rs"
    then have "r_name q \<in> r_name ` set rs" by simp
    with Cons.prems(4) have "r_name q \<noteq> r_name r" by auto
    with q Cons.prems(2,3) start_existing_listener [OF lmi]
    show "rules_of V (start_existing r w) (r_name q) = Some q"
      "listener_of (listeners_of (start_existing r w)) (r_name q) = None" by auto
  qed (use Cons.prems(4,5) in simp_all)
  with start_existing_listener [OF lmi, of n r] Cons.prems(5) show ?case by simp
qed simp

text \<open>A rule that shares its socket with no other rule and no other program gets its listener.\<close>

lemma start_all_runs:
  assumes inv: "sys_inv V w" and rules: "\<And>q. q \<in> set rs \<Longrightarrow> rules_of V w (r_name q) = Some q"
    and none: "\<And>q. q \<in> set rs \<Longrightarrow> listener_of (listeners_of w) (r_name q) = None"
    and dist: "distinct (map r_name rs)" and r: "r \<in> set rs" "stream_type (r_type r)" "r_remote_port r \<noteq> 0"
    and free: "bind_ok (se_busy (snd w)) (kind_of (r_type r)) (r_remote_port r) (listeners_of w)"
    and own: "\<And>q. q \<in> set rs \<Longrightarrow> q \<noteq> r \<Longrightarrow> \<not> uses_socket q (udp_socket (kind_of (r_type r))) (r_remote_port r)"
  shows "listener_of (listeners_of (fold start_existing rs w)) (r_name r) =
    Some \<lparr>lt_kind = kind_of (r_type r), lt_name = r_name r, lt_port = r_remote_port r, lt_client = r_client_id r\<rparr>"
proof -
  from r(1) obtain before after where rs: "rs = before @ r # after" by (meson split_list)
  let ?w1 = "fold start_existing before w"
  let ?w2 = "start_existing r ?w1"
  have s1: "sys_inv V ?w1"
    by (rule start_all_existing_sys [OF inv]) (use rules none dist in \<open>auto simp: rs\<close>)
  have rules1: "rules_of V ?w1 = rules_of V w" using start_all_existing_shared by blast
  have none1: "listener_of (listeners_of ?w1) (r_name q) = None" if "q \<in> set (r # after)" for q
  proof -
    have "r_name q \<notin> r_name ` set before" using dist that unfolding rs by auto
    then have "listener_of (listeners_of ?w1) (r_name q) = listener_of (listeners_of w) (r_name q)"
      by (intro start_all_listener [OF inv]) (use rules none dist in \<open>auto simp: rs\<close>)
    with none that show ?thesis by (auto simp: rs)
  qed
  have "q \<noteq> r" if "q \<in> set before" for q using dist that unfolding rs by auto
  then have "\<not> port_taken (udp_socket (kind_of (r_type r))) (r_remote_port r) (listeners_of ?w1)"
    using start_all_source [of _ _ before w] free own by (auto simp: rs bind_ok_def)
  then have free1: "bind_ok (se_busy (snd ?w1)) (kind_of (r_type r)) (r_remote_port r) (listeners_of ?w1)"
    using free by (simp add: bind_ok_def start_all_busy)
  have bd: "tasks_bounded (listeners_of ?w1)" using s1 by (simp add: sys_inv_def sys_ok_def lm_inv_def)
  have l2: "listener_of (listeners_of ?w2) (r_name r) = Some \<lparr>lt_kind = kind_of (r_type r), lt_name = r_name r,
      lt_port = r_remote_port r, lt_client = r_client_id r\<rparr>"
    using start_free_rule [OF r(2,3) free1 bd] by (simp add: start_existing_env)
  have s2: "sys_inv V ?w2"
    by (rule start_existing_sys [OF s1]) (use rules r(1) rules1 none1 in simp_all)
  have lmi: "lm_inv (listeners_of ?w1)" using s1 by (simp add: sys_inv_def sys_ok_def)
  have "listener_of (listeners_of (fold start_existing after ?w2)) (r_name r) =
      listener_of (listeners_of ?w2) (r_name r)"
  proof (rule start_all_listener [OF s2])
    fix q assume q: "q \<in> set after"
    then have "r_name q \<in> r_name ` set after" by simp
    then have "r_name q \<noteq> r_name r" using dist unfolding rs by auto
    with start_existing_listener [OF lmi] none1 q
    show "listener_of (listeners_of ?w2) (r_name q) = None" by simp
    show "rules_of V ?w2 (r_name q) = Some q" using rules q rules1 by (simp add: rs)
  qed (use dist in \<open>auto simp: rs\<close>)
  with l2 show ?thesis by (simp add: rs)
qed

lemma boot_runs_rule:
  assumes "distinct (map row_name rows)" "\<not> F 0" "\<not> F 1" "r \<in> set (map (rule_of_row V) rows)"
    and "stream_type (r_type r)" "r_remote_port r \<noteq> 0" "\<not> busy (udp_socket (kind_of (r_type r))) (r_remote_port r)"
    and "\<And>q. q \<in> set (map (rule_of_row V) rows) \<Longrightarrow> q \<noteq> r \<Longrightarrow>
      \<not> uses_socket q (udp_socket (kind_of (r_type r))) (r_remote_port r)"
  shows "listener_of (listeners_of (server_boot V F random busy cfg rows)) (r_name r) =
    Some \<lparr>lt_kind = kind_of (r_type r), lt_name = r_name r, lt_port = r_remote_port r, lt_client = r_client_id r\<rparr>"
proof -
  let ?cfg = "fill_jwt_secret random cfg" and ?n = "r_name r"
  let ?w1 = "loaded_world V (F 0) busy ?cfg rows"
  let ?w2 = "start_existing_listeners V (F 1) ?w1"
  have s1: "sys_inv V ?w1" using loaded_sys [OF assms(1)] assms(2) by simp
  have nd: "distinct (row_names (pm_of ?w1))" using s1 by (simp add: sys_inv_def pm_inv_def)
  have l: "map pe_rule (list_proxies V (F 1) (pm_of ?w1)) = map (rule_of_row V) rows"
    using assms(3) by (simp add: list_proxies_def query_all_rules_def entry_of_def Let_def comp_def loaded_world_def
        load_from_db_def load_rules app_with_db_def open_manager_def)
  note listed = listed_rules [OF nd, of V "F 1", unfolded l]
  have "bind_ok busy (kind_of (r_type r)) (r_remote_port r) listener_manager_new"
    using assms(7) by (simp add: bind_ok_def port_taken_def listener_manager_new_def)
  then have free: "bind_ok (se_busy (snd ?w1)) (kind_of (r_type r)) (r_remote_port r) (listeners_of ?w1)" by simp
  have l2: "listener_of (listeners_of ?w2) ?n = Some \<lparr>lt_kind = kind_of (r_type r), lt_name = ?n,
      lt_port = r_remote_port r, lt_client = r_client_id r\<rparr>"
    unfolding start_existing_listeners_def l
    by (rule start_all_runs [OF s1 _ _ listed(2) assms(4-6) free assms(8)])
      (use listed(1) in \<open>auto simp: rules_of_def\<close>)
  have s2: "sys_inv V ?w2"
    unfolding start_existing_listeners_def l
    by (rule start_all_existing_sys [OF s1 _ _ listed(2)]) (use listed(1) in \<open>auto simp: rules_of_def\<close>)
  have h2: "lm_http_listener (listeners_of ?w2) = None" "lm_https_listener (listeners_of ?w2) = None"
    using start_all_existing_shared [of _ ?w1 V]
    by (simp_all add: start_existing_listeners_def listener_manager_new_def)
  define w3 where "w3 = (if http_port (cfg_server ?cfg) > 0 then
      set_listeners (snd (start_http_listener busy (http_port (cfg_server ?cfg)) (listeners_of ?w2))) ?w2 else ?w2)"
  define w4 where "w4 = (if https_port (cfg_server ?cfg) > 0 then
      set_listeners (snd (start_https_listener busy (https_port (cfg_server ?cfg)) (listeners_of w3))) w3 else w3)"
  have lmi: "lm_inv (listeners_of ?w2)" using s2 by (simp add: sys_inv_def sys_ok_def)
  note i3 = start_http_inv [OF lmi h2(1) prod.collapse [symmetric, of "start_http_listener busy
    (http_port (cfg_server ?cfg)) (listeners_of ?w2)"]]
  have l3: "listener_of (listeners_of w3) ?n = listener_of (listeners_of ?w2) ?n" "lm_inv (listeners_of w3)"
    "lm_https_listener (listeners_of w3) = None"
    using i3 lmi h2 by (simp_all add: w3_def)
  note i4 = start_https_inv [OF l3(2,3) prod.collapse [symmetric, of "start_https_listener busy
    (https_port (cfg_server ?cfg)) (listeners_of w3)"]]
  have l4: "listener_of (listeners_of w4) ?n = listener_of (listeners_of w3) ?n" using i4 by (simp add: w4_def)
  have "listener_of (listeners_of (fold register_existing rs w)) = listener_of (listeners_of w)" for rs w
    by (induction rs arbitrary: w) (simp_all add: register_existing_def)
  then show ?thesis
    using l2 l3(1) l4 unfolding server_boot_def Let_def register_existing_domain_routes_def
      w4_def w3_def loaded_world_def by simp
qed

text \<open>Who can hold a port after a start.\<close>

lemma shared_source:
  "port_taken udp p (snd (start_http_listener busy q lm)) \<Longrightarrow> port_taken udp p lm \<or> \<not> udp \<and> p = q"
  "port_taken udp p (snd (start_https_listener busy q lm)) \<Longrightarrow> port_taken udp p lm \<or> \<not> udp \<and> p = q"
  by (auto simp: start_http_listener_def start_https_listener_def spawn_task_def port_taken_ex less_Suc_eq
      split: if_splits)

definition shared_port_of :: "server_config \<Rightarrow> u16 \<Rightarrow> bool" where
  "shared_port_of cfg p \<longleftrightarrow> p > 0 \<and> (p = http_port (cfg_server cfg) \<or> p = https_port (cfg_server cfg))"

lemma boot_source:
  assumes "port_taken False p (listeners_of (server_boot V F random busy cfg rows))"
  shows "(\<exists>r \<in> set (map (rule_of_row V) rows). uses_socket r False p) \<or> shared_port_of cfg p"
proof -
  let ?cfg = "fill_jwt_secret random cfg"
  let ?w1 = "loaded_world V (F 0) busy ?cfg rows"
  let ?w2 = "start_existing_listeners V (F 1) ?w1"
  have srv: "cfg_server ?cfg = cfg_server cfg" by (simp add: fill_jwt_secret_def)
  define w3 where "w3 = (if http_port (cfg_server ?cfg) > 0 then
      set_listeners (snd (start_http_listener busy (http_port (cfg_server ?cfg)) (listeners_of ?w2))) ?w2 else ?w2)"
  define w4 where "w4 = (if https_port (cfg_server ?cfg) > 0 then
      set_listeners (snd (start_https_listener busy (https_port (cfg_server ?cfg)) (listeners_of w3))) w3 else w3)"
  have "port_taken False p (listeners_of w4)"
    using assms unfolding server_boot_def Let_def register_existing_domain_routes_def register_all_port
      w4_def w3_def loaded_world_def by simp
  then have "port_taken False p (listeners_of w3) \<or> shared_port_of cfg p"
    using shared_source(2) [of False p] by (auto simp: w4_def shared_port_of_def srv split: if_splits)
  then have "port_taken False p (listeners_of ?w2) \<or> shared_port_of cfg p"
    using shared_source(1) [of False p] by (auto simp: w3_def shared_port_of_def srv split: if_splits)
  moreover have "\<exists>r \<in> set (map (rule_of_row V) rows). uses_socket r False p"
    if "port_taken False p (listeners_of ?w2)"
  proof -
    let ?rs = "map pe_rule (list_proxies V (F 1) (pm_of ?w1))"
    have "\<exists>r \<in> set ?rs. uses_socket r False p"
      using start_all_source [OF that [unfolded start_existing_listeners_def]]
      by (simp add: port_taken_def listener_manager_new_def)
    moreover have "set ?rs \<subseteq> set (map (rule_of_row V) rows)"
      by (auto simp: list_proxies_def query_all_rules_def entry_of_def Let_def loaded_world_def
          load_from_db_def load_rules app_with_db_def open_manager_def)
    ultimately show ?thesis by blast
  qed
  ultimately show ?thesis by blast
qed

text \<open>
  C29. What a start brings up. In a started process every stored TCP or UDP rule whose socket no other stored rule and no
  other program uses has its listener, on its port and for its client, and is shown as running, whatever the order and the
  fate of the other rules; and the tunnel is up if no other program, no stored rule, no shared listener and
  no colliding Web panel uses its port.
\<close>
theorem start_brings_up:
  assumes "server_process M args = (Inr p, fs)" and "\<not> mc_faults M 0" and "\<not> mc_faults M 1"
    and "open_database (mc_io M) (mc_databases M) (db_path args) = Some rows" and "distinct (map row_name rows)"
    and "rules = set (map (rule_of_row (mc_vec M)) rows)"
  shows "(\<forall>r \<in> rules. stream_type (r_type r) \<and> r_remote_port r \<noteq> 0 \<and>
        \<not> mc_busy M (udp_socket (kind_of (r_type r))) (r_remote_port r) \<and>
        (\<forall>q \<in> rules. uses_socket q (udp_socket (kind_of (r_type r))) (r_remote_port r) \<longrightarrow> q = r) \<longrightarrow>
      listener_of (listeners_of (st_world (pr_started p))) (r_name r) =
        Some \<lparr>lt_kind = kind_of (r_type r), lt_name = r_name r, lt_port = r_remote_port r, lt_client = r_client_id r\<rparr> \<and>
      statuses (st_world (pr_started p)) (r_name r) = Some Running) \<and>
    (\<not> mc_busy M False (bind_port (cfg_server (pr_config p))) \<and>
       (\<forall>q \<in> rules. \<not> uses_socket q False (bind_port (cfg_server (pr_config p)))) \<and>
       \<not> shared_port_of (pr_config p) (bind_port (cfg_server (pr_config p))) \<and>
       \<not> (panel_collides M (pr_config p) \<and>
          web_bind_port (cfg_web (pr_config p)) = bind_port (cfg_server (pr_config p))) \<longrightarrow>
     pr_tunnel p)"
  using assms(1)
proof (rule server_process_Inr)
  fix content cfg rows' boot
  assume d: "open_database (mc_io M) (mc_databases M) (db_path args) = Some rows'"
    and w: "boot = server_boot (mc_vec M) (mc_faults M) (mc_random M) (mc_busy M) cfg rows'"
    and c: "pr_config p = fill_jwt_secret (mc_random M) cfg"
    and b: "(pr_tunnel p, pr_panel p) = bind_services M (pr_config p) (listeners_of boot)"
    and l: "listeners_of (st_world (pr_started p)) = listeners_of boot" "pm_of (st_world (pr_started p)) = pm_of boot"
  have rows: "rows' = rows" using d assms(4) by simp
  have inv: "sys_inv (mc_vec M) boot" unfolding w rows by (rule server_boot_sys) (rule assms(5), rule assms(2))
  have st: "statuses (st_world (pr_started p)) = statuses boot" using l(2) by (simp add: statuses_def fun_eq_iff)
  let ?bp = "bind_port (cfg_server (pr_config p))"
  show ?thesis
  proof (intro conjI ballI impI)
    fix r assume r: "r \<in> rules" and f: "stream_type (r_type r) \<and> r_remote_port r \<noteq> 0 \<and>
        \<not> mc_busy M (udp_socket (kind_of (r_type r))) (r_remote_port r) \<and>
        (\<forall>q \<in> rules. uses_socket q (udp_socket (kind_of (r_type r))) (r_remote_port r) \<longrightarrow> q = r)"
    have "listener_of (listeners_of boot) (r_name r) = Some \<lparr>lt_kind = kind_of (r_type r), lt_name = r_name r,
        lt_port = r_remote_port r, lt_client = r_client_id r\<rparr>"
      unfolding w rows
      by (rule boot_runs_rule) (use assms(2,3,5,6) r f in auto)
    then show run: "listener_of (listeners_of (st_world (pr_started p))) (r_name r) =
        Some \<lparr>lt_kind = kind_of (r_type r), lt_name = r_name r, lt_port = r_remote_port r, lt_client = r_client_id r\<rparr>"
      by (simp add: l)
    with inv obtain q where q: "rules_of (mc_vec M) boot (r_name r) = Some q" "stream_type (r_type q)"
      unfolding sys_inv_def sys_ok_def listeners_sound_def serves_def l by blast
    with inv run show "statuses (st_world (pr_started p)) (r_name r) = Some Running"
      unfolding sys_inv_def sys_ok_def statuses_exact_def st l by blast
  next
    assume t: "\<not> mc_busy M False ?bp \<and> (\<forall>q \<in> rules. \<not> uses_socket q False ?bp) \<and>
       \<not> shared_port_of (pr_config p) ?bp \<and>
       \<not> (panel_collides M (pr_config p) \<and> web_bind_port (cfg_web (pr_config p)) = ?bp)"
    have "shared_port_of (pr_config p) = shared_port_of cfg"
      by (simp add: c fill_jwt_secret_def shared_port_of_def fun_eq_iff)
    then have "\<not> port_taken False ?bp (listeners_of boot)"
      using boot_source [of ?bp "mc_vec M" "mc_faults M" "mc_random M" "mc_busy M" cfg rows] t assms(6) w rows by auto
    then have "bind_ok (mc_busy M) Tcp_Task ?bp (listeners_of boot)" using t by (simp add: bind_ok_def)
    then have "fst (bind_services M (pr_config p) (listeners_of boot))"
      using t by (auto simp: bind_services_def Let_def)
    then show "pr_tunnel p" by (simp flip: b)
  qed
qed

theorem start_brings_up_witness:
  "\<exists>p fs. server_process (sample_machine (map (row_of_rule sample_vec_json) [sample_rule ''a''])) sample_args = (Inr p, fs) \<and>
    statuses (st_world (pr_started p)) ''a'' = Some Running \<and> pr_tunnel p"
proof -
  let ?rows = "map (row_of_rule sample_vec_json) [sample_rule ''a'']"
  let ?M = "sample_machine ?rows"
  obtain p where p: "server_process ?M sample_args = (Inr p, [''server.toml'' \<mapsto> []])"
    "bind_port (cfg_server (pr_config p)) = 7000" "http_port (cfg_server (pr_config p)) = 0"
    "https_port (cfg_server (pr_config p)) = 0" "web_bind_port (cfg_web (pr_config p)) = 7500"
    using sample_process [of ?rows] by auto
  have M: "\<not> mc_faults ?M 0" "\<not> mc_faults ?M 1" by (simp_all add: sample_machine_def)
  have d: "open_database (mc_io ?M) (mc_databases ?M) (db_path sample_args) = Some ?rows"
    by (simp add: sample_machine_def open_database_def no_io_error_def)
  have dist: "distinct (map row_name ?rows)" by simp
  have r: "set (map (rule_of_row (mc_vec ?M)) ?rows) = {sample_rule ''a''}" by (simp add: sample_machine_def)
  have free: "\<not> mc_busy ?M udp port" for udp port by (simp add: sample_machine_def free_ports_def)
  from start_brings_up [OF p(1) M d dist refl, unfolded r] have
    "statuses (st_world (pr_started p)) ''a'' = Some Running"
    using free by (simp add: sample_rule_def)
  moreover have "pr_tunnel p"
    using start_brings_up [OF p(1) M d dist refl, unfolded r, THEN conjunct2] free p(2-5)
    by (simp add: sample_rule_def uses_socket_def shared_port_of_def)
  ultimately show ?thesis using p(1) by blast
qed

end
