(* ===== verification/Conn_Stats.thy ===== *)
theory Conn_Stats
  imports Server
begin

text \<open>
  The statistics of running connections: \<^verbatim>\<open>report_conn\<close> and \<^verbatim>\<open>report_traffic\<close> of
  \<^verbatim>\<open>crates/server/src/proxy_listener.rs\<close> around and within the bridges (and UDP sessions), and the callbacks of
  \<^verbatim>\<open>crates/server/src/main.rs\<close>, which spawn a task per report. Spawned tasks run in any order.
\<close>

section \<open>Model\<close>

datatype report_task = Conn_Report string int | Traffic_Report string u64 u64

fun run_report :: "report_task \<Rightarrow> proxy_manager \<Rightarrow> proxy_manager" where
  "run_report (Conn_Report name delta) = conn_callback name delta"
| "run_report (Traffic_Report name bytes_in bytes_out) = traffic_callback name bytes_in bytes_out"

text \<open>
  The runtime states, the report tasks that were spawned and have not run, the number of bridges of each rule that
  have reported their start and not their end, and, for the statements only, what was reported of each rule so far.
\<close>

record stats =
  st_pm :: proxy_manager
  st_spawned :: "report_task list"
  st_live :: "string \<Rightarrow> nat"
  st_in :: "string \<Rightarrow> u64"
  st_out :: "string \<Rightarrow> u64"

definition report_conn :: "string \<Rightarrow> int \<Rightarrow> stats \<Rightarrow> stats" where
  "report_conn name delta s = s\<lparr>st_spawned := st_spawned s @ [Conn_Report name delta]\<rparr>"

definition report_traffic :: "string \<Rightarrow> u64 \<Rightarrow> u64 \<Rightarrow> stats \<Rightarrow> stats" where
  "report_traffic name bytes_in bytes_out s =
     s\<lparr>st_spawned := st_spawned s @ [Traffic_Report name bytes_in bytes_out],
       st_in := (st_in s)(name := st_in s name + bytes_in),
       st_out := (st_out s)(name := st_out s name + bytes_out)\<rparr>"

text \<open>The report before a bridge is spawned, those of its loop, and the one after its end.\<close>

definition bridge_begins :: "string \<Rightarrow> stats \<Rightarrow> stats" where
  "bridge_begins name s = (report_conn name 1 s)\<lparr>st_live := (st_live s)(name := st_live s name + 1)\<rparr>"

definition bridge_ends :: "string \<Rightarrow> stats \<Rightarrow> stats" where
  "bridge_ends name s = (report_conn name (-1) s)\<lparr>st_live := (st_live s)(name := st_live s name - 1)\<rparr>"

text \<open>A report task runs; with \<open>ordered\<close> the oldest does.\<close>

definition report_runs :: "nat \<Rightarrow> stats \<Rightarrow> stats" where
  "report_runs k s =
     s\<lparr>st_pm := run_report (st_spawned s ! k) (st_pm s),
       st_spawned := take k (st_spawned s) @ drop (Suc k) (st_spawned s)\<rparr>"

inductive stats_step :: "bool \<Rightarrow> stats \<Rightarrow> stats \<Rightarrow> bool" for ordered where
  begins: "stats_step ordered s (bridge_begins n s)"
| forwards: "0 < st_live s n \<Longrightarrow> stats_step ordered s (report_traffic n i j s)"
| ends: "0 < st_live s n \<Longrightarrow> stats_step ordered s (bridge_ends n s)"
| runs: "k < length (st_spawned s) \<Longrightarrow> (ordered \<longrightarrow> k = 0) \<Longrightarrow> stats_step ordered s (report_runs k s)"
| status: "stats_step ordered s (s\<lparr>st_pm := update_status n x (st_pm s)\<rparr>)"
| sampled: "stats_step ordered s (s\<lparr>st_pm := update_bandwidth now (st_pm s)\<rparr>)"

definition stats_start :: "proxy_manager \<Rightarrow> stats" where
  "stats_start pm =
     \<lparr>st_pm = pm, st_spawned = [], st_live = (\<lambda>_. 0), st_in = (\<lambda>_. 0), st_out = (\<lambda>_. 0)\<rparr>"

section \<open>Counting\<close>

definition shown :: "string \<Rightarrow> proxy_manager \<Rightarrow> (u64 \<times> u64 \<times> u64) option" where
  "shown n pm = map_option (\<lambda>rt. (rs_connections rt, rs_bytes_in rt, rs_bytes_out rt)) (runtime pm n)"

abbreviation begun :: "string \<Rightarrow> report_task list \<Rightarrow> nat" where
  "begun n rs \<equiv> count_list rs (Conn_Report n 1)"

abbreviation ended :: "string \<Rightarrow> report_task list \<Rightarrow> nat" where
  "ended n rs \<equiv> count_list rs (Conn_Report n (-1))"

fun bytes_in_of :: "string \<Rightarrow> report_task \<Rightarrow> u64" where
  "bytes_in_of n (Traffic_Report m i j) = (if m = n then i else 0)"
| "bytes_in_of n (Conn_Report m d) = 0"

fun bytes_out_of :: "string \<Rightarrow> report_task \<Rightarrow> u64" where
  "bytes_out_of n (Traffic_Report m i j) = (if m = n then j else 0)"
| "bytes_out_of n (Conn_Report m d) = 0"

fun after_report :: "string \<Rightarrow> report_task \<Rightarrow> u64 \<times> u64 \<times> u64 \<Rightarrow> u64 \<times> u64 \<times> u64" where
  "after_report n (Conn_Report m d) (c, i, j) =
     (if m \<noteq> n then c else if d = 1 then c + 1 else if d = -1 then saturating_sub c 1 else c, i, j)"
| "after_report n (Traffic_Report m i' j') (c, i, j) = (if m = n then (c, i + i', j + j') else (c, i, j))"

definition unit_reports :: "report_task list \<Rightarrow> bool" where
  "unit_reports rs \<longleftrightarrow> (\<forall>n d. Conn_Report n d \<in> set rs \<longrightarrow> d = 1 \<or> d = -1)"

lemma sample_counts [simp]:
  "rs_connections (sample_runtime now rt) = rs_connections rt" "rs_bytes_in (sample_runtime now rt) = rs_bytes_in rt"
  "rs_bytes_out (sample_runtime now rt) = rs_bytes_out rt"
  by (simp_all add: sample_runtime_def Let_def split: option.splits)

lemma shown_quiet [simp]:
  "shown n (update_status m x pm) = shown n pm" "shown n (update_bandwidth now pm) = shown n pm"
  by (auto simp: shown_def runtime_update_status update_bandwidth_def option.map_comp comp_def)

lemma shown_report:
  assumes "\<forall>m d. r = Conn_Report m d \<longrightarrow> d = 1 \<or> d = -1"
  shows "shown n (run_report r pm) = map_option (after_report n r) (shown n pm)"
  using assms
  by (cases r; cases "runtime pm n") (auto simp: shown_def conn_callback_def inc_connections_def dec_connections_def
      traffic_callback_def add_traffic_def with_runtime_def split: option.splits)

lemma take_drop_split: "k < length rs \<Longrightarrow> rs = take k rs @ rs ! k # drop (Suc k) rs"
  by (simp add: id_take_nth_drop)

lemma sum_without:
  fixes f :: "report_task \<Rightarrow> u64"
  assumes "k < length rs"
  shows "sum_list (map f rs) = f (rs ! k) + sum_list (map f (take k rs @ drop (Suc k) rs))"
  by (subst take_drop_split [OF assms]) simp

lemma count_without:
  assumes "k < length rs"
  shows "count_list rs x = (if rs ! k = x then 1 else 0) + count_list (take k rs @ drop (Suc k) rs) x"
  by (subst take_drop_split [OF assms]) (simp only: count_list_append count_list.simps, simp)

section \<open>Invariant\<close>

text \<open>
  For a rule \<open>n\<close> with an entry, after \<open>k\<close> steps from \<open>i0\<close> and \<open>j0\<close> bytes: bytes are never lost, and the count never
  falls behind. If the reports run in order the count is exact and no decrement meets zero.
\<close>

definition bytes_ok :: "string \<Rightarrow> u64 \<Rightarrow> u64 \<Rightarrow> u64 \<Rightarrow> u64 \<Rightarrow> stats \<Rightarrow> bool" where
  "bytes_ok n i0 j0 i j s \<longleftrightarrow>
     i + sum_list (map (bytes_in_of n) (st_spawned s)) = i0 + st_in s n \<and>
     j + sum_list (map (bytes_out_of n) (st_spawned s)) = j0 + st_out s n"

definition count_ok :: "string \<Rightarrow> nat \<Rightarrow> nat \<Rightarrow> stats \<Rightarrow> bool" where
  "count_ok n k c s \<longleftrightarrow>
     st_live s n + ended n (st_spawned s) \<le> c + begun n (st_spawned s) \<and> c + begun n (st_spawned s) \<le> k"

definition count_exact :: "string \<Rightarrow> nat \<Rightarrow> stats \<Rightarrow> bool" where
  "count_exact n c s \<longleftrightarrow>
     c + begun n (st_spawned s) = st_live s n + ended n (st_spawned s) \<and>
     (\<forall>q. prefix q (st_spawned s) \<longrightarrow> ended n q \<le> c + begun n q)"

definition stats_ok :: "bool \<Rightarrow> string \<Rightarrow> u64 \<Rightarrow> u64 \<Rightarrow> nat \<Rightarrow> stats \<Rightarrow> bool" where
  "stats_ok ordered n i0 j0 k s \<longleftrightarrow> unit_reports (st_spawned s) \<and>
     (\<exists>c i j. shown n (st_pm s) = Some (c, i, j) \<and> bytes_ok n i0 j0 i j s \<and> count_ok n k (unat c) s \<and>
        (ordered \<longrightarrow> count_exact n (unat c) s))"

lemma unit_reports_append [simp]: "unit_reports (rs @ qs) \<longleftrightarrow> unit_reports rs \<and> unit_reports qs"
  by (auto simp: unit_reports_def)

lemma unit_reports_simps [simp]:
  "unit_reports []" "unit_reports [Traffic_Report m i j]" "unit_reports [Conn_Report m 1]" "unit_reports [Conn_Report m (-1)]"
  by (auto simp: unit_reports_def)

lemma prefix_snoc_ended:
  "(\<forall>q. prefix q (rs @ [r]) \<longrightarrow> ended n q \<le> c + begun n q) \<longleftrightarrow>
     (\<forall>q. prefix q rs \<longrightarrow> ended n q \<le> c + begun n q) \<and> ended n (rs @ [r]) \<le> c + begun n (rs @ [r])"
  by (auto simp: prefix_snoc)

lemma begins_ok:
  assumes "stats_ok ordered n i0 j0 k s"
  shows "stats_ok ordered n i0 j0 (Suc k) (bridge_begins m s)"
proof -
  from assms obtain c i j where s: "unit_reports (st_spawned s)" "shown n (st_pm s) = Some (c, i, j)"
    "bytes_ok n i0 j0 i j s" "count_ok n k (unat c) s" "ordered \<longrightarrow> count_exact n (unat c) s"
    unfolding stats_ok_def by blast
  let ?s = "bridge_begins m s"
  have "bytes_ok n i0 j0 i j ?s" using s(3) by (simp add: bytes_ok_def bridge_begins_def report_conn_def)
  moreover have "count_ok n (Suc k) (unat c) ?s"
    using s(4) by (auto simp: count_ok_def bridge_begins_def report_conn_def)
  moreover have "ordered \<longrightarrow> count_exact n (unat c) ?s"
  proof
    assume ordered
    then have e: "count_exact n (unat c) s" using s(5) by blast
    then have "ended n (st_spawned s) \<le> unat c + begun n (st_spawned s)" by (simp add: count_exact_def)
    with e show "count_exact n (unat c) ?s"
      by (auto simp: count_exact_def bridge_begins_def report_conn_def prefix_snoc_ended)
  qed
  ultimately show ?thesis using s(1,2) unfolding stats_ok_def
    by (simp add: bridge_begins_def report_conn_def)
qed

lemma ends_ok:
  assumes "stats_ok ordered n i0 j0 k s" "0 < st_live s m"
  shows "stats_ok ordered n i0 j0 (Suc k) (bridge_ends m s)"
proof -
  from assms(1) obtain c i j where s: "unit_reports (st_spawned s)" "shown n (st_pm s) = Some (c, i, j)"
    "bytes_ok n i0 j0 i j s" "count_ok n k (unat c) s" "ordered \<longrightarrow> count_exact n (unat c) s"
    unfolding stats_ok_def by blast
  let ?s = "bridge_ends m s"
  have "bytes_ok n i0 j0 i j ?s" using s(3) by (simp add: bytes_ok_def bridge_ends_def report_conn_def)
  moreover have "count_ok n (Suc k) (unat c) ?s"
    using s(4) assms(2) by (auto simp: count_ok_def bridge_ends_def report_conn_def)
  moreover have "ordered \<longrightarrow> count_exact n (unat c) ?s"
  proof
    assume ordered
    then have e: "count_exact n (unat c) s" using s(5) by blast
    then show "count_exact n (unat c) ?s"
      using assms(2) by (auto simp: count_exact_def bridge_ends_def report_conn_def prefix_snoc_ended)
  qed
  ultimately show ?thesis using s(1,2) unfolding stats_ok_def
    by (simp add: bridge_ends_def report_conn_def)
qed

lemma forwards_ok:
  assumes "stats_ok ordered n i0 j0 k s"
  shows "stats_ok ordered n i0 j0 (Suc k) (report_traffic m i' j' s)"
proof -
  from assms obtain c i j where s: "unit_reports (st_spawned s)" "shown n (st_pm s) = Some (c, i, j)"
    "bytes_ok n i0 j0 i j s" "count_ok n k (unat c) s" "ordered \<longrightarrow> count_exact n (unat c) s"
    unfolding stats_ok_def by blast
  let ?s = "report_traffic m i' j' s"
  have "bytes_ok n i0 j0 i j ?s" using s(3) by (simp add: bytes_ok_def report_traffic_def flip: add.assoc)
  moreover have "count_ok n (Suc k) (unat c) ?s" using s(4) by (simp add: count_ok_def report_traffic_def)
  moreover have "ordered \<longrightarrow> count_exact n (unat c) ?s"
  proof
    assume ordered
    then have e: "count_exact n (unat c) s" using s(5) by blast
    then have "ended n (st_spawned s) \<le> unat c + begun n (st_spawned s)" by (simp add: count_exact_def)
    with e show "count_exact n (unat c) ?s"
      by (simp add: count_exact_def report_traffic_def prefix_snoc_ended)
  qed
  ultimately show ?thesis using s(1,2) unfolding stats_ok_def by (simp add: report_traffic_def)
qed

text \<open>A report task: the oldest, or any one.\<close>

lemma unit_report_nth:
  "unit_reports rs \<Longrightarrow> k < length rs \<Longrightarrow> \<forall>m d. rs ! k = Conn_Report m d \<longrightarrow> d = 1 \<or> d = -1"
  unfolding unit_reports_def by (metis nth_mem)

lemma unit_reports_without:
  "unit_reports rs \<Longrightarrow> unit_reports (take k rs @ drop (Suc k) rs)"
  by (auto simp: unit_reports_def dest: in_set_takeD in_set_dropD)

text \<open>How a report moves the count of \<open>n\<close>, and what it takes out of the spawned ones.\<close>

lemma after_report_count:
  assumes "after_report n r (c, i, j) = (c', i', j')" "\<forall>m d. r = Conn_Report m d \<longrightarrow> d = 1 \<or> d = -1"
    and "unat c < 2 ^ 64 - 1"
  shows "unat c' = (if r = Conn_Report n 1 then unat c + 1 else if r = Conn_Report n (-1) then unat c - 1 else unat c)"
    and "i' = i + bytes_in_of n r" "j' = j + bytes_out_of n r"
proof -
  have "unat (c + 1) = unat c + 1" using assms(3) by (simp add: unat_word_ariths)
  then show "unat c' = (if r = Conn_Report n 1 then unat c + 1 else if r = Conn_Report n (-1) then unat c - 1 else unat c)"
    using assms(1,2) by (cases r) (auto split: if_splits)
  show "i' = i + bytes_in_of n r" "j' = j + bytes_out_of n r"
    using assms(1) by (cases r; auto split: if_splits)+
qed

lemma runs_ok:
  assumes "stats_ok ordered n i0 j0 k s" "l < length (st_spawned s)" "ordered \<longrightarrow> l = 0" "k < 2 ^ 64 - 1"
  shows "stats_ok ordered n i0 j0 (Suc k) (report_runs l s)"
proof -
  from assms(1) obtain c i j where s: "unit_reports (st_spawned s)" "shown n (st_pm s) = Some (c, i, j)"
    "bytes_ok n i0 j0 i j s" "count_ok n k (unat c) s" "ordered \<longrightarrow> count_exact n (unat c) s"
    unfolding stats_ok_def by blast
  let ?s = "report_runs l s" and ?rs = "st_spawned s" and ?r = "st_spawned s ! l"
  let ?qs = "take l ?rs @ drop (Suc l) ?rs"
  obtain c' i' j' where a: "after_report n ?r (c, i, j) = (c', i', j')"
    by (cases "after_report n ?r (c, i, j)")
  note u = unit_report_nth [OF s(1) assms(2)]
  have "unat c < 2 ^ 64 - 1" using s(4) assms(4) by (simp add: count_ok_def)
  note a' = after_report_count [OF a u this]
  have sp: "st_spawned ?s = ?qs" "st_live ?s = st_live s" "st_in ?s = st_in s" "st_out ?s = st_out s"
    by (simp_all add: report_runs_def)
  note b = count_without [OF assms(2), of "Conn_Report n 1"]
    and e = count_without [OF assms(2), of "Conn_Report n (-1)"]
  have "shown n (st_pm ?s) = Some (c', i', j')"
    using shown_report [OF u] s(2) a by (simp add: report_runs_def)
  moreover have "bytes_ok n i0 j0 i' j' ?s"
    using s(3) sum_without [OF assms(2), of "bytes_in_of n"] sum_without [OF assms(2), of "bytes_out_of n"]
    unfolding bytes_ok_def sp a'(2,3) by (simp only: add.assoc)
  moreover have "count_ok n (Suc k) (unat c') ?s"
    using s(4) b e unfolding count_ok_def sp a'(1) by (auto split: if_splits)
  moreover have "ordered \<longrightarrow> count_exact n (unat c') ?s"
  proof
    assume ordered
    then have x: "count_exact n (unat c) s" and l: "l = 0" using s(5) assms(3) by blast+
    obtain r qs where rs: "?rs = r # qs" using assms(2) by (cases ?rs) auto
    have pre: "ended n q \<le> unat c' + begun n q" if "prefix q qs" for q
    proof -
      have "prefix (r # q) ?rs" "prefix [r] ?rs" using that by (simp_all add: rs)
      then have "ended n (r # q) \<le> unat c + begun n (r # q)" "ended n [r] \<le> unat c + begun n [r]"
        using x unfolding count_exact_def by blast+
      then show ?thesis using a'(1) by (auto simp: rs l split: if_splits)
    qed
    have "prefix [r] ?rs" by (simp add: rs)
    then have "ended n [r] \<le> unat c + begun n [r]" using x unfolding count_exact_def by blast
    then have "unat c' + begun n qs = st_live s n + ended n qs"
      using x a'(1) by (auto simp: count_exact_def rs l split: if_splits)
    with pre show "count_exact n (unat c') ?s" unfolding count_exact_def sp by (simp add: rs l)
  qed
  ultimately show ?thesis using unit_reports_without [OF s(1), of l] unfolding stats_ok_def by (auto simp: sp)
qed

lemma quiet_ok:
  assumes "stats_ok ordered n i0 j0 k s" "shown n pm = shown n (st_pm s)"
  shows "stats_ok ordered n i0 j0 (Suc k) (s\<lparr>st_pm := pm\<rparr>)"
  using assms by (auto simp: stats_ok_def bytes_ok_def count_ok_def count_exact_def)

lemma stats_step_ok:
  assumes "stats_ok ordered n i0 j0 k s" "stats_step ordered s s'" "k < 2 ^ 64 - 1"
  shows "stats_ok ordered n i0 j0 (Suc k) s'"
  using assms(2)
proof cases
  case (begins m)
  then show ?thesis using begins_ok [OF assms(1)] by simp
next
  case (forwards m i j)
  then show ?thesis using forwards_ok [OF assms(1)] by simp
next
  case (ends m)
  then show ?thesis using ends_ok [OF assms(1)] by simp
next
  case (runs l)
  then show ?thesis using runs_ok [OF assms(1) _ _ assms(3), of l] by simp
next
  case (status m x)
  then show ?thesis using quiet_ok [OF assms(1)] by simp
next
  case (sampled now)
  then show ?thesis using quiet_ok [OF assms(1)] by simp
qed

lemma stats_run_ok:
  assumes "(stats_step ordered ^^ k) (stats_start pm) s" "k < 2 ^ 64" "shown n pm = Some (0, i0, j0)"
  shows "stats_ok ordered n i0 j0 k s"
  using assms(1,2)
proof (induction k arbitrary: s)
  case 0
  then have "s = stats_start pm" by simp
  with assms(3) show ?case
    by (simp add: stats_ok_def stats_start_def bytes_ok_def count_ok_def count_exact_def)
next
  case (Suc k)
  from Suc.prems(1) obtain s1 where "(stats_step ordered ^^ k) (stats_start pm) s1" "stats_step ordered s1 s"
    by (auto elim: relpowp_Suc_E)
  with Suc show ?case by (intro stats_step_ok [of ordered n i0 j0 k s1]) simp_all
qed

section \<open>Properties\<close>

text \<open>
  C33. What the statistics of a rule are worth. While the rule stays, for fewer than \<open>2 ^ 64\<close> steps of any number of
  bridges, with the report tasks run in any order: once no report is pending, the byte counters are exactly what was reported
  (modulo \<open>2 ^ 64\<close>), and the connection count is at least the number of running bridges. It is exactly that
  number if the report tasks run in the order they were spawned.
\<close>
theorem connection_statistics:
  assumes "(stats_step ordered ^^ k) (stats_start pm) s" and "k < 2 ^ 64"
    and "runtime pm n = Some rt" and "rs_connections rt = 0" and "st_spawned s = []"
  shows "\<exists>rt'. runtime (st_pm s) n = Some rt' \<and>
    rs_bytes_in rt' = rs_bytes_in rt + st_in s n \<and> rs_bytes_out rt' = rs_bytes_out rt + st_out s n \<and>
    st_live s n \<le> unat (rs_connections rt') \<and> (ordered \<longrightarrow> unat (rs_connections rt') = st_live s n)"
proof -
  have "shown n pm = Some (0, rs_bytes_in rt, rs_bytes_out rt)" using assms(3,4) by (simp add: shown_def)
  from stats_run_ok [OF assms(1,2) this] obtain c i j where "shown n (st_pm s) = Some (c, i, j)"
    "bytes_ok n (rs_bytes_in rt) (rs_bytes_out rt) i j s" "count_ok n k (unat c) s"
    "ordered \<longrightarrow> count_exact n (unat c) s"
    unfolding stats_ok_def by blast
  then show ?thesis
    using assms(5) by (auto simp: shown_def bytes_ok_def count_ok_def count_exact_def)
qed

text \<open>One bridge whose two reports run in the other order: nothing runs, one connection is shown.\<close>

definition sample_stats :: stats where
  "sample_stats =
     report_runs 0 (report_runs 1 (bridge_ends ''a'' (bridge_begins ''a''
       (stats_start \<lparr>pool = [], runtime = [''a'' \<mapsto> runtime_new]\<rparr>))))"

theorem connection_statistics_witness:
  "\<exists>rt'. runtime (st_pm sample_stats) ''a'' = Some rt' \<and> rs_bytes_in rt' = 0 \<and>
    st_live sample_stats ''a'' = 0 \<and> rs_connections rt' = 1"
proof -
  let ?pm = "\<lparr>pool = [], runtime = [''a'' \<mapsto> runtime_new]\<rparr>"
  let ?s0 = "stats_start ?pm"
  let ?s1 = "bridge_begins ''a'' ?s0"
  let ?s2 = "bridge_ends ''a'' ?s1"
  let ?s3 = "report_runs 1 ?s2"
  note defs = bridge_begins_def bridge_ends_def report_conn_def report_runs_def stats_start_def
  have "stats_step False ?s0 ?s1" by (rule begins)
  moreover have "stats_step False ?s1 ?s2" by (rule ends) (simp add: defs)
  moreover have "stats_step False ?s2 ?s3" by (rule runs) (simp_all add: defs)
  moreover have "stats_step False ?s3 sample_stats"
    unfolding sample_stats_def by (rule runs) (simp_all add: defs)
  ultimately have r: "(stats_step False ^^ 4) ?s0 sample_stats" by (auto simp: eval_nat_numeral)
  have e: "st_spawned sample_stats = []" "st_live sample_stats ''a'' = 0" "st_in sample_stats ''a'' = 0"
    by (simp_all add: sample_stats_def defs)
  from connection_statistics [OF r _ _ _ e(1), of "''a''" runtime_new] obtain rt' where
    "runtime (st_pm sample_stats) ''a'' = Some rt'" "rs_bytes_in rt' = 0"
    using e(3) by (auto simp: runtime_new_def)
  moreover have "map_option rs_connections (runtime (st_pm sample_stats) ''a'') = Some 1"
    by (simp add: sample_stats_def defs conn_callback_def inc_connections_def dec_connections_def with_runtime_def
        runtime_new_def saturating_sub_def)
  ultimately show ?thesis using e(2) by auto
qed

end
