(* ===== verification/Spec2Isabelle.thy ===== *)
theory Spec2Isabelle
  imports Frame Http_Host Sni Proxy_Manager Server_Props Work_Ends Bridge Connector Udp_Table End_To_End Server_Main
    Session_Deadlock Api_Props Accept_Loops Start_Props Conn_Stats
begin

text \<open>
  RustProxy is a reverse tunnel. A server with public ports keeps rules (\<^verbatim>\<open>tcp\<close>, \<^verbatim>\<open>udp\<close>, \<^verbatim>\<open>http\<close>,
  \<^verbatim>\<open>https\<close>), each for one client behind a firewall. A client dials the server over TLS, authenticates with
  a token and is sent its rules. When a user connects to a rule, the server asks the client over this control connection for
  a work connection; the client dials again, announces the id of the request, and the two ends copy bytes
  between user and local service. Rules are administered over an HTTP interface and stored in SQLite.
  This library models the Rust code of \<^verbatim>\<open>crates/\<close> in HOL and proves what makes it correct, and, where
  the code does something else than it means to, exactly what it does.

  \<^bold>\<open>Theories and the code they model.\<close>

  \<^item> \<^verbatim>\<open>Prelude\<close>: bytes, big-endian numbers, saturating arithmetic, the collection \<open>wire\<close>, the interface \<open>transition_system\<close> of
    invariants. \<^verbatim>\<open>Text\<close>, \<^verbatim>\<open>Net_Addr\<close>, \<^verbatim>\<open>Ipv6_Text\<close>: what the code uses of Rust's strings (UTF-8) and of the address
    types of \<^verbatim>\<open>std::net\<close> with their texts.
  \<^item> \<^verbatim>\<open>Message\<close>, \<^verbatim>\<open>Frame\<close>: \<^verbatim>\<open>proto/src/message.rs\<close> and \<^verbatim>\<open>frame.rs\<close>. Encoder and decoder with every error
    branch; the interface \<open>framing\<close> and the round trip, incremental decoding, the memory bound of the decoder.
  \<^item> \<^verbatim>\<open>Config\<close>, \<^verbatim>\<open>Config_File\<close>, \<^verbatim>\<open>Rule_Store\<close>, \<^verbatim>\<open>Proxy_Manager\<close>: \<^verbatim>\<open>core/src/config.rs\<close> (sections and rules,
    and what is read from a parsed document) and \<^verbatim>\<open>proxy_manager.rs\<close>:
    rows of the table, runtime states, statistics. \<open>rule_store\<close> is the finite-map contract the manager is shown to meet.
  \<^item> \<^verbatim>\<open>App_State\<close>, \<^verbatim>\<open>Web_Auth\<close>, \<^verbatim>\<open>Api\<close>, \<^verbatim>\<open>Api_Login\<close>, \<^verbatim>\<open>Api_Rules\<close>: \<^verbatim>\<open>web/src/state.rs\<close>, \<^verbatim>\<open>auth.rs\<close>, \<^verbatim>\<open>lib.rs\<close>, \<^verbatim>\<open>ws.rs\<close>
    and \<^verbatim>\<open>api.rs\<close>: shared state and callbacks, tokens and router, validation and the handlers, the login limiter, and
    the specification of the interface as a finite map (locale \<open>web_callbacks\<close>: what a handler relies on in the callbacks).
  \<^item> \<^verbatim>\<open>Session\<close>: \<^verbatim>\<open>server/src/client_session.rs\<close>, \<^verbatim>\<open>tunnel.rs\<close>: first message, authentication, session table, message
    loop and heartbeat; all sessions together as the step relation \<open>session_step\<close>. \<^verbatim>\<open>Session_Locks\<close> and \<^verbatim>\<open>Session_Deadlock\<close>
    cut the methods of the session table at the lock and at the bounded channels (locale \<open>rwlock\<close>: what the code relies on
    in the lock of tokio, met by its queue \<open>fifo_grant\<close>).
  \<^item> \<^verbatim>\<open>Listener\<close>, \<^verbatim>\<open>Http_Host\<close>, \<^verbatim>\<open>Sni\<close>, \<^verbatim>\<open>Work_Conn\<close>, \<^verbatim>\<open>Work_Ends\<close>, \<^verbatim>\<open>Udp_Table\<close>, \<^verbatim>\<open>Bridge\<close>: the parts of
    \<^verbatim>\<open>server/src/proxy_listener.rs\<close>: listeners and domain routes, the parsers of the Host header and of the TLS ClientHello
    (with reads that panic out of range), the waiting table of work connections (\<open>work_step\<close>), the tables of a UDP listener
    (\<open>udp_step\<close>), and the copy loops of the server and, from \<^verbatim>\<open>client/src/proxy_worker.rs\<close>, of the client (locales
    \<open>copy_loop\<close>, \<open>packet_loop\<close>, \<open>counting_loop\<close>).
  \<^item> \<^verbatim>\<open>Server\<close>, \<^verbatim>\<open>Server_Inv\<close>, \<^verbatim>\<open>Server_Props\<close>: \<^verbatim>\<open>server/src/main.rs\<close>: the callbacks the server gives to the Web handlers,
    start-up, and everything that happens to the running server as \<open>server_step\<close>. \<^verbatim>\<open>Api_Steps\<close>, \<^verbatim>\<open>Api_Props\<close>: the handlers
    that change rules, cut at their awaits and interleaved (\<open>conc_step\<close>). \<^verbatim>\<open>Tls_Cert\<close>: \<^verbatim>\<open>core/src/tls.rs\<close>
    and \<^verbatim>\<open>server/src/cert.rs\<close>, on a map of files whose operations may fail. \<^verbatim>\<open>Server_Main\<close>: \<^verbatim>\<open>main\<close> with its early returns.
    \<^verbatim>\<open>Accept_Loops\<close>: the loops that accept connections (\<^verbatim>\<open>tunnel.rs\<close>, \<^verbatim>\<open>proxy_listener.rs\<close>). \<^verbatim>\<open>Conn_Stats\<close>: the
    reports of bridges and the tasks spawned for them. \<^verbatim>\<open>Program_Start\<close>, \<^verbatim>\<open>Start_Props\<close>: both processes
    from their arguments and files to the sockets they serve on, and the shutdown.
  \<^item> \<^verbatim>\<open>Client_Tls\<close>, \<^verbatim>\<open>Proxy_Protocol\<close>, \<^verbatim>\<open>Worker\<close>, \<^verbatim>\<open>Connector\<close>: \<^verbatim>\<open>client/src/connector.rs\<close>, \<^verbatim>\<open>proxy_worker.rs\<close>, \<^verbatim>\<open>main.rs\<close>:
    TLS set-up, the PROXY protocol headers with readers written from its specification, the tables of assignments and a work connection
    from dial to copy loop, one connection of the client and its reconnect loop.
  \<^item> \<^verbatim>\<open>Transport\<close>: copy loops over frames cut anywhere by the network. \<^verbatim>\<open>Client_Mirror\<close>: server, channel, wire and client
    together. \<^verbatim>\<open>End_To_End\<close>: one user connection, from the stored rule to the bytes at the local service.
    \<^verbatim>\<open>Serde_Instance\<close>: a concrete instance of the JSON parameters for the witnesses.

  \<^bold>\<open>How state and operations correspond.\<close> A struct is a record, an enum a datatype, an integer of the code a word of
  its width (or \<open>nat\<close> for clocks and lengths), a hash map a map, or an association list where its keys are listed. A function is a HOL
  function with the state passed through; a \<^verbatim>\<open>Result\<close> is a sum; a \<^verbatim>\<open>select!\<close> loop is a step function on
  the event it takes, and tasks that run at the same time are step relations that interleave at the locks and awaits of
  the code. What the world answers (a failing database, socket, file or send, the clock, random bytes) are arguments.

  \<^bold>\<open>What the lemmas show.\<close> Single components: round trips and bounds of codecs and headers, that parsers
  find what they should and do not panic, that the manager and the HTTP interface act as a finite map even
  under database errors, that five failed logins lock, that heartbeats cut off exactly the silent clients. Compositions: rules,
  statuses, listeners and routes stay consistent under all steps of the server; the entries of the session
  table lead to running handlers; both also with handlers and methods cut at their awaits and locks, where one that is not disturbed
  does what its one-step definition says; a start brings up every rule whose port nobody else uses; users are only handed over
  under stored rules; statistics never fall behind; a user is joined only to the work connection that announced its id, and every wait ends; the bytes of
  the user reach the local service in order, through loops, frames and network; the tables of the client are those of the
  server whenever nothing is on the way, and a work connection uses the rule in force when it was asked for.
  Others state defects, on every input on which they show: they are listed as findings beside the library.

  \<^bold>\<open>Parameters and hypotheses.\<close> Third-party code is an argument of the definitions that use it: \<open>serde\<close> (the
  JSON of the message structs; hypothesis \<open>serde_roundtrip\<close>, and \<open>serde_total\<close> where messages must have a text), \<open>vec_json\<close> (the JSON of a list of domains),
  \<open>jwt_lib\<close>, bcrypt, the Unicode letter class, \<open>tls_lib\<close> and \<open>cert_lib\<close> (rustls, rcgen, PEM; hypothesis
  \<open>pem_ok\<close>), the TOML text parser, the databases SQLite finds at a path, and the path that axum shows to the layers of a nested router. Each hypothesis is met by an instance
  that a witness uses.

  \<^bold>\<open>Bounds and fuel.\<close> Loops recurse on the list of their events or on their input, so there is no fuel. Connection ids are 64-bit and
  counted from 1; the invariants of \<^verbatim>\<open>Work_Conn\<close> and \<^verbatim>\<open>Udp_Table\<close> hold while fewer than \<open>2 ^ 64 - 1\<close> ids were taken,
  after which ids repeat; those of \<^verbatim>\<open>Conn_Stats\<close> hold for fewer than \<open>2 ^ 64\<close> steps, so that no count wraps. Byte counters are modulo \<open>2 ^ 64\<close>, as in a release build.

  \<^bold>\<open>Not modelled.\<close> Logging, the syntax of the command line (\<^verbatim>\<open>clap\<close>) and of TOML, the arrival of signals, SQL and the
  embedded assets beyond their routing are I/O and libraries. Ports are those of the configured address; port 0, where the system
  chooses one, is not treated. The errors of \<^verbatim>\<open>core/src/error.rs\<close> only wrap those of other crates. The order in which SQLite returns rows is that of the table. Bandwidth is a real number where the code rounds to \<^verbatim>\<open>f64\<close>. Texts of error messages are constructors.
  The reader of \<^verbatim>\<open>Transport\<close> stands for \<^verbatim>\<open>FramedRead\<close> of \<^verbatim>\<open>tokio_util\<close> as documented.
\<close>

end
